(* ===== verification/Prelude.thy ===== *)
theory Prelude
  imports Main "HOL-Library.Word" "HOL-Library.List_Lexorder" "HOL-Library.Char_ord"
    "HOL-Library.Multiset"
begin

text \<open>
  Shared base of the development: the faults a C operation can end in, results that carry them,
  byte buffers with checked accesses, and the generic lemmas and collections the component
  theories use.
\<close>

section \<open>Faults and results\<close>

text \<open>
  Everything in the sources that is not a normal return is a value. \<open>Abort\<close> is a call of
  \<^verbatim>\<open>abort(3)\<close>, \<open>Assert_failed\<close> a failed \<^verbatim>\<open>assert(3)\<close>; the other constructors are
  the undefined behaviours of C the sources can run into: the dereference of a null pointer,
  of a freed object, an access outside of an object, a shift by at least the width of the type,
  a signed operation out of range,
  a read of a union member which was not the last one written.
\<close>

datatype fault =
    Abort
  | Assert_failed
  | Null_deref
  | Use_after_free
  | Out_of_bounds
  | Shift_overflow
  | Signed_overflow
  | Bad_union

type_synonym 'a result = "fault + 'a"

definition rbind :: "'a result \<Rightarrow> ('a \<Rightarrow> 'b result) \<Rightarrow> 'b result" where
  "rbind m f = (case m of Inl e \<Rightarrow> Inl e | Inr x \<Rightarrow> f x)"

named_theorems result_iff \<open>when a bind returns normally\<close>

lemma rbind_Inr [simp]: "rbind (Inr x) f = f x"
  by (simp add: rbind_def)

lemma rbind_Inl [simp]: "rbind (Inl e) f = Inl e"
  by (simp add: rbind_def)

lemma rbind_eq_Inr [result_iff]: "rbind m f = Inr y \<longleftrightarrow> (\<exists>x. m = Inr x \<and> f x = Inr y)"
  by (cases m) auto

lemma rbind_eq_Inl [result_iff]:
  "rbind m f = Inl e \<longleftrightarrow> m = Inl e \<or> (\<exists>x. m = Inr x \<and> f x = Inl e)"
  by (cases m) auto

lemma rbind_assoc: "rbind (rbind m f) g = rbind m (\<lambda>x. rbind (f x) g)"
  by (cases m) auto

lemma rbind_Inr_right [simp]: "rbind m Inr = m"
  by (cases m) auto

lemma rbind_cong [fundef_cong]:
  "m = m' \<Longrightarrow> (\<And>x. m' = Inr x \<Longrightarrow> f x = g x) \<Longrightarrow> rbind m f = rbind m' g"
  by (cases m') auto

text \<open>A left fold whose body may fault stops at the first fault.\<close>

fun rfold :: "('a \<Rightarrow> 's \<Rightarrow> 's result) \<Rightarrow> 'a list \<Rightarrow> 's \<Rightarrow> 's result" where
  "rfold f [] s = Inr s"
| "rfold f (x # xs) s = rbind (f x s) (rfold f xs)"

lemma rfold_append: "rfold f (xs @ ys) s = rbind (rfold f xs s) (rfold f ys)"
  by (induction xs arbitrary: s) (simp_all add: rbind_assoc cong: rbind_cong)

lemma rfold_invariant:
  assumes "I s" and "\<And>x s. x \<in> set xs \<Longrightarrow> I s \<Longrightarrow> \<exists>s'. f x s = Inr s' \<and> I s'"
  shows "\<exists>s'. rfold f xs s = Inr s' \<and> I s'"
  using assms
proof (induction xs arbitrary: s)
  case Nil
  then show ?case by simp
next
  case (Cons x xs)
  from Cons.prems obtain s1 where "f x s = Inr s1" and "I s1"
    by (meson list.set_intros(1))
  moreover have "\<exists>s'. rfold f xs s1 = Inr s' \<and> I s'"
    using Cons.IH [OF \<open>I s1\<close>] Cons.prems(2) by (meson list.set_intros(2))
  ultimately show ?case by simp
qed

end
