(* ===== verification/C_Library.thy ===== *)
theory C_Library
  imports Prelude
begin

text \<open>
  The functions of the C library the sources call on characters, strings and numbers, in the
  "C" locale of an LP64 platform, with the strings of C as lists of characters without their
  terminating nul.
\<close>

section \<open>Characters and strings\<close>

definition NUL :: char where
  "NUL = CHR 0x00"

text \<open>A string of C holds no nul character.\<close>

definition c_string :: "string \<Rightarrow> bool" where
  "c_string s \<longleftrightarrow> NUL \<notin> set s"

lemma c_string_simps [simp]:
  "c_string []"
  "c_string (c # s) \<longleftrightarrow> c \<noteq> NUL \<and> c_string s"
  "c_string (s @ t) \<longleftrightarrow> c_string s \<and> c_string t"
  "c_string (rev s) \<longleftrightarrow> c_string s"
  by (auto simp: c_string_def)

lemma c_string_dropWhile: "c_string s \<Longrightarrow> c_string (dropWhile P s)"
  by (auto simp: c_string_def dest: set_dropWhileD)

lemma c_string_takeWhile: "c_string s \<Longrightarrow> c_string (takeWhile P s)"
  by (auto simp: c_string_def dest: set_takeWhileD)

definition byte :: "char \<Rightarrow> int" where
  "byte c = int (of_char c)"

lemma byte_inj [simp]: "byte c = byte d \<longleftrightarrow> c = d"
  by (simp add: byte_def)

lemma byte_nonneg: "0 \<le> byte c"
  by (simp add: byte_def)

lemma byte_NUL [simp]: "byte NUL = 0"
  by (simp add: byte_def NUL_def)

lemma byte_pos: "c \<noteq> NUL \<Longrightarrow> 0 < byte c"
  using byte_nonneg [of c] byte_inj [of c NUL] by (simp del: byte_inj)

lemma byte_less_iff: "byte c < byte d \<longleftrightarrow> c < d"
  by (simp add: byte_def less_char_def)

definition isspace :: "char \<Rightarrow> bool" where
  "isspace c \<longleftrightarrow> byte c = 32 \<or> 9 \<le> byte c \<and> byte c \<le> 13"

definition isdigit :: "char \<Rightarrow> bool" where
  "isdigit c \<longleftrightarrow> 48 \<le> byte c \<and> byte c \<le> 57"

definition tolower :: "char \<Rightarrow> char" where
  "tolower c = (if 65 \<le> byte c \<and> byte c \<le> 90 then char_of (nat (byte c + 32)) else c)"

text \<open>Only the sign of the result is specified; it compares the bytes as unsigned.\<close>

fun strcmp :: "string \<Rightarrow> string \<Rightarrow> int" where
  "strcmp [] [] = 0"
| "strcmp [] (d # ds) = - byte d"
| "strcmp (c # cs) [] = byte c"
| "strcmp (c # cs) (d # ds) = (if c = d then strcmp cs ds else byte c - byte d)"

definition strcasecmp :: "string \<Rightarrow> string \<Rightarrow> int" where
  "strcasecmp s t = strcmp (map tolower s) (map tolower t)"

definition strncasecmp :: "string \<Rightarrow> string \<Rightarrow> nat \<Rightarrow> int" where
  "strncasecmp s t n = strcasecmp (take n s) (take n t)"

text \<open>On strings of C the sign of \<^verbatim>\<open>strcmp\<close> is the lexicographic order.\<close>

lemma strcmp_sign:
  assumes "c_string s" "c_string t"
  shows "(strcmp s t < 0 \<longleftrightarrow> s < t) \<and> (strcmp s t = 0 \<longleftrightarrow> s = t) \<and> (0 < strcmp s t \<longleftrightarrow> t < s)"
  using assms
proof (induction s t rule: strcmp.induct)
  case (2 d ds)
  then show ?case using byte_pos [of d] by auto
next
  case (3 c cs)
  then show ?case using byte_pos [of c] by auto
next
  case (4 c cs d ds)
  then show ?case
    using byte_less_iff [of c d] byte_less_iff [of d c] by auto
qed simp

lemma strcmp_0 [simp]: "c_string s \<Longrightarrow> c_string t \<Longrightarrow> strcmp s t = 0 \<longleftrightarrow> s = t"
  using strcmp_sign by blast

section \<open>Buffers\<close>

text \<open>
  An array of characters with checked accesses, and the string of C that starts at an index:
  reading it runs out of the array if no nul follows.
\<close>

definition buf_read :: "char list \<Rightarrow> nat \<Rightarrow> char result" where
  "buf_read buf i = (if i < length buf then Inr (buf ! i) else Inl Out_of_bounds)"

definition buf_write :: "char list \<Rightarrow> nat \<Rightarrow> char \<Rightarrow> char list result" where
  "buf_write buf i c = (if i < length buf then Inr (buf[i := c]) else Inl Out_of_bounds)"

definition buf_string :: "char list \<Rightarrow> nat \<Rightarrow> string result" where
  "buf_string buf i =
     (if NUL \<in> set (drop i buf) then Inr (takeWhile (\<lambda>c. c \<noteq> NUL) (drop i buf))
      else Inl Out_of_bounds)"

lemma buf_read_eq_Inr [result_iff]: "buf_read buf i = Inr c \<longleftrightarrow> i < length buf \<and> c = buf ! i"
  by (auto simp: buf_read_def)

lemma buf_write_eq_Inr [result_iff]:
  "buf_write buf i c = Inr buf' \<longleftrightarrow> i < length buf \<and> buf' = buf[i := c]"
  by (auto simp: buf_write_def)

lemma buf_string_NUL:
  assumes "drop i buf = s @ NUL # rest" "c_string s"
  shows "buf_string buf i = Inr s"
  using assms by (auto simp: buf_string_def c_string_def takeWhile_append)

section \<open>Numbers\<close>

text \<open>The subtraction of two \<^verbatim>\<open>int\<close>s of C, undefined where the difference does not fit.\<close>

definition int_sub :: "int \<Rightarrow> int \<Rightarrow> int result" where
  "int_sub a b =
     (if - (2 ^ 31) \<le> a - b \<and> a - b < 2 ^ 31 then Inr (a - b) else Inl Signed_overflow)"

type_synonym ulong = "64 word"
type_synonym uint32 = "32 word"

definition ULONG_MAX :: nat where
  "ULONG_MAX = 2 ^ 64 - 1"

definition LONG_MAX :: int where
  "LONG_MAX = 2 ^ 63 - 1"

definition LONG_MIN :: int where
  "LONG_MIN = - (2 ^ 63)"

text \<open>Bases eight and ten only, so the prefixes of other bases never matter.\<close>

definition digit_of_base :: "nat \<Rightarrow> char \<Rightarrow> bool" where
  "digit_of_base base c \<longleftrightarrow> 48 \<le> byte c \<and> byte c < 48 + int base"

definition digits_value :: "nat \<Rightarrow> string \<Rightarrow> nat" where
  "digits_value base ds = foldl (\<lambda>v c. v * base + nat (byte c - 48)) 0 ds"

text \<open>
  What both conversions parse: optional spaces, an optional sign, digits. The result is the
  sign, the digits and the characters after them; without a digit nothing is converted.
\<close>

definition scan_number :: "nat \<Rightarrow> string \<Rightarrow> (bool \<times> string \<times> string) option" where
  "scan_number base s =
     (let t = dropWhile isspace s;
          (neg, u) = (case t of
              [] \<Rightarrow> (False, t)
            | c # cs \<Rightarrow> if c = CHR ''-'' then (True, cs) else if c = CHR ''+'' then (False, cs)
                else (False, t));
          ds = takeWhile (digit_of_base base) u
      in if ds = [] then None else Some (neg, ds, dropWhile (digit_of_base base) u))"

text \<open>
  \<^verbatim>\<open>strtoul(3)\<close> with the characters at \<^verbatim>\<open>*end\<close>: a negative number is negated as an unsigned
  long, a number out of range gives \<^verbatim>\<open>ULONG_MAX\<close>, and without digits the result is zero with
  \<^verbatim>\<open>*end\<close> at the start of the string.
\<close>

definition strtoul :: "string \<Rightarrow> nat \<Rightarrow> ulong \<times> string" where
  "strtoul s base =
     (case scan_number base s of
        None \<Rightarrow> (0, s)
      | Some (neg, ds, rest) \<Rightarrow>
          let v = digits_value base ds
          in (if v > ULONG_MAX then of_nat ULONG_MAX
              else if neg then - of_nat v else of_nat v, rest))"

definition strtol :: "string \<Rightarrow> nat \<Rightarrow> int \<times> string" where
  "strtol s base =
     (case scan_number base s of
        None \<Rightarrow> (0, s)
      | Some (neg, ds, rest) \<Rightarrow>
          let v = (if neg then - int (digits_value base ds) else int (digits_value base ds))
          in (max LONG_MIN (min LONG_MAX v), rest))"

text \<open>The decimal notation of a number, which both read back.\<close>

fun decimal :: "nat \<Rightarrow> string" where
  "decimal n = (if n < 10 then [char_of (48 + n)] else decimal (n div 10) @ [char_of (48 + n mod 10)])"

declare decimal.simps [simp del]

lemma byte_char_of: "n < 256 \<Longrightarrow> byte (char_of n) = int n" for n :: nat
  by (simp add: byte_def)

lemma digit_char:
  "d < 10 \<Longrightarrow> digit_of_base 10 (char_of (48 + d)) \<and> nat (byte (char_of (48 + d)) - 48) = d
     \<and> \<not> isspace (char_of (48 + d)) \<and> isdigit (char_of (48 + d))" for d :: nat
  by (simp add: digit_of_base_def isspace_def isdigit_def byte_char_of)

lemma decimal_digits:
  "list_all (digit_of_base 10) (decimal n) \<and> decimal n \<noteq> [] \<and> digits_value 10 (decimal n) = n
     \<and> isdigit (hd (decimal n))"
proof (induction n rule: decimal.induct)
  case (1 n)
  show ?case
  proof (cases "n < 10")
    case True
    then show ?thesis using digit_char [of n] by (simp add: decimal.simps [of n] digits_value_def)
  next
    case False
    then show ?thesis using 1 digit_char [of "n mod 10"]
      by (simp add: decimal.simps [of n] digits_value_def hd_append)
  qed
qed

end
