(* ===== verification/Daemon_Conf.thy ===== *)
theory Daemon_Conf
  imports C_Library
begin

unbundle bit_operations_syntax

text \<open>
  The configuration of a daemon and the parsers of its values, \<^verbatim>\<open>src/cyberd/daemon_conf.c\<close> and
  \<^verbatim>\<open>daemon_conf.h\<close>: the record, the string lists, one function per key of the sections
  "general", "environment" and "start". The value parsers return \<^verbatim>\<open>-1\<close> as \<open>None\<close>, and
  leave the configuration unchanged then; \<open>Some conf\<close> is a return of zero.
\<close>

section \<open>The configuration\<close>

record daemon_conf =
  conf_path :: "string option"
  conf_arguments :: "string list option"
  conf_environment :: "string list option"
  conf_workdir :: "string option"
  conf_in :: "string option"
  conf_out :: "string option"
  conf_err :: "string option"
  conf_sigfinish :: int
  conf_sigreload :: int
  conf_uid :: uint32
  conf_gid :: uint32
  conf_nosid :: bool
  conf_umask :: uint32
  conf_priority :: int
  start_load :: bool
  start_reload :: bool
  start_exitsuccess :: bool
  start_exitfailure :: bool
  start_killed :: bool
  start_dumped :: bool

text \<open>
  What the parsers ask of the C library and the system: whether the allocations of
  \<^verbatim>\<open>strdup(3)\<close> and \<^verbatim>\<open>realloc(3)\<close> succeed, the databases of groups and users (the value of
  \<^verbatim>\<open>errno\<close> after the call and the id of the entry, if there is one), and the range of the
  realtime signals, which the C library decides when it runs.
\<close>

record libc =
  strdup_succeeds :: "string \<Rightarrow> bool"
  realloc_succeeds :: "nat \<Rightarrow> bool"
  getgrnam :: "string \<Rightarrow> int \<times> uint32 option"
  getpwnam :: "string \<Rightarrow> int \<times> uint32 option"
  sigrtmin :: int
  sigrtmax :: int

text \<open>The default values of the build configuration \<^verbatim>\<open>bconf\<close>.\<close>

definition CONFIG_DAEMON_CONF_MAX_UID :: ulong where
  "CONFIG_DAEMON_CONF_MAX_UID = 65534"

definition CONFIG_DAEMON_CONF_MAX_GID :: ulong where
  "CONFIG_DAEMON_CONF_MAX_GID = 65534"

definition CONFIG_DAEMON_CONF_DEFAULT_UMASK :: uint32 where
  "CONFIG_DAEMON_CONF_DEFAULT_UMASK = 18"

text \<open>Signal numbers of Linux.\<close>

definition SIGHUP :: int where "SIGHUP = 1"
definition SIGKILL :: int where "SIGKILL = 9"
definition SIGTERM :: int where "SIGTERM = 15"
definition NSIG :: ulong where "NSIG = 65"

definition daemon_conf_init :: daemon_conf where
  "daemon_conf_init =
     \<lparr>conf_path = None, conf_arguments = None, conf_environment = None, conf_workdir = None,
      conf_in = None, conf_out = None, conf_err = None,
      conf_sigfinish = SIGTERM, conf_sigreload = SIGHUP,
      conf_uid = 0, conf_gid = 0, conf_nosid = False,
      conf_umask = CONFIG_DAEMON_CONF_DEFAULT_UMASK, conf_priority = 0,
      start_load = False, start_reload = False, start_exitsuccess = False,
      start_exitfailure = False, start_killed = False, start_dumped = False\<rparr>"

section \<open>String lists\<close>

text \<open>The argument is \<^verbatim>\<open>NULL\<close> or an array of strings which a \<^verbatim>\<open>NULL\<close> ends.\<close>

definition daemon_conf_list_append ::
  "libc \<Rightarrow> string list option \<Rightarrow> string \<Rightarrow> string list option option" where
  "daemon_conf_list_append lc listp s =
     (if \<not> strdup_succeeds lc s then None
      else let list = (case listp of None \<Rightarrow> [] | Some l \<Rightarrow> l); len = length list
        in if \<not> realloc_succeeds lc (len + 2) then None
           else Some (Some (list @ [s])))"

text \<open>
  Allocated blocks, to follow what is freed: a string, or an array of a list. The result of
  \<^verbatim>\<open>daemon_conf_list_free\<close> and \<^verbatim>\<open>daemon_conf_deinit\<close> is what they free, in order.
\<close>

datatype block = String_block string | Array_block "string list"

definition daemon_conf_list_free :: "string list option \<Rightarrow> block list" where
  "daemon_conf_list_free list =
     (case list of None \<Rightarrow> [] | Some l \<Rightarrow> map String_block l @ [Array_block l])"

definition free_string :: "string option \<Rightarrow> block list" where
  "free_string s = (case s of None \<Rightarrow> [] | Some s \<Rightarrow> [String_block s])"

definition daemon_conf_deinit :: "daemon_conf \<Rightarrow> block list" where
  "daemon_conf_deinit conf =
     free_string (conf_path conf) @ free_string (conf_workdir conf)
     @ daemon_conf_list_free (conf_arguments conf)
     @ daemon_conf_list_free (conf_environment conf)"

section \<open>Values of the general section\<close>

definition daemon_conf_path :: "libc \<Rightarrow> string option \<Rightarrow> string option" where
  "daemon_conf_path lc value =
     (case value of
        None \<Rightarrow> None
      | Some v \<Rightarrow>
          if v = [] \<or> hd v \<noteq> CHR ''/'' then None
          else if \<not> strdup_succeeds lc v then None
          else Some v)"

text \<open>The table \<^verbatim>\<open>signals\<close>, with the entry the source repeats.\<close>

definition signals :: "(int \<times> string) list" where
  "signals =
     [(6, ''ABRT''), (6, ''ABRT''), (14, ''ALRM''), (7, ''BUS''), (17, ''CHLD''), (18, ''CONT''),
      (8, ''FPE''), (SIGHUP, ''HUP''), (4, ''ILL''), (2, ''INT''), (SIGKILL, ''KILL''),
      (13, ''PIPE''), (3, ''QUIT''), (11, ''SEGV''), (19, ''STOP''), (SIGTERM, ''TERM''),
      (20, ''TSTP''), (21, ''TTIN''), (22, ''TTOU''), (10, ''USR1''), (12, ''USR2''),
      (29, ''POLL''), (27, ''PROF''), (31, ''SYS''), (5, ''TRAP''), (23, ''URG''),
      (26, ''VTALRM''), (24, ''XCPU''), (25, ''XFSZ'')]"

fun find_signal :: "(int \<times> string) list \<Rightarrow> string \<Rightarrow> int option" where
  "find_signal [] signame = None"
| "find_signal ((signo, name) # rest) signame =
     (if strcasecmp name signame \<noteq> 0 then find_signal rest signame else Some signo)"

definition daemon_conf_signal :: "libc \<Rightarrow> string option \<Rightarrow> int option" where
  "daemon_conf_signal lc signame =
     (case signame of
        None \<Rightarrow> None
      | Some s \<Rightarrow>
          if s \<noteq> [] \<and> isdigit (hd s) then
            (let (lsigno, end) = strtoul s 10
             in if end \<noteq> [] \<or> lsigno > NSIG then None else Some (uint lsigno))
          else
            (let s = (if strncasecmp ''SIG'' s 3 = 0 then drop 3 s else s)
             in if strncasecmp ''RT'' s 2 = 0 then
                  (let (lsigno, end) = strtoul (drop 2 s) 10
                   in if end \<noteq> [] \<or> lsigno > word_of_int (sigrtmax lc - sigrtmin lc) then None
                      else Some (uint lsigno + sigrtmin lc))
                else find_signal signals s))"

definition daemon_conf_parse_general_group ::
  "libc \<Rightarrow> daemon_conf \<Rightarrow> string \<Rightarrow> string option \<Rightarrow> daemon_conf option" where
  "daemon_conf_parse_general_group lc conf key value =
     (case value of
        None \<Rightarrow> None
      | Some v \<Rightarrow>
          (case getgrnam lc v of
             (errno, Some gid) \<Rightarrow> Some (conf\<lparr>conf_gid := gid\<rparr>)
           | (errno, None) \<Rightarrow>
               if errno = 0 then
                 (let (lgid, end) = strtoul v 10
                  in if end \<noteq> [] \<or> lgid > CONFIG_DAEMON_CONF_MAX_GID then None
                     else Some (conf\<lparr>conf_gid := ucast lgid\<rparr>))
               else Some conf))"

definition daemon_conf_parse_general_nosid ::
  "daemon_conf \<Rightarrow> string \<Rightarrow> string option \<Rightarrow> daemon_conf option" where
  "daemon_conf_parse_general_nosid conf key value =
     (if value \<noteq> None then None else Some (conf\<lparr>conf_nosid := True\<rparr>))"

definition daemon_conf_parse_general_path ::
  "libc \<Rightarrow> daemon_conf \<Rightarrow> string \<Rightarrow> string option \<Rightarrow> daemon_conf option" where
  "daemon_conf_parse_general_path lc conf key value =
     map_option (\<lambda>p. conf\<lparr>conf_path := Some p\<rparr>) (daemon_conf_path lc value)"

definition daemon_conf_parse_general_priority ::
  "daemon_conf \<Rightarrow> string \<Rightarrow> string option \<Rightarrow> daemon_conf option" where
  "daemon_conf_parse_general_priority conf key value =
     (case value of
        None \<Rightarrow> None
      | Some v \<Rightarrow>
          (let (lpriority, end) = strtol v 10
           in if end \<noteq> [] \<or> lpriority < - 20 \<or> lpriority > 19 then None
              else Some (conf\<lparr>conf_priority := lpriority\<rparr>)))"

definition daemon_conf_parse_general_sigfinish ::
  "libc \<Rightarrow> daemon_conf \<Rightarrow> string \<Rightarrow> string option \<Rightarrow> daemon_conf option" where
  "daemon_conf_parse_general_sigfinish lc conf key value =
     map_option (\<lambda>s. conf\<lparr>conf_sigfinish := s\<rparr>) (daemon_conf_signal lc value)"

definition daemon_conf_parse_general_sigreload ::
  "libc \<Rightarrow> daemon_conf \<Rightarrow> string \<Rightarrow> string option \<Rightarrow> daemon_conf option" where
  "daemon_conf_parse_general_sigreload lc conf key value =
     map_option (\<lambda>s. conf\<lparr>conf_sigreload := s\<rparr>) (daemon_conf_signal lc value)"

definition daemon_conf_parse_general_stdin ::
  "libc \<Rightarrow> daemon_conf \<Rightarrow> string \<Rightarrow> string option \<Rightarrow> daemon_conf option" where
  "daemon_conf_parse_general_stdin lc conf key value =
     map_option (\<lambda>p. conf\<lparr>conf_in := Some p\<rparr>) (daemon_conf_path lc value)"

definition daemon_conf_parse_general_stdout ::
  "libc \<Rightarrow> daemon_conf \<Rightarrow> string \<Rightarrow> string option \<Rightarrow> daemon_conf option" where
  "daemon_conf_parse_general_stdout lc conf key value =
     map_option (\<lambda>p. conf\<lparr>conf_out := Some p\<rparr>) (daemon_conf_path lc value)"

definition daemon_conf_parse_general_stderr ::
  "libc \<Rightarrow> daemon_conf \<Rightarrow> string \<Rightarrow> string option \<Rightarrow> daemon_conf option" where
  "daemon_conf_parse_general_stderr lc conf key value =
     map_option (\<lambda>p. conf\<lparr>conf_err := Some p\<rparr>) (daemon_conf_path lc value)"

definition daemon_conf_parse_general_umask ::
  "daemon_conf \<Rightarrow> string \<Rightarrow> string option \<Rightarrow> daemon_conf option" where
  "daemon_conf_parse_general_umask conf key value =
     (case value of
        None \<Rightarrow> None
      | Some v \<Rightarrow>
          (let (cmask, end) = strtoul v 8
           in if end \<noteq> [] then None
              else Some (conf\<lparr>conf_umask := ucast (cmask AND 0x1ff)\<rparr>)))"

definition daemon_conf_parse_general_user ::
  "libc \<Rightarrow> daemon_conf \<Rightarrow> string \<Rightarrow> string option \<Rightarrow> daemon_conf option" where
  "daemon_conf_parse_general_user lc conf key value =
     (case value of
        None \<Rightarrow> None
      | Some v \<Rightarrow>
          (case getpwnam lc v of
             (errno, Some uid) \<Rightarrow> Some (conf\<lparr>conf_uid := uid\<rparr>)
           | (errno, None) \<Rightarrow>
               if errno = 0 then
                 (let (luid, end) = strtoul v 10
                  in if end \<noteq> [] \<or> luid > CONFIG_DAEMON_CONF_MAX_UID then None
                     else Some (conf\<lparr>conf_uid := ucast luid\<rparr>))
               else Some conf))"

definition daemon_conf_parse_general_workdir ::
  "libc \<Rightarrow> daemon_conf \<Rightarrow> string \<Rightarrow> string option \<Rightarrow> daemon_conf option" where
  "daemon_conf_parse_general_workdir lc conf key value =
     map_option (\<lambda>p. conf\<lparr>conf_workdir := Some p\<rparr>) (daemon_conf_path lc value)"

section \<open>Values of the environment and start sections\<close>

definition daemon_conf_parse_environment ::
  "libc \<Rightarrow> daemon_conf \<Rightarrow> string \<Rightarrow> string option \<Rightarrow> daemon_conf option" where
  "daemon_conf_parse_environment lc conf key value =
     (let v = (case value of Some v \<Rightarrow> v | None \<Rightarrow> key); pair = key @ ''='' @ v
      in map_option (\<lambda>l. conf\<lparr>conf_environment := l\<rparr>)
           (daemon_conf_list_append lc (conf_environment conf) pair))"

definition daemon_conf_parse_start_any_exit ::
  "daemon_conf \<Rightarrow> string \<Rightarrow> string option \<Rightarrow> daemon_conf option" where
  "daemon_conf_parse_start_any_exit conf key value =
     (if value \<noteq> None then None
      else Some (conf\<lparr>start_exitsuccess := True, start_exitfailure := True,
        start_killed := True, start_dumped := True\<rparr>))"

definition daemon_conf_parse_start_dumped ::
  "daemon_conf \<Rightarrow> string \<Rightarrow> string option \<Rightarrow> daemon_conf option" where
  "daemon_conf_parse_start_dumped conf key value =
     (if value \<noteq> None then None else Some (conf\<lparr>start_dumped := True\<rparr>))"

definition daemon_conf_parse_start_exit ::
  "daemon_conf \<Rightarrow> string \<Rightarrow> string option \<Rightarrow> daemon_conf option" where
  "daemon_conf_parse_start_exit conf key value =
     (if value \<noteq> None then None
      else Some (conf\<lparr>start_exitsuccess := True, start_exitfailure := True\<rparr>))"

definition daemon_conf_parse_start_exit_failure ::
  "daemon_conf \<Rightarrow> string \<Rightarrow> string option \<Rightarrow> daemon_conf option" where
  "daemon_conf_parse_start_exit_failure conf key value =
     (if value \<noteq> None then None else Some (conf\<lparr>start_exitfailure := True\<rparr>))"

definition daemon_conf_parse_start_exit_success ::
  "daemon_conf \<Rightarrow> string \<Rightarrow> string option \<Rightarrow> daemon_conf option" where
  "daemon_conf_parse_start_exit_success conf key value =
     (if value \<noteq> None then None else Some (conf\<lparr>start_exitsuccess := True\<rparr>))"

definition daemon_conf_parse_start_killed ::
  "daemon_conf \<Rightarrow> string \<Rightarrow> string option \<Rightarrow> daemon_conf option" where
  "daemon_conf_parse_start_killed conf key value =
     (if value \<noteq> None then None else Some (conf\<lparr>start_killed := True\<rparr>))"

definition daemon_conf_parse_start_load ::
  "daemon_conf \<Rightarrow> string \<Rightarrow> string option \<Rightarrow> daemon_conf option" where
  "daemon_conf_parse_start_load conf key value =
     (if value \<noteq> None then None else Some (conf\<lparr>start_load := True\<rparr>))"

definition daemon_conf_parse_start_reload ::
  "daemon_conf \<Rightarrow> string \<Rightarrow> string option \<Rightarrow> daemon_conf option" where
  "daemon_conf_parse_start_reload conf key value =
     (if value \<noteq> None then None else Some (conf\<lparr>start_reload := True\<rparr>))"

end
