(* ===== verification/Arguments.thy ===== *)
theory Arguments
  imports Daemon_Conf
begin

text \<open>
  The value of the key "arguments": \<^verbatim>\<open>daemon_conf_parse_general_arguments\<close> of
  \<^verbatim>\<open>src/cyberd/daemon_conf.c\<close> expands quotes and escapes in place, in a local copy of the value
  that it reads and writes through three pointers. The theory models the copy as a buffer with
  checked accesses and proves the function equal to a splitter of strings.
\<close>

section \<open>The expansion in place\<close>

datatype expand_state =
    EXPAND_SPACES
  | EXPAND_LITERAL
  | EXPAND_QUOTE_SINGLE
  | EXPAND_QUOTE_DOUBLE
  | EXPAND_QUOTE_DOUBLE_ESCAPE
  | EXPAND_END
  | EXPAND_ERROR_UNCLOSED_QUOTE

text \<open>The local variables; the pointers into the copy are indexes.\<close>

record expander =
  ex_state :: expand_state
  ex_buf :: "char list"
  ex_it :: nat
  ex_dst :: nat
  ex_src :: nat
  ex_arg :: nat
  ex_arguments :: "string list option"

text \<open>The statement \<^verbatim>\<open>*dst++ = *src++\<close>.\<close>

definition copy_char :: "expander \<Rightarrow> expander result" where
  "copy_char e =
     rbind (buf_read (ex_buf e) (ex_src e)) (\<lambda>c.
     rbind (buf_write (ex_buf e) (ex_dst e) c) (\<lambda>buf.
     Inr (e\<lparr>ex_buf := buf, ex_dst := ex_dst e + 1, ex_src := ex_src e + 1\<rparr>)))"

text \<open>The end of an argument: the next state, the terminating nul, the append to the list.\<close>

definition end_argument :: "libc \<Rightarrow> expand_state \<Rightarrow> expander \<Rightarrow> expander option result" where
  "end_argument lc st e =
     rbind (buf_write (ex_buf e) (ex_dst e) NUL) (\<lambda>buf.
     rbind (buf_string buf (ex_arg e)) (\<lambda>arg.
     Inr (map_option (\<lambda>l. e\<lparr>ex_state := st, ex_buf := buf, ex_arguments := l\<rparr>)
       (daemon_conf_list_append lc (ex_arguments e) arg))))"

text \<open>The body of the loop but for \<^verbatim>\<open>it++\<close>; \<open>Inr None\<close> is the jump to \<^verbatim>\<open>failure\<close>.\<close>

definition expand_step :: "libc \<Rightarrow> expander \<Rightarrow> expander option result" where
  "expand_step lc e =
     (let it = ex_it e in
      rbind (buf_read (ex_buf e) it) (\<lambda>c.
      case ex_state e of
        EXPAND_SPACES \<Rightarrow>
          Inr (Some
            (if c = NUL then e\<lparr>ex_state := EXPAND_END\<rparr>
             else if c = CHR '' '' then e
             else if c = CHR 0x22 then
               e\<lparr>ex_state := EXPAND_QUOTE_DOUBLE, ex_dst := it, ex_src := it + 1, ex_arg := it\<rparr>
             else if c = CHR 0x27 then
               e\<lparr>ex_state := EXPAND_QUOTE_SINGLE, ex_dst := it, ex_src := it + 1, ex_arg := it\<rparr>
             else
               e\<lparr>ex_state := EXPAND_LITERAL, ex_dst := it + 1, ex_src := it + 1, ex_arg := it\<rparr>))
      | EXPAND_LITERAL \<Rightarrow>
          (if c = NUL then end_argument lc EXPAND_END e
           else if c = CHR 0x22 then
             Inr (Some (e\<lparr>ex_state := EXPAND_QUOTE_DOUBLE, ex_src := ex_src e + 1\<rparr>))
           else if c = CHR 0x27 then
             Inr (Some (e\<lparr>ex_state := EXPAND_QUOTE_SINGLE, ex_src := ex_src e + 1\<rparr>))
           else if c = CHR '' '' then end_argument lc EXPAND_SPACES e
           else rbind (copy_char e) (\<lambda>e. Inr (Some e)))
      | EXPAND_QUOTE_SINGLE \<Rightarrow>
          (if c = NUL then Inr (Some (e\<lparr>ex_state := EXPAND_ERROR_UNCLOSED_QUOTE\<rparr>))
           else if c = CHR 0x27 then
             Inr (Some (e\<lparr>ex_state := EXPAND_LITERAL, ex_src := ex_src e + 1\<rparr>))
           else rbind (copy_char e) (\<lambda>e. Inr (Some e)))
      | EXPAND_QUOTE_DOUBLE \<Rightarrow>
          (if c = NUL then Inr (Some (e\<lparr>ex_state := EXPAND_ERROR_UNCLOSED_QUOTE\<rparr>))
           else if c = CHR 0x22 then
             Inr (Some (e\<lparr>ex_state := EXPAND_LITERAL, ex_src := ex_src e + 1\<rparr>))
           else if c = CHR 0x5C then
             Inr (Some (e\<lparr>ex_state := EXPAND_QUOTE_DOUBLE_ESCAPE, ex_src := ex_src e + 1\<rparr>))
           else rbind (copy_char e) (\<lambda>e. Inr (Some e)))
      | EXPAND_QUOTE_DOUBLE_ESCAPE \<Rightarrow>
          (if c = NUL then Inr (Some (e\<lparr>ex_state := EXPAND_ERROR_UNCLOSED_QUOTE\<rparr>))
           else rbind (copy_char (e\<lparr>ex_state := EXPAND_QUOTE_DOUBLE\<rparr>)) (\<lambda>e. Inr (Some e)))
      | _ \<Rightarrow> Inl Abort))"

definition expand_running :: "expander \<Rightarrow> bool" where
  "expand_running e \<longleftrightarrow> ex_state e \<noteq> EXPAND_END \<and> ex_state e \<noteq> EXPAND_ERROR_UNCLOSED_QUOTE"

lemma end_argument_frame:
  "end_argument lc st e = Inr (Some e') \<Longrightarrow>
     length (ex_buf e') = length (ex_buf e) \<and> ex_it e' = ex_it e"
  by (auto simp: end_argument_def result_iff)

lemma copy_char_frame:
  "copy_char e = Inr e' \<Longrightarrow> length (ex_buf e') = length (ex_buf e) \<and> ex_it e' = ex_it e"
  by (auto simp: copy_char_def result_iff)

lemma expand_step_frame:
  assumes "expand_step lc e = Inr (Some e')"
  shows "length (ex_buf e') = length (ex_buf e) \<and> ex_it e' = ex_it e
    \<and> ex_it e < length (ex_buf e)"
  using assms
  by (cases "ex_state e")
    (auto simp: expand_step_def Let_def result_iff dest: end_argument_frame copy_char_frame
      split: if_splits)

text \<open>The loop \<^verbatim>\<open>while (state < EXPAND_END)\<close>: it ends because \<^verbatim>\<open>it\<close> moves towards the nul.\<close>

function expand_loop :: "libc \<Rightarrow> expander \<Rightarrow> expander option result" where
  "expand_loop lc e =
     (if expand_running e then
        rbind (expand_step lc e) (\<lambda>r.
          case r of None \<Rightarrow> Inr None | Some e' \<Rightarrow> expand_loop lc (e'\<lparr>ex_it := ex_it e' + 1\<rparr>))
      else Inr (Some e))"
  by pat_completeness auto
termination
  by (relation "measure (\<lambda>(lc, e). length (ex_buf e) - ex_it e)")
    (auto dest: expand_step_frame)

declare expand_loop.simps [simp del]

definition expand_init :: "string \<Rightarrow> expander" where
  "expand_init value =
     \<lparr>ex_state = EXPAND_SPACES, ex_buf = value @ [NUL], ex_it = 0, ex_dst = 0, ex_src = 0,
      ex_arg = 0, ex_arguments = None\<rparr>"

definition daemon_conf_parse_general_arguments ::
  "libc \<Rightarrow> daemon_conf \<Rightarrow> string \<Rightarrow> string option \<Rightarrow> daemon_conf option result" where
  "daemon_conf_parse_general_arguments lc conf key value =
     (case value of
        None \<Rightarrow> Inr None
      | Some v \<Rightarrow>
          rbind (expand_loop lc (expand_init v)) (\<lambda>r.
          Inr (case r of
                 None \<Rightarrow> None
               | Some e \<Rightarrow>
                   if ex_state e = EXPAND_ERROR_UNCLOSED_QUOTE then None
                   else if ex_arguments e = None then None
                   else Some (conf\<lparr>conf_arguments := ex_arguments e\<rparr>))))"

section \<open>The reference: splitting a string into words\<close>

text \<open>
  Words are separated by spaces. Quoted pieces and plain characters concatenate into one word;
  inside double quotes a backslash takes the next character as it is. An open quote at the end
  makes the whole value invalid.
\<close>

datatype mode = Between | Plain | Single | Double | Escape

fun split_words :: "mode \<Rightarrow> string \<Rightarrow> string \<Rightarrow> string list option" where
  "split_words Between w [] = Some []"
| "split_words Between w (c # cs) =
     (if c = CHR '' '' then split_words Between [] cs
      else if c = CHR 0x22 then split_words Double [] cs
      else if c = CHR 0x27 then split_words Single [] cs
      else split_words Plain [c] cs)"
| "split_words Plain w [] = Some [w]"
| "split_words Plain w (c # cs) =
     (if c = CHR 0x22 then split_words Double w cs
      else if c = CHR 0x27 then split_words Single w cs
      else if c = CHR '' '' then map_option (Cons w) (split_words Between [] cs)
      else split_words Plain (w @ [c]) cs)"
| "split_words Single w [] = None"
| "split_words Single w (c # cs) =
     (if c = CHR 0x27 then split_words Plain w cs else split_words Single (w @ [c]) cs)"
| "split_words Double w [] = None"
| "split_words Double w (c # cs) =
     (if c = CHR 0x22 then split_words Plain w cs
      else if c = CHR 0x5C then split_words Escape w cs
      else split_words Double (w @ [c]) cs)"
| "split_words Escape w [] = None"
| "split_words Escape w (c # cs) = split_words Double (w @ [c]) cs"

text \<open>Appending words one by one, as far as the allocations succeed.\<close>

fun append_words :: "libc \<Rightarrow> string list option \<Rightarrow> string list \<Rightarrow> string list option option" where
  "append_words lc l [] = Some l"
| "append_words lc l (w # ws) =
     (case daemon_conf_list_append lc l w of None \<Rightarrow> None | Some l' \<Rightarrow> append_words lc l' ws)"

lemma append_words_all:
  assumes "\<And>s. strdup_succeeds lc s" "\<And>n. realloc_succeeds lc n"
  shows "append_words lc l ws
    = Some (if ws = [] then l else Some ((case l of None \<Rightarrow> [] | Some l \<Rightarrow> l) @ ws))"
  using assms
  by (induction ws arbitrary: l) (auto simp: daemon_conf_list_append_def split: option.splits)

section \<open>The expansion computes the reference\<close>

fun mode_state :: "mode \<Rightarrow> expand_state" where
  "mode_state Between = EXPAND_SPACES"
| "mode_state Plain = EXPAND_LITERAL"
| "mode_state Single = EXPAND_QUOTE_SINGLE"
| "mode_state Double = EXPAND_QUOTE_DOUBLE"
| "mode_state Escape = EXPAND_QUOTE_DOUBLE_ESCAPE"

text \<open>
  The loop invariant: the part of the copy from \<^verbatim>\<open>it\<close> on is still unread input, \<^verbatim>\<open>src\<close> is
  \<^verbatim>\<open>it\<close>, and the word read so far lies between \<^verbatim>\<open>arg\<close> and \<^verbatim>\<open>dst\<close>, which never overtakes
  \<^verbatim>\<open>it\<close>.
\<close>

definition expands :: "expander \<Rightarrow> mode \<Rightarrow> string \<Rightarrow> string \<Rightarrow> bool" where
  "expands e m w rest \<longleftrightarrow> ex_state e = mode_state m \<and> c_string w \<and> c_string rest \<and>
     (\<exists>pre mid. ex_buf e = pre @ w @ mid @ rest @ [NUL]
        \<and> ex_it e = length pre + length w + length mid
        \<and> (if m = Between then w = []
           else ex_src e = ex_it e \<and> ex_arg e = length pre \<and> ex_dst e = length pre + length w))"

lemma expands_running: "expands e m w rest \<Longrightarrow> expand_running e"
  by (cases m) (auto simp: expands_def expand_running_def)

lemma expands_read:
  "expands e m w rest \<Longrightarrow>
     buf_read (ex_buf e) (ex_it e) = Inr (case rest of [] \<Rightarrow> NUL | c # cs \<Rightarrow> c)"
  by (auto simp: expands_def buf_read_def nth_append split: list.splits)

text \<open>Moving on by one character that is not stored.\<close>

lemma expands_skip:
  assumes "expands e m w (c # cs)" "m \<noteq> Between" "m' \<noteq> Between"
  shows "expands (e\<lparr>ex_state := mode_state m', ex_src := ex_src e + 1, ex_it := ex_it e + 1\<rparr>) m' w cs"
proof -
  from assms obtain pre mid where
    "ex_buf e = pre @ w @ (mid @ [c]) @ cs @ [NUL]"
    "ex_it e + 1 = length pre + length w + length (mid @ [c])"
    "ex_src e = ex_it e" "ex_arg e = length pre" "ex_dst e = length pre + length w"
    by (auto simp: expands_def)
  then show ?thesis using assms unfolding expands_def
    by (intro conjI exI [of _ pre] exI [of _ "mid @ [c]"]) auto
qed

text \<open>Moving on by one character that is copied behind the word.\<close>

lemma expands_copy:
  assumes "expands e m w (c # cs)" "m \<noteq> Between" "m' \<noteq> Between"
  shows "\<exists>e'. copy_char (e\<lparr>ex_state := mode_state m'\<rparr>) = Inr e' \<and> ex_arguments e' = ex_arguments e
    \<and> expands (e'\<lparr>ex_it := ex_it e' + 1\<rparr>) m' (w @ [c]) cs"
proof -
  from assms obtain pre mid where
    e: "ex_buf e = pre @ w @ mid @ c # cs @ [NUL]" "ex_it e = length pre + length w + length mid"
      "ex_src e = ex_it e" "ex_arg e = length pre" "ex_dst e = length pre + length w"
    by (auto simp: expands_def)
  have upd: "(ex_buf e)[ex_dst e := c] = pre @ (w @ [c]) @ tl (mid @ [c]) @ cs @ [NUL]"
    using e by (cases mid) (auto simp: list_update_append)
  define e' where "e' = e\<lparr>ex_state := mode_state m',
      ex_buf := pre @ (w @ [c]) @ tl (mid @ [c]) @ cs @ [NUL],
      ex_dst := ex_dst e + 1, ex_src := ex_src e + 1\<rparr>"
  have "copy_char (e\<lparr>ex_state := mode_state m'\<rparr>) = Inr e'"
    using e upd by (simp add: copy_char_def buf_read_def buf_write_def nth_append e'_def)
  moreover have "expands (e'\<lparr>ex_it := ex_it e' + 1\<rparr>) m' (w @ [c]) cs"
    using assms e unfolding expands_def e'_def
    by (intro conjI exI [of _ pre] exI [of _ "tl (mid @ [c])"]) auto
  ultimately show ?thesis by (auto simp: e'_def)
qed

text \<open>Ending a word: the nul goes behind it, at or before the character being read.\<close>

lemma expands_end:
  assumes "expands e Plain w rest"
  shows "\<exists>buf. end_argument lc st e = Inr (map_option
      (\<lambda>l. e\<lparr>ex_state := st, ex_buf := buf, ex_arguments := l\<rparr>)
      (daemon_conf_list_append lc (ex_arguments e) w))
    \<and> (\<forall>c cs l. rest = c # cs \<longrightarrow> st = EXPAND_SPACES \<longrightarrow>
      expands (e\<lparr>ex_state := st, ex_buf := buf, ex_arguments := l, ex_it := ex_it e + 1\<rparr>)
        Between [] cs)"
proof -
  from assms obtain pre mid where
    e: "ex_buf e = pre @ w @ mid @ rest @ [NUL]" "ex_it e = length pre + length w + length mid"
      "ex_arg e = length pre" "ex_dst e = length pre + length w" "c_string w" "c_string rest"
    by (auto simp: expands_def)
  define buf where "buf = pre @ w @ NUL # tl (mid @ rest @ [NUL])"
  have len: "ex_dst e < length (ex_buf e)" using e by simp
  have upd: "(ex_buf e)[ex_dst e := NUL] = buf"
    using e by (cases "mid @ rest @ [NUL]") (auto simp: list_update_append buf_def)
  have "buf_string buf (ex_arg e) = Inr w"
    using e by (intro buf_string_NUL [where rest = "tl (mid @ rest @ [NUL])"]) (auto simp: buf_def)
  then have "end_argument lc st e = Inr (map_option
      (\<lambda>l. e\<lparr>ex_state := st, ex_buf := buf, ex_arguments := l\<rparr>)
      (daemon_conf_list_append lc (ex_arguments e) w))"
    using len upd by (simp add: end_argument_def buf_write_def)
  moreover have "\<forall>c cs l. rest = c # cs \<longrightarrow> st = EXPAND_SPACES \<longrightarrow>
      expands (e\<lparr>ex_state := st, ex_buf := buf, ex_arguments := l, ex_it := ex_it e + 1\<rparr>)
        Between [] cs"
  proof (intro allI impI)
    fix c cs l assume rest: "rest = c # cs" and st: "st = EXPAND_SPACES"
    have "buf = (pre @ w @ NUL # tl (mid @ [c])) @ cs @ [NUL]"
      using rest by (cases mid) (auto simp: buf_def)
    then show "expands (e\<lparr>ex_state := st, ex_buf := buf, ex_arguments := l, ex_it := ex_it e + 1\<rparr>)
        Between [] cs"
      using e rest st unfolding expands_def
      by (intro conjI exI [of _ "pre @ w @ NUL # tl (mid @ [c])"] exI [of _ "[]"]) auto
  qed
  ultimately show ?thesis by blast
qed

definition expand_outcome :: "expander option \<Rightarrow> string list option" where
  "expand_outcome r =
     (case r of
        None \<Rightarrow> None
      | Some e \<Rightarrow> if ex_state e = EXPAND_ERROR_UNCLOSED_QUOTE then None else ex_arguments e)"

definition words_outcome ::
    "libc \<Rightarrow> string list option \<Rightarrow> string list option \<Rightarrow> string list option" where
  "words_outcome lc l ws =
     (case ws of None \<Rightarrow> None
      | Some ws \<Rightarrow> (case append_words lc l ws of None \<Rightarrow> None | Some l' \<Rightarrow> l'))"

abbreviation runs_to :: "libc \<Rightarrow> expander \<Rightarrow> string list option \<Rightarrow> bool" where
  "runs_to lc e out \<equiv> \<exists>r. expand_loop lc e = Inr r \<and> expand_outcome r = out"

lemma expand_loop_step:
  assumes "expand_running e" "expand_step lc e = Inr (Some e')"
    "runs_to lc (e'\<lparr>ex_it := ex_it e' + 1\<rparr>) out"
  shows "runs_to lc e out"
  using assms by (simp add: expand_loop.simps [of lc e])

lemma expand_loop_stop: "\<not> expand_running e \<Longrightarrow> expand_loop lc e = Inr (Some e)"
  by (simp add: expand_loop.simps [of lc e])

lemma expand_loop_last:
  assumes "expand_running e" "expand_step lc e = Inr (Some e')"
    "\<not> expand_running e'" "expand_outcome (Some e') = out"
  shows "runs_to lc e out"
  by (rule expand_loop_step [OF assms(1,2)])
    (use assms(3,4) in \<open>auto simp: expand_running_def expand_outcome_def expand_loop_stop\<close>)

text \<open>One character of the input, in each state: what the machine does with it.\<close>

lemma run_skip:
  assumes "expands e m w (c # cs)" "m \<noteq> Between" "m' \<noteq> Between"
    "expand_step lc e = Inr (Some (e\<lparr>ex_state := mode_state m', ex_src := ex_src e + 1\<rparr>))"
    "\<And>e'. expands e' m' w cs \<Longrightarrow> runs_to lc e' (words_outcome lc (ex_arguments e') ws)"
  shows "runs_to lc e (words_outcome lc (ex_arguments e) ws)"
  by (rule expand_loop_step [OF expands_running [OF assms(1)] assms(4)])
    (use assms(5) [OF expands_skip [OF assms(1-3)]] in simp)

lemma run_copy:
  assumes "expands e m w (c # cs)" "m \<noteq> Between" "m' \<noteq> Between"
    "expand_step lc e = rbind (copy_char (e\<lparr>ex_state := mode_state m'\<rparr>)) (\<lambda>e. Inr (Some e))"
    "\<And>e'. expands e' m' (w @ [c]) cs \<Longrightarrow> runs_to lc e' (words_outcome lc (ex_arguments e') ws)"
  shows "runs_to lc e (words_outcome lc (ex_arguments e) ws)"
proof -
  from expands_copy [OF assms(1-3)] obtain e' where
    e': "copy_char (e\<lparr>ex_state := mode_state m'\<rparr>) = Inr e'" "ex_arguments e' = ex_arguments e"
      "expands (e'\<lparr>ex_it := ex_it e' + 1\<rparr>) m' (w @ [c]) cs" by blast
  have "runs_to lc (e'\<lparr>ex_it := ex_it e' + 1\<rparr>) (words_outcome lc (ex_arguments e) ws)"
    using assms(5) [OF e'(3)] e'(2) by simp
  then show ?thesis
    by (rule expand_loop_step [OF expands_running [OF assms(1)], rotated]) (simp add: assms(4) e'(1))
qed

lemma run_start:
  assumes "expands e Between w (c # cs)" "m \<noteq> Between"
    "expand_step lc e = Inr (Some (e\<lparr>ex_state := mode_state m, ex_dst := ex_it e + length v,
       ex_src := ex_it e + 1, ex_arg := ex_it e\<rparr>))"
    "v = [] \<or> v = [c]"
    "\<And>e'. expands e' m v cs \<Longrightarrow> runs_to lc e' (words_outcome lc (ex_arguments e') ws)"
  shows "runs_to lc e (words_outcome lc (ex_arguments e) ws)"
proof -
  define e' where "e' = e\<lparr>ex_state := mode_state m, ex_dst := ex_it e + length v,
       ex_src := ex_it e + 1, ex_arg := ex_it e, ex_it := ex_it e + 1\<rparr>"
  from assms(1) obtain pre mid where
    "ex_buf e = (pre @ mid) @ c # cs @ [NUL]" "ex_it e = length (pre @ mid)"
    by (auto simp: expands_def)
  then have "expands e' m v cs"
    using assms(1,2,4) unfolding expands_def e'_def
    by (intro conjI exI [of _ "pre @ mid"] exI [of _ "if v = [] then [c] else []"]) auto
  from assms(5) [OF this] have "runs_to lc e' (words_outcome lc (ex_arguments e) ws)"
    by (simp add: e'_def)
  then show ?thesis
    by (intro expand_loop_step [OF expands_running [OF assms(1)] assms(3)])
      (simp add: e'_def)
qed

lemma run_space:
  assumes "expands e Between w (c # cs)" "expand_step lc e = Inr (Some e)"
    "\<And>e'. expands e' Between [] cs \<Longrightarrow> runs_to lc e' (words_outcome lc (ex_arguments e') ws)"
  shows "runs_to lc e (words_outcome lc (ex_arguments e) ws)"
proof -
  from assms(1) obtain pre mid where
    "ex_buf e = (pre @ mid @ [c]) @ cs @ [NUL]" "ex_it e + 1 = length (pre @ mid @ [c])"
    by (auto simp: expands_def)
  then have "expands (e\<lparr>ex_it := ex_it e + 1\<rparr>) Between [] cs"
    using assms(1) unfolding expands_def
    by (intro conjI exI [of _ "pre @ mid @ [c]"] exI [of _ "[]"]) auto
  from assms(3) [OF this] show ?thesis
    by (intro expand_loop_step [OF expands_running [OF assms(1)] assms(2)]) simp
qed

lemma run_word:
  assumes "expands e Plain w (c # cs)" "expand_step lc e = end_argument lc EXPAND_SPACES e"
    "\<And>e'. expands e' Between [] cs \<Longrightarrow>
       runs_to lc e' (words_outcome lc (ex_arguments e') ws)"
  shows "runs_to lc e (words_outcome lc (ex_arguments e) (map_option (Cons w) ws))"
proof (cases "daemon_conf_list_append lc (ex_arguments e) w")
  case None
  then have "expand_step lc e = Inr None"
    using expands_end [OF assms(1), of lc EXPAND_SPACES] assms(2) by auto
  then have "expand_loop lc e = Inr None"
    by (simp add: expand_loop.simps [of lc e] expands_running [OF assms(1)])
  then show ?thesis using None
    by (auto simp: expand_outcome_def words_outcome_def split: option.splits)
next
  case (Some l)
  with expands_end [OF assms(1), of lc EXPAND_SPACES] obtain buf where
    b: "expand_step lc e
        = Inr (Some (e\<lparr>ex_state := EXPAND_SPACES, ex_buf := buf, ex_arguments := l\<rparr>))"
      "expands (e\<lparr>ex_state := EXPAND_SPACES, ex_buf := buf, ex_arguments := l,
        ex_it := ex_it e + 1\<rparr>) Between [] cs"
    using assms(2) by auto
  from assms(3) [OF b(2)] have
    "runs_to lc (e\<lparr>ex_state := EXPAND_SPACES, ex_buf := buf, ex_arguments := l,
        ex_it := ex_it e + 1\<rparr>) (words_outcome lc (ex_arguments e) (map_option (Cons w) ws))"
    using Some by (cases ws) (auto simp: words_outcome_def)
  then show ?thesis
    by (intro expand_loop_step [OF expands_running [OF assms(1)] b(1)]) simp
qed

lemma run_last_word:
  assumes "expands e Plain w []" "expand_step lc e = end_argument lc EXPAND_END e"
  shows "runs_to lc e (words_outcome lc (ex_arguments e) (Some [w]))"
proof (cases "daemon_conf_list_append lc (ex_arguments e) w")
  case None
  then have "expand_step lc e = Inr None"
    using expands_end [OF assms(1), of lc EXPAND_END] assms(2) by auto
  then have "expand_loop lc e = Inr None"
    by (simp add: expand_loop.simps [of lc e] expands_running [OF assms(1)])
  then show ?thesis using None by (auto simp: expand_outcome_def words_outcome_def)
next
  case (Some l)
  with expands_end [OF assms(1), of lc EXPAND_END] obtain buf where
    "expand_step lc e
        = Inr (Some (e\<lparr>ex_state := EXPAND_END, ex_buf := buf, ex_arguments := l\<rparr>))"
    using assms(2) by auto
  then show ?thesis
    by (rule expand_loop_last [OF expands_running [OF assms(1)]])
      (use Some in \<open>auto simp: expand_running_def expand_outcome_def words_outcome_def\<close>)
qed

lemma run_unclosed:
  assumes "expands e m w []"
    "expand_step lc e = Inr (Some (e\<lparr>ex_state := EXPAND_ERROR_UNCLOSED_QUOTE\<rparr>))"
  shows "runs_to lc e None"
  by (rule expand_loop_last [OF expands_running [OF assms(1)] assms(2)])
    (simp_all add: expand_running_def expand_outcome_def)

lemma expands_state: "expands e m w rest \<Longrightarrow> ex_state e = mode_state m"
  by (simp add: expands_def)

lemma same_state: "ex_state e = st \<Longrightarrow> e\<lparr>ex_state := st\<rparr> = e"
  by auto

lemma expands_not_NUL: "expands e m w (c # cs) \<Longrightarrow> c \<noteq> NUL"
  by (auto simp: expands_def)

lemma special_not_NUL:
  "NUL \<noteq> CHR '' ''" "NUL \<noteq> CHR 0x22" "NUL \<noteq> CHR 0x27" "NUL \<noteq> CHR 0x5C"
  by (simp_all add: NUL_def)

text \<open>One step of the machine at the end of the input, and at a character.\<close>

lemma expand_step_nil:
  assumes "expands e m w []"
  shows "expand_step lc e =
    (case m of
       Between \<Rightarrow> Inr (Some (e\<lparr>ex_state := EXPAND_END\<rparr>))
     | Plain \<Rightarrow> end_argument lc EXPAND_END e
     | _ \<Rightarrow> Inr (Some (e\<lparr>ex_state := EXPAND_ERROR_UNCLOSED_QUOTE\<rparr>)))"
  using expands_state [OF assms] expands_read [OF assms]
  by (cases m) (simp_all add: expand_step_def)

lemma expand_step_cons:
  assumes "expands e m w (c # cs)"
  shows "expand_step lc e =
    (case m of
       Between \<Rightarrow> Inr (Some
         (if c = CHR '' '' then e
          else e\<lparr>ex_state := mode_state (if c = CHR 0x22 then Double else if c = CHR 0x27 then Single
                   else Plain),
                 ex_dst := ex_it e + length (if c = CHR 0x22 \<or> c = CHR 0x27 then [] else [c]),
                 ex_src := ex_it e + 1, ex_arg := ex_it e\<rparr>))
     | Plain \<Rightarrow>
         (if c = CHR '' '' then end_argument lc EXPAND_SPACES e
          else if c = CHR 0x22 \<or> c = CHR 0x27 then
            Inr (Some (e\<lparr>ex_state := mode_state (if c = CHR 0x22 then Double else Single),
              ex_src := ex_src e + 1\<rparr>))
          else rbind (copy_char (e\<lparr>ex_state := mode_state Plain\<rparr>)) (\<lambda>e. Inr (Some e)))
     | Single \<Rightarrow>
         (if c = CHR 0x27 then
            Inr (Some (e\<lparr>ex_state := mode_state Plain, ex_src := ex_src e + 1\<rparr>))
          else rbind (copy_char (e\<lparr>ex_state := mode_state Single\<rparr>)) (\<lambda>e. Inr (Some e)))
     | Double \<Rightarrow>
         (if c = CHR 0x22 \<or> c = CHR 0x5C then
            Inr (Some (e\<lparr>ex_state := mode_state (if c = CHR 0x22 then Plain else Escape),
              ex_src := ex_src e + 1\<rparr>))
          else rbind (copy_char (e\<lparr>ex_state := mode_state Double\<rparr>)) (\<lambda>e. Inr (Some e)))
     | Escape \<Rightarrow>
         rbind (copy_char (e\<lparr>ex_state := mode_state Double\<rparr>)) (\<lambda>e. Inr (Some e)))"
  using expands_state [OF assms] expands_read [OF assms] expands_not_NUL [OF assms]
  by (cases m) (simp_all add: expand_step_def Let_def same_state)

lemma expand_loop_split:
  "expands e m w rest \<Longrightarrow>
     runs_to lc e (words_outcome lc (ex_arguments e) (split_words m w rest))"
proof (induction m w rest arbitrary: e rule: split_words.induct)
  case (1 w)
  then have step: "expand_step lc e = Inr (Some (e\<lparr>ex_state := EXPAND_END\<rparr>))"
    by (simp add: expand_step_nil)
  show ?case
    by (rule expand_loop_last [OF expands_running [OF 1] step])
      (simp_all add: expand_running_def expand_outcome_def words_outcome_def)
next
  case (2 w c cs)
  note step = expand_step_cons [OF 2(5), of lc]
  consider "c = CHR '' ''" | "c = CHR 0x22" | "c = CHR 0x27"
    | "c \<noteq> CHR '' ''" "c \<noteq> CHR 0x22" "c \<noteq> CHR 0x27" by blast
  then show ?case
    by cases
      (use step 2(1) run_space [OF 2(5), of lc] in simp,
       use step 2(2) run_start [OF 2(5), of Double lc "[]"] in simp,
       use step 2(3) run_start [OF 2(5), of Single lc "[]"] in simp,
       use step 2(4) run_start [OF 2(5), of Plain lc "[c]"] in simp)
next
  case (3 w)
  then show ?case using run_last_word [OF 3] by (simp add: expand_step_nil)
next
  case (4 w c cs)
  note step = expand_step_cons [OF 4(5), of lc]
  consider "c = CHR 0x22" | "c = CHR 0x27" | "c = CHR '' ''"
    | "c \<noteq> CHR '' ''" "c \<noteq> CHR 0x22" "c \<noteq> CHR 0x27" by blast
  then show ?case
    by cases
      (use step 4(1) run_skip [OF 4(5), of Double lc] in simp,
       use step 4(2) run_skip [OF 4(5), of Single lc] in simp,
       use step 4(3) run_word [OF 4(5), of lc] in simp,
       use step 4(4) run_copy [OF 4(5), of Plain lc] in simp)
next
  case (5 w)
  then show ?case using run_unclosed [OF 5]
    by (simp add: expand_step_nil words_outcome_def)
next
  case (6 w c cs)
  note step = expand_step_cons [OF 6(3), of lc]
  show ?case
    by (cases "c = CHR 0x27")
      (use step 6(1) run_skip [OF 6(3), of Plain lc] in simp,
       use step 6(2) run_copy [OF 6(3), of Single lc] in simp)
next
  case (7 w)
  then show ?case using run_unclosed [OF 7]
    by (simp add: expand_step_nil words_outcome_def)
next
  case (8 w c cs)
  note step = expand_step_cons [OF 8(4), of lc]
  consider "c = CHR 0x22" | "c = CHR 0x5C" | "c \<noteq> CHR 0x22" "c \<noteq> CHR 0x5C" by blast
  then show ?case
    by cases
      (use step 8(1) run_skip [OF 8(4), of Plain lc] in simp,
       use step 8(2) run_skip [OF 8(4), of Escape lc] in simp,
       use step 8(3) run_copy [OF 8(4), of Double lc] in simp)
next
  case (9 w)
  then show ?case using run_unclosed [OF 9]
    by (simp add: expand_step_nil words_outcome_def)
next
  case (10 w c cs)
  then show ?case
    using expand_step_cons [OF 10(2), of lc] run_copy [OF 10(2), of Double lc] by simp
qed

text \<open>The splitter of a whole value.\<close>

definition split_arguments :: "string \<Rightarrow> string list option" where
  "split_arguments v = split_words Between [] v"

lemma expands_init: "c_string v \<Longrightarrow> expands (expand_init v) Between [] v"
  by (simp add: expands_def expand_init_def)

lemma arguments_split:
  assumes "c_string v"
  shows "daemon_conf_parse_general_arguments lc conf key (Some v)
    = Inr (map_option (\<lambda>l. conf\<lparr>conf_arguments := Some l\<rparr>)
        (words_outcome lc None (split_arguments v)))"
proof -
  from expand_loop_split [OF expands_init [OF assms], of lc] obtain r where
    r: "expand_loop lc (expand_init v) = Inr r"
      "expand_outcome r = words_outcome lc None (split_arguments v)"
    by (auto simp: split_arguments_def expand_init_def)
  have "(case r of None \<Rightarrow> None
      | Some e \<Rightarrow> if ex_state e = EXPAND_ERROR_UNCLOSED_QUOTE then None
          else if ex_arguments e = None then None
          else Some (conf\<lparr>conf_arguments := ex_arguments e\<rparr>))
      = map_option (\<lambda>l. conf\<lparr>conf_arguments := Some l\<rparr>) (expand_outcome r)"
    by (auto simp: expand_outcome_def split: option.splits)
  with r show ?thesis by (simp add: daemon_conf_parse_general_arguments_def)
qed

section \<open>Every argument vector can be written\<close>

definition escape_char :: "char \<Rightarrow> string" where
  "escape_char c = (if c = CHR 0x22 \<or> c = CHR 0x5C then [CHR 0x5C, c] else [c])"

definition quote_word :: "string \<Rightarrow> string" where
  "quote_word w = CHR 0x22 # concat (map escape_char w) @ [CHR 0x22]"

fun quote_words :: "string list \<Rightarrow> string" where
  "quote_words [] = []"
| "quote_words [w] = quote_word w"
| "quote_words (w # v # ws) = quote_word w @ CHR '' '' # quote_words (v # ws)"

lemma split_escaped:
  "split_words Double w (concat (map escape_char v) @ rest) = split_words Double (w @ v) rest"
  by (induction v arbitrary: w) (auto simp: escape_char_def)

lemma split_quoted:
  "split_words Between x (quote_word w @ rest) = split_words Plain w rest"
  by (simp add: quote_word_def split_escaped)

lemma split_quote_words: "split_words Between x (quote_words ws) = Some ws"
proof (induction ws arbitrary: x rule: quote_words.induct)
  case (2 w)
  then show ?case using split_quoted [of x w "[]"] by simp
qed (simp_all add: split_quoted)

lemma c_string_quote_word: "c_string w \<Longrightarrow> c_string (quote_word w)"
  by (induction w) (auto simp: quote_word_def escape_char_def NUL_def c_string_def)

lemma c_string_quote_words: "list_all c_string ws \<Longrightarrow> c_string (quote_words ws)"
  by (induction ws rule: quote_words.induct) (auto simp: c_string_quote_word NUL_def)

end
