(* ===== verification/Conf_Line.thy ===== *)
theory Conf_Line
  imports C_Library
begin

text \<open>
  One line of a configuration file: \<^verbatim>\<open>daemon_conf_parse_line\<close> of \<^verbatim>\<open>src/cyberd/daemon_conf.c\<close>.
  It trims the line, splits it and terminates its parts in place, in the buffer of
  \<^verbatim>\<open>getline(3)\<close>. The accesses of the code are checked against this buffer. Some of them go one
  character below it: what such a read gives is the parameter \<open>below\<close>, which is
  \<open>Inl Out_of_bounds\<close> by the rules of C, and some character on a platform where the
  byte below an allocated block can be read.
\<close>

section \<open>The code\<close>

definition line_read :: "char result \<Rightarrow> char list \<Rightarrow> int \<Rightarrow> char result" where
  "line_read below buf i =
     (if i < - 1 then Inl Out_of_bounds else if i = - 1 then below else buf_read buf (nat i))"

definition line_write :: "char list \<Rightarrow> int \<Rightarrow> char \<Rightarrow> char list result" where
  "line_write buf i c = (if i < 0 then Inl Out_of_bounds else buf_write buf (nat i) c)"

text \<open>\<^verbatim>\<open>strchr(3)\<close> from an index of the buffer.\<close>

function strchr_from :: "char list \<Rightarrow> nat \<Rightarrow> char \<Rightarrow> nat option result" where
  "strchr_from buf i c =
     rbind (buf_read buf i) (\<lambda>d.
       if d = c then Inr (Some i) else if d = NUL then Inr None else strchr_from buf (i + 1) c)"
  by pat_completeness auto
termination
  by (relation "measure (\<lambda>(buf, i, c). length buf - i)") (auto simp: result_iff)

text \<open>\<^verbatim>\<open>while (isspace(*line)) { length--; line++; }\<close>\<close>

function trim_begin :: "char list \<Rightarrow> nat \<Rightarrow> int \<Rightarrow> (nat \<times> int) result" where
  "trim_begin buf line len =
     rbind (buf_read buf line) (\<lambda>d.
       if isspace d then trim_begin buf (line + 1) (len - 1) else Inr (line, len))"
  by pat_completeness auto
termination
  by (relation "measure (\<lambda>(buf, line, len). length buf - line)") (auto simp: result_iff)

text \<open>
  \<^verbatim>\<open>while (isspace(line[length - 1])) length--\<close>. The unsigned length of the code wraps below
  zero; only its sum with \<^verbatim>\<open>line\<close> is ever used, as an address, where the wrapped value acts as
  the negative number it is here.
\<close>

function trim_end :: "char result \<Rightarrow> char list \<Rightarrow> nat \<Rightarrow> int \<Rightarrow> int result" where
  "trim_end below buf line len =
     rbind (line_read below buf (int line + len - 1)) (\<lambda>d.
       if isspace d then trim_end below buf line (len - 1) else Inr len)"
  by pat_completeness auto
termination
  by (relation "measure (\<lambda>(below, buf, line, len). nat (int line + len + 1))")
    (auto simp: line_read_def split: if_splits)

text \<open>\<^verbatim>\<open>while (isspace(*preseparator)) preseparator--\<close>\<close>

function trim_key :: "char result \<Rightarrow> char list \<Rightarrow> int \<Rightarrow> int result" where
  "trim_key below buf i =
     rbind (line_read below buf i) (\<lambda>d.
       if isspace d then trim_key below buf (i - 1) else Inr i)"
  by pat_completeness auto
termination
  by (relation "measure (\<lambda>(below, buf, i). nat (i + 2))")
    (auto simp: line_read_def split: if_splits)

declare strchr_from.simps [simp del] trim_begin.simps [simp del] trim_end.simps [simp del]
  trim_key.simps [simp del]

text \<open>The results: a section name, or a key and its value if there is one.\<close>

datatype parsed_line = Section string | Entry string "string option"

text \<open>The branch of a section delimiter.\<close>

definition parse_section :: "char result \<Rightarrow> char list \<Rightarrow> nat \<Rightarrow> int \<Rightarrow> parsed_line result" where
  "parse_section below buf line len =
     rbind (trim_begin buf (line + 1) (len - 1)) (\<lambda>(line, len).
     rbind (trim_end below buf line (len - 1)) (\<lambda>len.
     rbind (line_write buf (int line + len) NUL) (\<lambda>buf.
     rbind (buf_string buf line) (\<lambda>key. Inr (Section key)))))"

text \<open>The branch of a scalar or associative value.\<close>

definition parse_entry :: "char result \<Rightarrow> char list \<Rightarrow> nat \<Rightarrow> parsed_line result" where
  "parse_entry below buf line =
     rbind (strchr_from buf line (CHR ''='')) (\<lambda>separator.
       case separator of
         None \<Rightarrow> rbind (buf_string buf line) (\<lambda>key. Inr (Entry key None))
       | Some sep \<Rightarrow>
           (let preseparator = int sep - 1
            in rbind (if preseparator \<noteq> int line then trim_key below buf preseparator
                      else Inr preseparator) (\<lambda>preseparator.
               rbind (line_write buf (preseparator + 1) NUL) (\<lambda>buf.
               rbind (trim_begin buf (sep + 1) 0) (\<lambda>(sep, _).
               rbind (buf_string buf line) (\<lambda>key.
               rbind (buf_string buf sep) (\<lambda>value.
               Inr (Entry key (Some value)))))))))"

text \<open>What follows the trimming of the beginning: the end is trimmed, the kind decided.\<close>

definition parse_trimmed :: "char result \<Rightarrow> char list \<Rightarrow> nat \<Rightarrow> int \<Rightarrow> parsed_line result" where
  "parse_trimmed below buf line len =
     rbind (trim_end below buf line len) (\<lambda>len.
     rbind (line_write buf (int line + len) NUL) (\<lambda>buf.
     rbind (buf_read buf line) (\<lambda>first.
     rbind (if first = CHR ''['' then
              rbind (line_read below buf (int line + len - 1)) (\<lambda>d. Inr (d = CHR '']''))
            else Inr False) (\<lambda>delimiter.
     if delimiter then parse_section below buf line len
     else parse_entry below buf line))))"

definition daemon_conf_parse_line ::
  "char result \<Rightarrow> char list \<Rightarrow> int \<Rightarrow> parsed_line result" where
  "daemon_conf_parse_line below buf len =
     rbind (strchr_from buf 0 (CHR ''#'')) (\<lambda>comment.
     let len = (case comment of Some i \<Rightarrow> int i | None \<Rightarrow> len) in
     rbind (trim_begin buf 0 len) (\<lambda>(line, len). parse_trimmed below buf line len))"

section \<open>What a line means\<close>

definition blank :: "string \<Rightarrow> bool" where
  "blank s \<longleftrightarrow> list_all isspace s"

definition rtrim :: "string \<Rightarrow> string" where
  "rtrim s = rev (dropWhile isspace (rev s))"

definition trim :: "string \<Rightarrow> string" where
  "trim s = rtrim (dropWhile isspace s)"

text \<open>
  The line without its comment, trimmed; then a section name between brackets, or a key with the
  value behind the first equal sign, both trimmed. Brackets around spaces only give the name
  "]", which is no name of a section either.
\<close>

definition line_content :: "string \<Rightarrow> string" where
  "line_content line = trim (takeWhile (\<lambda>c. c \<noteq> CHR ''#'') line)"

definition section_name :: "string \<Rightarrow> string" where
  "section_name inner = (if inner \<noteq> [] \<and> blank inner then '']'' else trim inner)"

definition line_meaning :: "string \<Rightarrow> parsed_line" where
  "line_meaning content =
     (if 2 \<le> length content \<and> hd content = CHR ''['' \<and> last content = CHR '']'' then
        Section (section_name (butlast (tl content)))
      else if CHR ''='' \<in> set content then
        Entry (rtrim (takeWhile (\<lambda>c. c \<noteq> CHR ''='') content))
          (Some (dropWhile isspace (tl (dropWhile (\<lambda>c. c \<noteq> CHR ''='') content))))
      else Entry content None)"

section \<open>The scanning loops\<close>

lemma strchr_from_found:
  assumes "c \<notin> set mid" "NUL \<notin> set mid"
  shows "strchr_from (pre @ mid @ c # rest) (length pre) c = Inr (Some (length pre + length mid))"
  using assms
proof (induction mid arbitrary: pre)
  case Nil
  then show ?case by (simp add: strchr_from.simps [of _ "length pre"] buf_read_def)
next
  case (Cons d ds)
  from Cons.IH [of "pre @ [d]"] Cons.prems show ?case
    by (subst strchr_from.simps) (auto simp: buf_read_def nth_append)
qed

lemma strchr_from_missing:
  assumes "c \<notin> set mid" "NUL \<notin> set mid" "c \<noteq> NUL"
  shows "strchr_from (pre @ mid @ NUL # rest) (length pre) c = Inr None"
  using assms
proof (induction mid arbitrary: pre)
  case Nil
  then show ?case by (simp add: strchr_from.simps [of _ "length pre"] buf_read_def)
next
  case (Cons d ds)
  from Cons.IH [of "pre @ [d]"] Cons.prems show ?case
    by (subst strchr_from.simps) (auto simp: buf_read_def nth_append)
qed

lemma trim_begin_spaces:
  assumes "blank sp" "\<not> isspace x"
  shows "trim_begin (pre @ sp @ x # rest) (length pre) len
    = Inr (length pre + length sp, len - int (length sp))"
  using assms(1)
proof (induction sp arbitrary: pre len)
  case Nil
  then show ?case using assms(2)
    by (simp add: trim_begin.simps [of _ "length pre"] buf_read_def)
next
  case (Cons d ds)
  from Cons.IH [of "pre @ [d]" "len - 1"] Cons.prems show ?case
    by (subst trim_begin.simps) (simp add: buf_read_def nth_append blank_def)
qed

lemma line_read_nat: "line_read below buf (int i) = buf_read buf i"
  by (simp add: line_read_def)

lemma line_read_middle:
  "i = int (length pre) \<Longrightarrow> line_read below (pre @ d # rest) i = Inr d"
  by (simp add: line_read_nat buf_read_def nth_append)

lemma trim_end_spaces:
  assumes "blank sp" "\<not> isspace x"
  shows "trim_end below ((pre @ [x]) @ sp @ rest) line
      (int (length pre) + 1 + int (length sp) - int line)
    = Inr (int (length pre) + 1 - int line)"
  using assms(1)
proof (induction sp arbitrary: rest rule: rev_induct)
  case Nil
  have "line_read below ((pre @ [x]) @ rest) (int (length pre)) = Inr x"
    by (simp add: line_read_nat buf_read_def nth_append)
  then show ?case using assms(2)
    by (subst trim_end.simps) (simp add: algebra_simps)
next
  case (snoc d ds)
  have "line_read below ((pre @ x # ds) @ d # rest) (1 + (int (length pre) + int (length ds)))
      = Inr d"
    by (rule line_read_middle) simp
  with snoc.IH [of "d # rest"] snoc.prems show ?case
    by (subst trim_end.simps) (simp add: blank_def algebra_simps)
qed

lemma trim_key_spaces:
  assumes "blank sp" "\<not> isspace x"
  shows "trim_key below ((pre @ [x]) @ sp @ rest) (int (length pre + length sp))
    = Inr (int (length pre))"
  using assms(1)
proof (induction sp arbitrary: rest rule: rev_induct)
  case Nil
  have "line_read below ((pre @ [x]) @ rest) (int (length pre)) = Inr x"
    by (simp add: line_read_nat buf_read_def nth_append)
  then show ?case using assms(2) by (subst trim_key.simps) simp
next
  case (snoc d ds)
  have "line_read below ((pre @ x # ds) @ d # rest) (1 + (int (length pre) + int (length ds)))
      = Inr d"
    by (rule line_read_middle) simp
  with snoc.IH [of "d # rest"] snoc.prems show ?case
    by (subst trim_key.simps) (simp add: blank_def algebra_simps)
qed

section \<open>Trimming\<close>

lemma blank_simps [simp]:
  "blank []"
  "blank (c # s) \<longleftrightarrow> isspace c \<and> blank s"
  "blank (s @ t) \<longleftrightarrow> blank s \<and> blank t"
  by (simp_all add: blank_def)

lemma isspace_NUL [simp]: "\<not> isspace NUL"
  by (simp add: isspace_def)

lemma rtrim_decomp: "\<exists>sp. s = rtrim s @ sp \<and> blank sp"
proof (intro exI conjI)
  have "rev s = takeWhile isspace (rev s) @ dropWhile isspace (rev s)" by simp
  then have "rev (rev s) = rtrim s @ rev (takeWhile isspace (rev s))"
    unfolding rtrim_def by (metis rev_append)
  then show "s = rtrim s @ rev (takeWhile isspace (rev s))" by simp
  show "blank (rev (takeWhile isspace (rev s)))"
    by (auto simp: blank_def list_all_iff dest: set_takeWhileD)
qed

lemma rtrim_last: "rtrim s \<noteq> [] \<Longrightarrow> \<not> isspace (last (rtrim s))"
  using hd_dropWhile [of isspace "rev s"] by (auto simp: rtrim_def last_rev)

lemma rtrim_not_blank: "\<not> blank s \<Longrightarrow> rtrim s \<noteq> []"
  by (auto simp: rtrim_def blank_def list_all_iff dropWhile_eq_Nil_conv)

lemma ltrim_decomp: "\<exists>sp. s = sp @ dropWhile isspace s \<and> blank sp"
  by (rule exI [of _ "takeWhile isspace s"])
    (auto simp: blank_def list_all_iff dest: set_takeWhileD)

lemma trim_decomp:
  assumes "\<not> blank s"
  obtains sp1 sp2 where "s = sp1 @ trim s @ sp2" "blank sp1" "blank sp2" "trim s \<noteq> []"
    "\<not> isspace (hd (trim s))" "\<not> isspace (last (trim s))"
proof -
  define t where "t = dropWhile isspace s"
  obtain sp1 where sp1: "s = sp1 @ t" "blank sp1" using ltrim_decomp t_def by blast
  obtain sp2 where sp2: "t = rtrim t @ sp2" "blank sp2" using rtrim_decomp by blast
  have ne: "rtrim t \<noteq> []" using assms sp1 by (intro rtrim_not_blank) auto
  then have "hd (rtrim t) = hd t" using sp2(1) by (metis hd_append2)
  moreover have "t \<noteq> []" using ne sp2(1) by auto
  then have "\<not> isspace (hd t)" unfolding t_def by (rule hd_dropWhile)
  moreover have "trim s = rtrim t" by (simp add: trim_def t_def)
  ultimately show thesis
    by (intro that [of sp1 sp2])
      (use sp1 sp2(2) sp2(1) [symmetric] ne rtrim_last [of t] in simp_all)
qed

lemma last_split: "xs \<noteq> [] \<Longrightarrow> xs = butlast xs @ [last xs]"
  by simp

section \<open>The line without its comment and spaces\<close>

lemma strchr_comment:
  assumes "c_string line"
  shows "strchr_from (line @ [NUL]) 0 (CHR ''#'')
    = Inr (let c = takeWhile (\<lambda>c. c \<noteq> CHR ''#'') line
           in if c = line then None else Some (length c))"
proof (cases "CHR ''#'' \<in> set line")
  case True
  then obtain c rest where line: "line = c @ CHR ''#'' # rest" and c: "CHR ''#'' \<notin> set c"
    by (meson split_list_first)
  then have "takeWhile (\<lambda>c. c \<noteq> CHR ''#'') line = c" by (auto simp: takeWhile_append)
  moreover have "NUL \<notin> set c" using assms line by (auto simp: c_string_def)
  with c have "strchr_from ([] @ c @ CHR ''#'' # rest @ [NUL]) (length ([] :: string)) (CHR ''#'')
      = Inr (Some (length ([] :: string) + length c))" by (rule strchr_from_found)
  ultimately show ?thesis using line by simp
next
  case False
  then have "takeWhile (\<lambda>c. c \<noteq> CHR ''#'') line = line" by (auto simp: takeWhile_eq_all_conv)
  moreover have "strchr_from ([] @ line @ NUL # []) (length ([] :: string)) (CHR ''#'') = Inr None"
    using False assms by (intro strchr_from_missing) (auto simp: c_string_def NUL_def)
  ultimately show ?thesis by simp
qed

text \<open>
  Up to the distinction of the two kinds of lines: the content stands in the buffer, ended by a
  nul, with its bounds in \<^verbatim>\<open>line\<close> and \<^verbatim>\<open>length\<close>.
\<close>

lemma parse_line_prefix:
  assumes "c_string line" and content: "content = line_content line"
    and "\<not> blank (takeWhile (\<lambda>c. c \<noteq> CHR ''#'') line)"
  shows "\<exists>pre post. blank pre \<and>
    daemon_conf_parse_line below (line @ [NUL]) (int (length line)) =
    (if hd content = CHR ''['' \<and> last content = CHR '']''
     then parse_section below (pre @ content @ NUL # post) (length pre) (int (length content))
     else parse_entry below (pre @ content @ NUL # post) (length pre))"
proof -
  define c where "c = takeWhile (\<lambda>c. c \<noteq> CHR ''#'') line"
  have trim: "trim c = content" by (simp add: content line_content_def c_def)
  obtain sp1 sp2 where c: "c = sp1 @ content @ sp2" "blank sp1" "blank sp2" "content \<noteq> []"
    "\<not> isspace (hd content)" "\<not> isspace (last content)"
    using trim_decomp [of c] assms(3) trim by (metis c_def)
  obtain rest where rest: "line @ [NUL] = c @ rest" "rest \<noteq> []"
    using takeWhile_dropWhile_id [of "\<lambda>c. c \<noteq> CHR ''#''" line]
    by (metis append_assoc c_def snoc_eq_iff_butlast append_is_Nil_conv)
  have len: "(case (if c = line then None else Some (length c)) of
      Some i \<Rightarrow> int i | None \<Rightarrow> int (length line)) = int (length c)" by simp
  obtain x xs where hd: "content = x # xs" using c(4) by (cases content) auto
  obtain ys y where last: "content = ys @ [y]" using c(4) by (cases content rule: rev_cases) auto
  have buf: "line @ [NUL] = sp1 @ content @ sp2 @ rest" using rest(1) c(1) by simp
  have t1: "trim_begin (line @ [NUL]) 0 (int (length c))
      = Inr (length sp1, int (length content) + int (length sp2))"
    using trim_begin_spaces [OF c(2), of x "[]" "xs @ sp2 @ rest" "int (length c)"] c(5)
    unfolding buf hd by (simp add: c(1) hd)
  have t2: "trim_end below (line @ [NUL]) (length sp1) (int (length content) + int (length sp2))
      = Inr (int (length content))"
    using trim_end_spaces [OF c(3), of y below "sp1 @ ys" rest "length sp1"] c(6)
    unfolding buf last by (simp add: algebra_simps)
  define post where "post = tl (sp2 @ rest)"
  have w: "line_write (line @ [NUL]) (int (length sp1) + int (length content)) NUL
      = Inr (sp1 @ content @ NUL # post)"
    using rest c(1)
    by (cases "sp2 @ rest") (auto simp: line_write_def buf_write_def list_update_append
        post_def nat_add_distrib)
  have first: "buf_read (sp1 @ content @ NUL # post) (length sp1) = Inr (hd content)"
    by (simp add: buf_read_def nth_append hd)
  have last: "line_read below (sp1 @ content @ NUL # post)
      (int (length sp1) + int (length content) - 1) = Inr (last content)"
    using line_read_middle [of _ "sp1 @ ys" below y "NUL # post"] by (simp add: last)
  show ?thesis
    by (rule exI [of _ sp1], rule exI [of _ post])
      (simp add: c(2) daemon_conf_parse_line_def parse_trimmed_def strchr_comment [OF assms(1)] len t1 t2 w first last
        Let_def flip: c_def)
qed

section \<open>Section delimiters and entries\<close>

lemma parse_section_name:
  assumes "c_string inner"
  shows "parse_section below (pre @ (CHR ''['' # inner @ '']'') @ NUL # post) (length pre)
      (int (length inner) + 2) = Inr (Section (section_name inner))"
proof (cases "blank inner")
  case False
  then obtain sp1 t sp2 where t: "inner = sp1 @ t @ sp2" "blank sp1" "blank sp2" "t = trim inner"
    "t \<noteq> []" "\<not> isspace (hd t)" "\<not> isspace (last t)"
    by (metis trim_decomp)
  obtain x xs where hd: "t = x # xs" using t(5) by (cases t) auto
  obtain ys y where last: "t = ys @ [y]" using t(5) by (cases t rule: rev_cases) auto
  define buf where "buf = (pre @ (CHR ''['' # inner @ '']'') @ NUL # post)"
  have b: "trim_begin buf (length pre + 1) (int (length inner) + 2 - 1)
      = Inr (length pre + 1 + length sp1, int (length t) + int (length sp2) + 1)"
    using trim_begin_spaces [OF t(2), of x "pre @ ''[''" "xs @ sp2 @ '']'' @ NUL # post"
        "int (length inner) + 1"] t(6)
    by (simp add: buf_def t(1) hd)
  have e: "trim_end below buf (length pre + 1 + length sp1) (int (length t) + int (length sp2))
      = Inr (int (length t))"
    using trim_end_spaces [OF t(3), of y below "pre @ ''['' @ sp1 @ ys" "'']'' @ NUL # post"
        "length pre + 1 + length sp1"] t(7)
    by (simp add: buf_def t(1) last algebra_simps)
  have w: "line_write buf (int (length pre + 1 + length sp1) + int (length t)) NUL
      = Inr ((pre @ ''['' @ sp1) @ t @ NUL # tl (sp2 @ '']'' @ NUL # post))"
    by (cases sp2) (auto simp: line_write_def buf_write_def buf_def t(1) list_update_append
        nat_add_distrib)
  have s: "buf_string ((pre @ ''['' @ sp1) @ t @ NUL # tl (sp2 @ '']'' @ NUL # post))
      (length pre + 1 + length sp1) = Inr t"
    using assms t(1) by (intro buf_string_NUL) auto
  from b e w s t(4) False
  have "parse_section below buf (length pre) (int (length inner) + 2)
      = Inr (Section (section_name inner))"
    by (simp add: parse_section_def section_name_def)
  then show ?thesis by (simp add: buf_def)
next
  case True
  define buf where "buf = (pre @ (CHR ''['' # inner @ '']'') @ NUL # post)"
  have b: "trim_begin buf (length pre + 1) (int (length inner) + 2 - 1)
      = Inr (length pre + 1 + length inner, 1)"
    using trim_begin_spaces [OF True, of "CHR '']''" "pre @ ''[''" "NUL # post"
        "int (length inner) + 1"]
    by (simp add: buf_def isspace_def byte_def add.commute)
  have e: "trim_end below buf (length pre + 1 + length inner) 0 = Inr (- int (length inner))"
    using trim_end_spaces [OF True, of "CHR ''[''" below pre "'']'' @ NUL # post"
        "length pre + 1 + length inner"]
    by (simp add: buf_def isspace_def byte_def)
  define post' where "post' = tl (inner @ '']'' @ NUL # post)"
  have w: "line_write buf (int (length pre + 1 + length inner) + - int (length inner)) NUL
      = Inr ((pre @ ''['') @ NUL # post')"
    by (cases inner) (auto simp: line_write_def buf_write_def buf_def post'_def list_update_append
        nat_add_distrib)
  have s: "buf_string ((pre @ ''['') @ NUL # post') (length pre + 1 + length inner)
      = Inr (if inner = [] then [] else '']'')"
  proof (cases inner)
    case Nil
    with buf_string_NUL [of "length pre + 1" "(pre @ ''['') @ NUL # post'" "[]" post'] show ?thesis
      by simp
  next
    case (Cons d ds)
    then have "drop (length pre + 1 + length inner) ((pre @ ''['') @ NUL # post') = '']'' @ NUL # post"
      by (simp add: post'_def)
    from buf_string_NUL [OF this] Cons show ?thesis by (simp add: NUL_def)
  qed
  from b e w s True
  have "parse_section below buf (length pre) (int (length inner) + 2)
      = Inr (Section (section_name inner))"
    by (simp add: parse_section_def section_name_def trim_def rtrim_def)
  then show ?thesis by (simp add: buf_def)
qed

lemma parse_scalar:
  assumes "c_string content" "CHR ''='' \<notin> set content"
  shows "parse_entry below (pre @ content @ NUL # post) (length pre) = Inr (Entry content None)"
proof -
  have "strchr_from (pre @ content @ NUL # post) (length pre) (CHR ''='') = Inr None"
    using assms by (intro strchr_from_missing) (auto simp: c_string_def NUL_def)
  moreover have "buf_string (pre @ content @ NUL # post) (length pre) = Inr content"
    using assms(1) by (intro buf_string_NUL) auto
  ultimately show ?thesis by (simp add: parse_entry_def)
qed

lemma trim_key_rtrim:
  assumes "k \<noteq> []" "\<not> isspace (hd k)"
  shows "(if int (length pre + length k) - 1 \<noteq> int (length pre)
      then trim_key below (pre @ k @ rest) (int (length pre + length k) - 1)
      else Inr (int (length pre + length k) - 1))
    = Inr (int (length pre + length (rtrim k)) - 1)"
proof -
  obtain sp where sp: "k = rtrim k @ sp" "blank sp" using rtrim_decomp by blast
  have ne: "rtrim k \<noteq> []" using assms by (intro rtrim_not_blank) (cases k; auto)
  then obtain ys y where y: "rtrim k = ys @ [y]" by (cases "rtrim k" rule: rev_cases) auto
  have ns: "\<not> isspace y" using rtrim_last [OF ne] y by simp
  have k: "k = ys @ [y] @ sp" using sp(1) y by simp
  have "trim_key below (pre @ k @ rest) (int (length pre + length k) - 1)
      = Inr (int (length pre + length (rtrim k)) - 1)"
    using trim_key_spaces [OF sp(2) ns, of below "pre @ ys" rest] by (simp add: y add.assoc) (simp add: k add.assoc)
  moreover have "length k = 1 \<Longrightarrow> rtrim k = k" using k y by simp
  ultimately show ?thesis by auto
qed

lemma parse_associative:
  assumes "c_string k" "c_string v" "CHR ''='' \<notin> set k" "k \<noteq> []" "\<not> isspace (hd k)"
  shows "parse_entry below (pre @ (k @ CHR ''='' # v) @ NUL # post) (length pre)
    = Inr (Entry (rtrim k) (Some (dropWhile isspace v)))"
proof -
  define buf where "buf = pre @ (k @ CHR ''='' # v) @ NUL # post"
  have sep: "strchr_from buf (length pre) (CHR ''='') = Inr (Some (length pre + length k))"
    using strchr_from_found [of "CHR ''=''" k pre "v @ NUL # post"] assms(1,3)
    by (simp add: buf_def c_string_def)
  have key: "(if int (length pre + length k) - 1 \<noteq> int (length pre)
      then trim_key below buf (int (length pre + length k) - 1)
      else Inr (int (length pre + length k) - 1))
    = Inr (int (length pre + length (rtrim k)) - 1)"
    using trim_key_rtrim [OF assms(4,5), of pre below "CHR ''='' # v @ NUL # post"]
    by (simp only: buf_def append.assoc append_Cons)
  obtain sp where sp: "k = rtrim k @ sp" "blank sp" using rtrim_decomp by blast
  define junk where "junk = tl (sp @ ''='')"
  define buf' where "buf' = pre @ rtrim k @ NUL # junk @ v @ NUL # post"
  have bufs: "buf = pre @ rtrim k @ (sp @ ''='') @ v @ NUL # post" using sp(1) by (simp add: buf_def)
  have len: "length junk = length sp" by (simp add: junk_def)
  have w: "line_write buf (int (length pre + length (rtrim k)) - 1 + 1) NUL = Inr buf'"
    unfolding bufs buf'_def junk_def
    by (cases sp) (auto simp: line_write_def buf_write_def list_update_append nat_add_distrib)
  obtain sp' where sp': "v = sp' @ dropWhile isspace v" "blank sp'" using ltrim_decomp by blast
  obtain x xs where x: "dropWhile isspace v @ NUL # post = x # xs" "\<not> isspace x"
    by (cases "dropWhile isspace v") (auto dest: dropWhile_eq_Cons_conv [THEN iffD1])
  have pos: "length (pre @ rtrim k @ NUL # junk) = length pre + length k + 1"
    using arg_cong [OF sp(1), of length] len by simp
  have "buf' = (pre @ rtrim k @ NUL # junk) @ sp' @ x # xs"
    using sp'(1) x(1) by (metis append.assoc append_Cons buf'_def)
  with trim_begin_spaces [OF sp'(2) x(2), of "pre @ rtrim k @ NUL # junk" xs 0] pos
  have t: "trim_begin buf' (length pre + length k + 1) 0
      = Inr (length pre + length k + 1 + length sp', - int (length sp'))"
    by simp
  have "drop (length pre + length k + 1 + length sp') buf' = dropWhile isspace v @ NUL # post"
    using \<open>buf' = (pre @ rtrim k @ NUL # junk) @ sp' @ x # xs\<close> pos x(1)
    by (metis add.commute append_eq_conv_conj drop_append drop_drop)
  then have vs: "buf_string buf' (length pre + length k + 1 + length sp')
      = Inr (dropWhile isspace v)"
    using assms(2) by (rule buf_string_NUL [OF _ c_string_dropWhile])
  have ks: "buf_string buf' (length pre) = Inr (rtrim k)"
    using assms(1) sp(1) unfolding buf'_def
    by (intro buf_string_NUL) (simp, metis c_string_simps(3))
  have "parse_entry below buf (length pre)
      = Inr (Entry (rtrim k) (Some (dropWhile isspace v)))"
    by (simp only: parse_entry_def Let_def sep rbind_Inr option.case key w t prod.case ks vs)
  then show ?thesis by (simp add: buf_def)
qed

section \<open>The parser computes the meaning\<close>

lemma c_string_line_content: "c_string line \<Longrightarrow> c_string (line_content line)"
  by (simp add: line_content_def trim_def rtrim_def c_string_takeWhile c_string_dropWhile)

lemma parse_line_meaning:
  assumes "c_string line" "\<not> blank (takeWhile (\<lambda>c. c \<noteq> CHR ''#'') line)"
    and "hd (line_content line) \<noteq> CHR ''=''"
  shows "daemon_conf_parse_line below (line @ [NUL]) (int (length line))
    = Inr (line_meaning (line_content line))"
proof -
  define content where "content = line_content line"
  obtain pre post where p: "daemon_conf_parse_line below (line @ [NUL]) (int (length line)) =
    (if hd content = CHR ''['' \<and> last content = CHR '']''
     then parse_section below (pre @ content @ NUL # post) (length pre) (int (length content))
     else parse_entry below (pre @ content @ NUL # post) (length pre))"
    using parse_line_prefix [OF assms(1) content_def assms(2), of below] by blast
  have cs: "c_string content" using assms(1) by (simp add: content_def c_string_line_content)
  have ne: "content \<noteq> []" and hd: "\<not> isspace (hd content)"
    using trim_decomp [OF assms(2)] unfolding content_def line_content_def by metis+
  show ?thesis
  proof (cases "hd content = CHR ''['' \<and> last content = CHR '']''")
    case True
    then obtain inner where inner: "content = CHR ''['' # inner @ '']''" using ne
      by (cases content; cases "tl content" rule: rev_cases) auto
    then show ?thesis
      using p True parse_section_name [of inner below pre post] cs
      by (simp add: line_meaning_def algebra_simps flip: content_def)
  next
    case False
    with p have p': "daemon_conf_parse_line below (line @ [NUL]) (int (length line))
      = parse_entry below (pre @ content @ NUL # post) (length pre)" by (simp only: if_False)
    show ?thesis
    proof (cases "CHR ''='' \<in> set content")
      case sep: True
      then obtain k v where kv: "content = k @ CHR ''='' # v" "CHR ''='' \<notin> set k"
        by (meson split_list_first)
      have k: "k \<noteq> []" "\<not> isspace (hd k)"
        using assms(3) kv(1) hd unfolding content_def [symmetric] by (cases k; simp)+
      have "takeWhile (\<lambda>c. c \<noteq> CHR ''='') content = k"
        "dropWhile (\<lambda>c. c \<noteq> CHR ''='') content = CHR ''='' # v"
        using kv by (auto simp: takeWhile_append dropWhile_append)
      with False sep have "line_meaning content = Entry (rtrim k) (Some (dropWhile isspace v))"
        by (auto simp: line_meaning_def)
      moreover have "c_string k" "c_string v" using cs kv(1) by auto
      ultimately show ?thesis
        using p' parse_associative [OF _ _ kv(2) k, of v below pre post] kv(1)
        by (simp flip: content_def)
    next
      case nosep: False
      with False have "line_meaning content = Entry content None" by (auto simp: line_meaning_def)
      then show ?thesis using p' parse_scalar [OF cs nosep, of below pre post]
        by (simp flip: content_def)
    qed
  qed
qed

section \<open>The lines it does not handle\<close>

text \<open>
  Where nothing but spaces is left of the place a backward scan starts from, the scan reads the
  character below the buffer.
\<close>

lemma trim_end_all_blank:
  assumes "blank sp"
  shows "trim_end below (sp @ rest) line (int (length sp) - int line)
    = trim_end below (sp @ rest) line (- int line)"
  using assms
proof (induction sp arbitrary: rest rule: rev_induct)
  case (snoc d ds)
  have "line_read below (ds @ d # rest) (int (length ds)) = Inr d" by (rule line_read_middle) simp
  with snoc.IH [of "d # rest"] snoc.prems show ?case
    by (subst trim_end.simps) (simp add: algebra_simps)
qed simp

lemma trim_end_below:
  "trim_end (Inl e) buf line (- int line) = Inl e"
  "\<not> isspace x \<Longrightarrow> trim_end (Inr x) buf line (- int line) = Inr (- int line)"
  by (simp_all add: trim_end.simps [of _ buf line "- int line"] line_read_def)

lemma trim_key_all_blank:
  assumes "blank sp"
  shows "trim_key below (sp @ rest) (int (length sp) - 1) = trim_key below (sp @ rest) (- 1)"
  using assms
proof (induction sp arbitrary: rest rule: rev_induct)
  case (snoc d ds)
  have "line_read below (ds @ d # rest) (int (length ds)) = Inr d" by (rule line_read_middle) simp
  with snoc.IH [of "d # rest"] snoc.prems show ?case
    by (subst trim_key.simps) simp
qed simp

lemma trim_key_below: "trim_key (Inl e) buf (- 1) = Inl e"
  by (simp add: trim_key.simps [of _ buf "- 1"] line_read_def)

text \<open>A blank line, or one that holds a comment only, from the place the comment starts.\<close>

lemma parse_blank_prefix:
  assumes "c_string line" "takeWhile (\<lambda>c. c \<noteq> CHR ''#'') line = sp" "blank sp"
  shows "daemon_conf_parse_line below (line @ [NUL]) (int (length line))
    = parse_trimmed below (line @ [NUL]) (length sp) 0"
proof -
  define rest where "rest = dropWhile (\<lambda>c. c \<noteq> CHR ''#'') line @ [NUL]"
  have buf: "line @ [NUL] = sp @ rest"
    using assms(2) by (metis append_assoc rest_def takeWhile_dropWhile_id)
  have "\<not> isspace (hd rest)"
  proof (cases "dropWhile (\<lambda>c. c \<noteq> CHR ''#'') line")
    case Nil
    then have "rest = [NUL]" by (simp only: rest_def append_Nil)
    then show ?thesis by simp
  next
    case (Cons d ds)
    then have "d = CHR ''#''" by (simp add: dropWhile_eq_Cons_conv)
    moreover have "hd rest = d" by (simp only: rest_def Cons append_Cons list.sel)
    ultimately show ?thesis by (simp add: isspace_def byte_def)
  qed
  moreover obtain x xs where x: "rest = x # xs" by (cases rest) (auto simp: rest_def)
  ultimately have "trim_begin (line @ [NUL]) 0 (int (length sp)) = Inr (length sp, 0)"
    using trim_begin_spaces [OF assms(3), of x "[]" xs "int (length sp)"] by (simp add: buf x)
  then show ?thesis
    using assms(2)
    by (cases "sp = line") (auto simp: daemon_conf_parse_line_def strchr_comment [OF assms(1)])
qed

lemma trim_end_blank_start:
  assumes "takeWhile (\<lambda>c. c \<noteq> CHR ''#'') line = sp" "blank sp"
  shows "trim_end below (line @ [NUL]) (length sp) 0
    = trim_end below (line @ [NUL]) (length sp) (- int (length sp))"
proof -
  have eq: "line @ [NUL] = sp @ dropWhile (\<lambda>c. c \<noteq> CHR ''#'') line @ [NUL]"
    using assms(1) by (metis append_assoc takeWhile_dropWhile_id)
  from trim_end_all_blank [OF assms(2), of below "dropWhile (\<lambda>c. c \<noteq> CHR ''#'') line @ [NUL]"
      "length sp"] show ?thesis by (simp only: eq diff_self)
qed

lemma parse_blank_faults:
  assumes "c_string line" "blank (takeWhile (\<lambda>c. c \<noteq> CHR ''#'') line)"
  shows "daemon_conf_parse_line (Inl e) (line @ [NUL]) (int (length line)) = Inl e"
  using parse_blank_prefix [OF assms(1) refl assms(2), of "Inl e"]
    trim_end_blank_start [OF refl assms(2), of "Inl e"]
  by (simp add: parse_trimmed_def trim_end_below)

lemma parse_equal_faults:
  assumes "c_string line" "\<not> blank (takeWhile (\<lambda>c. c \<noteq> CHR ''#'') line)"
    and "hd (line_content line) = CHR ''=''"
  shows "daemon_conf_parse_line (Inl e) (line @ [NUL]) (int (length line)) = Inl e"
proof -
  define content where "content = line_content line"
  obtain pre post where p: "blank pre"
    "daemon_conf_parse_line (Inl e) (line @ [NUL]) (int (length line)) =
    (if hd content = CHR ''['' \<and> last content = CHR '']''
     then parse_section (Inl e) (pre @ content @ NUL # post) (length pre) (int (length content))
     else parse_entry (Inl e) (pre @ content @ NUL # post) (length pre))"
    using parse_line_prefix [OF assms(1) content_def assms(2), of "Inl e"] by blast
  have "content \<noteq> []"
    using trim_decomp [OF assms(2)] unfolding content_def line_content_def by metis
  then obtain v where v: "content = CHR ''='' # v"
    using assms(3) by (cases content) (auto simp flip: content_def)
  have "strchr_from (pre @ content @ NUL # post) (length pre) (CHR ''='') = Inr (Some (length pre))"
    using strchr_from_found [of "CHR ''=''" "[]" pre "v @ NUL # post"] by (simp add: v)
  moreover have "trim_key (Inl e) (pre @ content @ NUL # post) (int (length pre) - 1) = Inl e"
    using trim_key_all_blank [OF p(1), of "Inl e" "content @ NUL # post"] by (simp add: trim_key_below)
  ultimately show ?thesis using p(2) v by (simp add: parse_entry_def)
qed

text \<open>
  On a platform where the byte below the buffer can be read and is no space, an indented comment
  is taken for an entry: the cut at the comment sign misses the sign.
\<close>

lemma parse_indented_comment:
  assumes "c_string (sp @ CHR ''#'' # comment)" "blank sp" "sp \<noteq> []" "CHR ''='' \<notin> set comment"
    and "\<not> isspace x"
  shows "daemon_conf_parse_line (Inr x) ((sp @ CHR ''#'' # comment) @ [NUL])
      (int (length (sp @ CHR ''#'' # comment))) = Inr (Entry (CHR ''#'' # comment) None)"
proof -
  have "CHR ''#'' \<notin> set sp" using assms(2) by (auto simp: blank_def list_all_iff isspace_def byte_def)
  then have tw: "takeWhile (\<lambda>c. c \<noteq> CHR ''#'') (sp @ CHR ''#'' # comment) = sp"
    by (auto simp: takeWhile_append)
  define line where "line = sp @ CHR ''#'' # comment"
  have w: "line_write (line @ [NUL]) (int (length sp) + - int (length sp)) NUL
      = Inr ((NUL # tl sp) @ (CHR ''#'' # comment) @ NUL # [])"
    using assms(3) by (cases sp) (auto simp: line_write_def buf_write_def line_def)
  have len: "length (NUL # tl sp) = length sp" using assms(3) by (cases sp) auto
  have first: "buf_read ((NUL # tl sp) @ (CHR ''#'' # comment) @ NUL # []) (length sp)
      = Inr (CHR ''#'')"
    unfolding len [symmetric] by (simp add: buf_read_def nth_append del: length_Cons)
  have "parse_entry (Inr x) ((NUL # tl sp) @ (CHR ''#'' # comment) @ NUL # []) (length sp)
      = Inr (Entry (CHR ''#'' # comment) None)"
    unfolding len [symmetric] using assms(1,4) by (intro parse_scalar) auto
  then have "parse_trimmed (Inr x) (line @ [NUL]) (length sp) 0
      = Inr (Entry (CHR ''#'' # comment) None)"
    using trim_end_blank_start [OF tw assms(2), of "Inr x"] trim_end_below(2) [OF assms(5)] w first
    by (simp add: parse_trimmed_def flip: line_def)
  then show ?thesis
    using parse_blank_prefix [OF assms(1) tw assms(2), of "Inr x"] by (simp flip: line_def)
qed

end
