(* ===== verification/Conf_File.thy ===== *)
theory Conf_File
  imports Arguments Conf_Line
begin

unbundle bit_operations_syntax

text \<open>
  A whole configuration file: the tables of sections and keys and the loop of
  \<^verbatim>\<open>daemon_conf_parse\<close> in \<^verbatim>\<open>src/cyberd/daemon_conf.c\<close>, with the invariant every parsed
  configuration satisfies.
\<close>

section \<open>The tables\<close>

type_synonym value_parser = "daemon_conf \<Rightarrow> string \<Rightarrow> string option \<Rightarrow> daemon_conf option result"

abbreviation returning ::
    "(daemon_conf \<Rightarrow> string \<Rightarrow> string option \<Rightarrow> daemon_conf option) \<Rightarrow> value_parser" where
  "returning parse \<equiv> \<lambda>conf key value. Inr (parse conf key value)"

text \<open>
  The values of a section: the entries with a key, and the parser of the last entry, whose key
  is \<^verbatim>\<open>NULL\<close> and which every other key reaches.
\<close>

type_synonym conf_values = "(string \<times> value_parser) list \<times> value_parser option"

definition general_values :: "libc \<Rightarrow> conf_values" where
  "general_values lc =
     ([(''arguments'', daemon_conf_parse_general_arguments lc),
       (''group'', returning (daemon_conf_parse_general_group lc)),
       (''nosid'', returning daemon_conf_parse_general_nosid),
       (''path'', returning (daemon_conf_parse_general_path lc)),
       (''priority'', returning daemon_conf_parse_general_priority),
       (''sigfinish'', returning (daemon_conf_parse_general_sigfinish lc)),
       (''sigreload'', returning (daemon_conf_parse_general_sigreload lc)),
       (''stdin'', returning (daemon_conf_parse_general_stdin lc)),
       (''stdout'', returning (daemon_conf_parse_general_stdout lc)),
       (''stderr'', returning (daemon_conf_parse_general_stderr lc)),
       (''umask'', returning daemon_conf_parse_general_umask),
       (''user'', returning (daemon_conf_parse_general_user lc)),
       (''workdir'', returning (daemon_conf_parse_general_workdir lc))],
      None)"

definition environment_values :: "libc \<Rightarrow> conf_values" where
  "environment_values lc = ([], Some (returning (daemon_conf_parse_environment lc)))"

definition start_values :: conf_values where
  "start_values =
     ([(''any exit'', returning daemon_conf_parse_start_any_exit),
       (''dumped'', returning daemon_conf_parse_start_dumped),
       (''exit'', returning daemon_conf_parse_start_exit),
       (''exit failure'', returning daemon_conf_parse_start_exit_failure),
       (''exit success'', returning daemon_conf_parse_start_exit_success),
       (''killed'', returning daemon_conf_parse_start_killed),
       (''load'', returning daemon_conf_parse_start_load),
       (''reload'', returning daemon_conf_parse_start_reload)],
      None)"

definition sections :: "libc \<Rightarrow> (conf_values \<times> string) list" where
  "sections lc =
     [(general_values lc, ''general''), (environment_values lc, ''environment''),
      (start_values, ''start'')]"

fun find_section :: "(conf_values \<times> string) list \<Rightarrow> string \<Rightarrow> conf_values option" where
  "find_section [] key = None"
| "find_section ((values, name) # rest) key =
     (if strcmp name key \<noteq> 0 then find_section rest key else Some values)"

fun find_value :: "(string \<times> value_parser) list \<Rightarrow> value_parser option \<Rightarrow> string \<Rightarrow>
    value_parser option" where
  "find_value [] final key = final"
| "find_value ((k, parse) # rest) final key =
     (if strcmp k key \<noteq> 0 then find_value rest final key else Some parse)"

section \<open>The loop over the lines\<close>

text \<open>
  The second half of the loop body, for an entry: skipped without a section or with an empty
  key; an error of the parser is logged and changes nothing.
\<close>

definition parse_value ::
  "conf_values option \<Rightarrow> daemon_conf \<Rightarrow> string \<Rightarrow> string option \<Rightarrow> daemon_conf result" where
  "parse_value sec conf key value =
     (case sec of
        None \<Rightarrow> Inr conf
      | Some (values, final) \<Rightarrow>
          if key = [] then Inr conf
          else (case find_value values final key of
                  None \<Rightarrow> Inr conf
                | Some parse \<Rightarrow>
                    rbind (parse conf key value) (\<lambda>r.
                    Inr (case r of None \<Rightarrow> conf | Some conf' \<Rightarrow> conf'))))"

text \<open>
  The file is the list of the lines \<^verbatim>\<open>getline(3)\<close> returns, with their newlines; the buffer of
  each holds the line and the nul behind it.
\<close>

fun parse_lines ::
  "libc \<Rightarrow> char result \<Rightarrow> conf_values option \<Rightarrow> daemon_conf \<Rightarrow> string list \<Rightarrow> daemon_conf result" where
  "parse_lines lc below sec conf [] = Inr conf"
| "parse_lines lc below sec conf (line # lines) =
     rbind (daemon_conf_parse_line below (line @ [NUL]) (int (length line))) (\<lambda>p.
       case p of
         Section key \<Rightarrow> parse_lines lc below (find_section (sections lc) key) conf lines
       | Entry key value \<Rightarrow>
           rbind (parse_value sec conf key value) (\<lambda>conf.
             parse_lines lc below sec conf lines))"

text \<open>The returned integer and the configuration as it is left.\<close>

definition daemon_conf_parse ::
  "libc \<Rightarrow> char result \<Rightarrow> daemon_conf \<Rightarrow> string list \<Rightarrow> (int \<times> daemon_conf) result" where
  "daemon_conf_parse lc below conf lines =
     rbind (parse_lines lc below (Some (general_values lc)) conf lines) (\<lambda>conf.
       if conf_path conf = None then Inr (- 1, conf) else Inr (0, conf))"

section \<open>What a file means\<close>

text \<open>The file read line by line through the meaning of its lines.\<close>

fun apply_lines ::
  "libc \<Rightarrow> conf_values option \<Rightarrow> daemon_conf \<Rightarrow> parsed_line list \<Rightarrow> daemon_conf result" where
  "apply_lines lc sec conf [] = Inr conf"
| "apply_lines lc sec conf (Section key # ps) =
     apply_lines lc (find_section (sections lc) key) conf ps"
| "apply_lines lc sec conf (Entry key value # ps) =
     rbind (parse_value sec conf key value) (\<lambda>conf. apply_lines lc sec conf ps)"

definition plain_line :: "string \<Rightarrow> bool" where
  "plain_line line \<longleftrightarrow> c_string line \<and> \<not> blank (takeWhile (\<lambda>c. c \<noteq> CHR ''#'') line)
     \<and> hd (line_content line) \<noteq> CHR ''=''"

lemma parse_lines_meaning:
  "list_all plain_line lines \<Longrightarrow>
     parse_lines lc below sec conf lines
       = apply_lines lc sec conf (map (\<lambda>l. line_meaning (line_content l)) lines)"
proof (induction lines arbitrary: sec conf)
  case (Cons line lines)
  then have "daemon_conf_parse_line below (line @ [NUL]) (int (length line))
      = Inr (line_meaning (line_content line))"
    by (intro parse_line_meaning) (auto simp: plain_line_def)
  with Cons show ?case
    by (cases "line_meaning (line_content line)") (auto cong: rbind_cong)
qed simp

section \<open>The invariant of a configuration\<close>

definition absolute :: "string option \<Rightarrow> bool" where
  "absolute p \<longleftrightarrow> (case p of None \<Rightarrow> True | Some s \<Rightarrow> s \<noteq> [] \<and> hd s = CHR ''/'')"

definition signal_ok :: "libc \<Rightarrow> int \<Rightarrow> bool" where
  "signal_ok lc s \<longleftrightarrow> 0 \<le> s \<and> s \<le> 65 \<or> sigrtmin lc \<le> s \<and> s \<le> sigrtmax lc"

text \<open>
  All paths are absolute, the argument vector is not empty, the signals, the priority and the
  mask are in range.
\<close>

definition conf_ok :: "libc \<Rightarrow> daemon_conf \<Rightarrow> bool" where
  "conf_ok lc conf \<longleftrightarrow>
     absolute (conf_path conf) \<and> absolute (conf_workdir conf) \<and> absolute (conf_in conf)
     \<and> absolute (conf_out conf) \<and> absolute (conf_err conf)
     \<and> conf_arguments conf \<noteq> Some [] \<and> conf_environment conf \<noteq> Some []
     \<and> signal_ok lc (conf_sigfinish conf) \<and> signal_ok lc (conf_sigreload conf)
     \<and> - 20 \<le> conf_priority conf \<and> conf_priority conf \<le> 19
     \<and> conf_umask conf \<le> 511"

lemma conf_ok_init: "conf_ok lc daemon_conf_init"
  by (simp add: conf_ok_def daemon_conf_init_def absolute_def signal_ok_def SIGTERM_def SIGHUP_def
      CONFIG_DAEMON_CONF_DEFAULT_UMASK_def)

lemma absolute_path: "daemon_conf_path lc value = Some p \<Longrightarrow> absolute (Some p)"
  by (auto simp: daemon_conf_path_def absolute_def split: option.splits if_splits)

lemma find_signal_range: "find_signal signals s = Some n \<Longrightarrow> 0 \<le> n \<and> n \<le> 65"
  by (auto simp: signals_def SIGHUP_def SIGKILL_def SIGTERM_def split: if_splits)

lemma signal_range:
  assumes "daemon_conf_signal lc value = Some n" "sigrtmin lc \<le> sigrtmax lc"
    "sigrtmax lc - sigrtmin lc < 2 ^ 64"
  shows "signal_ok lc n"
proof -
  have u: "uint (word_of_int (sigrtmax lc - sigrtmin lc) :: ulong) = sigrtmax lc - sigrtmin lc"
    using assms(2,3) by (subst uint_word_of_int) simp
  then have u': "uint (word_of_int (sigrtmax lc) - word_of_int (sigrtmin lc) :: ulong)
      = sigrtmax lc - sigrtmin lc" by (simp only: wi_hom_sub)
  have rt: "w \<le> word_of_int (sigrtmax lc) - word_of_int (sigrtmin lc) \<Longrightarrow>
      sigrtmin lc \<le> uint w + sigrtmin lc \<and> uint w + sigrtmin lc \<le> sigrtmax lc" for w :: ulong
    using u' by (simp add: word_le_def)
  have num: "w \<le> NSIG \<Longrightarrow> 0 \<le> uint w \<and> uint w \<le> 65" for w :: ulong
    by (simp add: word_le_def NSIG_def)
  from assms(1) show ?thesis unfolding daemon_conf_signal_def signal_ok_def
    by (auto split: option.splits if_splits prod.splits simp: Let_def not_less
        dest!: rt num find_signal_range)
qed

text \<open>Every parser keeps the invariant, so the loop does.\<close>

definition keeps_ok :: "libc \<Rightarrow> value_parser \<Rightarrow> bool" where
  "keeps_ok lc parse \<longleftrightarrow> (\<forall>conf key value conf'.
     conf_ok lc conf \<longrightarrow> parse conf key value = Inr (Some conf') \<longrightarrow> conf_ok lc conf')"

definition rtsig_range :: "libc \<Rightarrow> bool" where
  "rtsig_range lc \<longleftrightarrow> sigrtmin lc \<le> sigrtmax lc \<and> sigrtmax lc - sigrtmin lc < 2 ^ 64"

named_theorems parsers \<open>the definitions of the parsers of values\<close>

lemmas [parsers] =
  daemon_conf_parse_general_group_def daemon_conf_parse_general_nosid_def
  daemon_conf_parse_general_path_def daemon_conf_parse_general_priority_def
  daemon_conf_parse_general_sigfinish_def daemon_conf_parse_general_sigreload_def
  daemon_conf_parse_general_stdin_def daemon_conf_parse_general_stdout_def
  daemon_conf_parse_general_stderr_def daemon_conf_parse_general_umask_def
  daemon_conf_parse_general_user_def daemon_conf_parse_general_workdir_def
  daemon_conf_parse_environment_def daemon_conf_parse_start_any_exit_def
  daemon_conf_parse_start_dumped_def daemon_conf_parse_start_exit_def
  daemon_conf_parse_start_exit_failure_def daemon_conf_parse_start_exit_success_def
  daemon_conf_parse_start_killed_def daemon_conf_parse_start_load_def
  daemon_conf_parse_start_reload_def

lemma umask_range: "(ucast (w AND 0x1ff :: ulong) :: uint32) \<le> 511"
proof -
  have "w AND 0x1ff \<le> 0x1ff" by (rule word_and_le1)
  then have "unat (w AND 0x1ff) \<le> 511" by (simp add: word_le_nat_alt)
  then show ?thesis
    by (simp add: word_le_nat_alt unsigned_ucast_eq) (meson order_trans take_bit_nat_less_eq_self)
qed

lemma expand_step_arguments:
  assumes "expand_step lc e = Inr (Some e')" "ex_arguments e \<noteq> Some []"
  shows "ex_arguments e' \<noteq> Some []"
  using assms
  by (cases "ex_state e")
    (auto simp: expand_step_def Let_def result_iff end_argument_def copy_char_def
      daemon_conf_list_append_def split: if_splits)

lemma expand_loop_arguments:
  "expand_loop lc e = Inr (Some e') \<Longrightarrow> ex_arguments e \<noteq> Some [] \<Longrightarrow> ex_arguments e' \<noteq> Some []"
proof (induction lc e rule: expand_loop.induct)
  case (1 lc e)
  show ?case
  proof (cases "expand_running e")
    case True
    with 1(2) obtain e1 where e1: "expand_step lc e = Inr (Some e1)"
      "expand_loop lc (e1\<lparr>ex_it := ex_it e1 + 1\<rparr>) = Inr (Some e')"
      by (auto simp: expand_loop.simps [of lc e] result_iff split: option.splits)
    with 1(1) [OF True e1(1) refl e1(2)] 1(3) show ?thesis
      by (simp add: expand_step_arguments)
  next
    case False
    with 1(2,3) show ?thesis by (simp add: expand_loop_stop)
  qed
qed

lemma arguments_keeps_ok: "keeps_ok lc (daemon_conf_parse_general_arguments lc)"
  unfolding keeps_ok_def daemon_conf_parse_general_arguments_def
  by (auto simp: result_iff conf_ok_def expand_init_def dest!: expand_loop_arguments
      split: option.splits if_splits)

lemma paths_keep_ok:
  "keeps_ok lc (returning (daemon_conf_parse_general_path lc))"
  "keeps_ok lc (returning (daemon_conf_parse_general_stdin lc))"
  "keeps_ok lc (returning (daemon_conf_parse_general_stdout lc))"
  "keeps_ok lc (returning (daemon_conf_parse_general_stderr lc))"
  "keeps_ok lc (returning (daemon_conf_parse_general_workdir lc))"
  by (auto simp: keeps_ok_def parsers conf_ok_def dest!: absolute_path)

lemma signals_keep_ok:
  assumes "rtsig_range lc"
  shows "keeps_ok lc (returning (daemon_conf_parse_general_sigfinish lc))"
    and "keeps_ok lc (returning (daemon_conf_parse_general_sigreload lc))"
  using assms
  by (auto simp: keeps_ok_def parsers conf_ok_def rtsig_range_def dest: signal_range)

lemma numbers_keep_ok:
  "keeps_ok lc (returning (daemon_conf_parse_general_group lc))"
  "keeps_ok lc (returning (daemon_conf_parse_general_user lc))"
  "keeps_ok lc (returning daemon_conf_parse_general_priority)"
  "keeps_ok lc (returning daemon_conf_parse_general_umask)"
  by (auto simp: keeps_ok_def parsers conf_ok_def Let_def umask_range
      split: option.splits if_splits prod.splits)

lemma flags_keep_ok:
  "keeps_ok lc (returning daemon_conf_parse_general_nosid)"
  "keeps_ok lc (returning daemon_conf_parse_start_any_exit)"
  "keeps_ok lc (returning daemon_conf_parse_start_dumped)"
  "keeps_ok lc (returning daemon_conf_parse_start_exit)"
  "keeps_ok lc (returning daemon_conf_parse_start_exit_failure)"
  "keeps_ok lc (returning daemon_conf_parse_start_exit_success)"
  "keeps_ok lc (returning daemon_conf_parse_start_killed)"
  "keeps_ok lc (returning daemon_conf_parse_start_load)"
  "keeps_ok lc (returning daemon_conf_parse_start_reload)"
  by (auto simp: keeps_ok_def parsers conf_ok_def split: if_splits)

lemma environment_keeps_ok:
  "keeps_ok lc (returning (daemon_conf_parse_environment lc))"
  by (auto simp: keeps_ok_def parsers conf_ok_def Let_def daemon_conf_list_append_def
      split: option.splits if_splits)

lemma find_value_in:
  "find_value vs final key = Some parse \<Longrightarrow> parse \<in> snd ` set vs \<or> final = Some parse"
  by (induction vs final key rule: find_value.induct) (auto split: if_splits)

lemma find_section_in:
  "find_section ss key = Some vs \<Longrightarrow> vs \<in> fst ` set ss"
  by (induction ss key rule: find_section.induct) (auto split: if_splits)

text \<open>The parsers of a section, and the sections the loop can be in.\<close>

definition section_ok :: "libc \<Rightarrow> conf_values \<Rightarrow> bool" where
  "section_ok lc vs \<longleftrightarrow> (\<forall>p \<in> snd ` set (fst vs) \<union> set_option (snd vs). keeps_ok lc p)"

lemma sections_ok:
  assumes "rtsig_range lc" "vs \<in> fst ` set (sections lc)"
  shows "section_ok lc vs"
proof -
  have "section_ok lc (general_values lc)"
    unfolding section_ok_def general_values_def
    by (simp add: paths_keep_ok signals_keep_ok [OF assms(1)] numbers_keep_ok flags_keep_ok
        arguments_keeps_ok)
  moreover have "section_ok lc (environment_values lc)"
    unfolding section_ok_def environment_values_def by (simp add: environment_keeps_ok)
  moreover have "section_ok lc start_values"
    unfolding section_ok_def start_values_def by (simp add: flags_keep_ok)
  ultimately show ?thesis using assms(2) by (auto simp: sections_def)
qed

lemma parse_value_ok:
  assumes "case sec of None \<Rightarrow> True | Some vs \<Rightarrow> section_ok lc vs" "conf_ok lc conf"
    "parse_value sec conf key value = Inr conf'"
  shows "conf_ok lc conf'"
proof (cases "sec = None \<or> key = [] \<or> (\<exists>values final. sec = Some (values, final)
    \<and> find_value values final key = None)")
  case True
  with assms(2,3) show ?thesis
    by (auto simp: parse_value_def split: option.splits if_splits)
next
  case False
  then obtain vals final parse where s: "sec = Some (vals, final)" "key \<noteq> []"
    "find_value vals final key = Some parse" by (cases sec) auto
  with assms(1) have "keeps_ok lc parse"
    using find_value_in [OF s(3)] by (auto simp: section_ok_def)
  then show ?thesis
    using assms(2,3) s by (auto simp: parse_value_def result_iff keeps_ok_def split: option.splits)
qed

lemma parse_lines_ok:
  assumes "rtsig_range lc"
  shows "parse_lines lc below sec conf lines = Inr conf' \<Longrightarrow> conf_ok lc conf \<Longrightarrow>
    (case sec of None \<Rightarrow> True | Some vs \<Rightarrow> section_ok lc vs) \<Longrightarrow> conf_ok lc conf'"
proof (induction lines arbitrary: sec conf)
  case (Cons line lines)
  from Cons.prems(1) obtain p where p:
    "daemon_conf_parse_line below (line @ [NUL]) (int (length line)) = Inr p"
    by (auto simp: result_iff)
  show ?case
  proof (cases p)
    case (Section key)
    have "case find_section (sections lc) key of None \<Rightarrow> True | Some vs \<Rightarrow> section_ok lc vs"
      using sections_ok [OF assms] find_section_in [of "sections lc" key]
      by (auto split: option.splits)
    then show ?thesis using Cons.IH [OF _ Cons.prems(2)] Cons.prems(1) p Section by simp
  next
    case (Entry key v)
    with Cons.prems(1) p obtain conf1 where
      "parse_value sec conf key v = Inr conf1" "parse_lines lc below sec conf1 lines = Inr conf'"
      by (auto simp: result_iff)
    then show ?thesis
      using Cons.IH parse_value_ok [OF Cons.prems(3,2)] Cons.prems(3) by blast
  qed
qed simp

end
