(* ===== verification/Conf_Properties.thy ===== *)
theory Conf_Properties
  imports Conf_File
begin

text \<open>
  The properties of the configuration files: what a file means, which lines are read out of
  bounds, the splitting of arguments, the invariant of a configuration, the numbers and the
  signals, what is freed.
\<close>

section \<open>Parsing a file never faults on well formed lines\<close>

definition total_parser :: "value_parser \<Rightarrow> bool" where
  "total_parser parse \<longleftrightarrow> (\<forall>conf key value. pred_option c_string value \<longrightarrow>
     (\<exists>r. parse conf key value = Inr r))"

lemma total_returning [simp]: "total_parser (returning parse)"
  by (simp add: total_parser_def)

lemma total_arguments: "total_parser (daemon_conf_parse_general_arguments lc)"
  unfolding total_parser_def
proof (intro allI impI)
  fix conf key v assume "pred_option c_string v"
  then show "\<exists>r. daemon_conf_parse_general_arguments lc conf key v = Inr r"
    using arguments_split
    by (cases v) (simp add: daemon_conf_parse_general_arguments_def, fastforce)
qed

definition total_section :: "conf_values \<Rightarrow> bool" where
  "total_section vs \<longleftrightarrow> (\<forall>p \<in> snd ` set (fst vs) \<union> set_option (snd vs). total_parser p)"

lemma total_sections: "vs \<in> fst ` set (sections lc) \<Longrightarrow> total_section vs"
  by (auto simp: sections_def total_section_def general_values_def environment_values_def
      start_values_def total_arguments)

lemma parse_value_total:
  assumes "pred_option total_section sec" "pred_option c_string v"
  shows "\<exists>conf'. parse_value sec conf key v = Inr conf'"
proof (cases "sec = None \<or> key = [] \<or> (\<exists>vs final. sec = Some (vs, final)
    \<and> find_value vs final key = None)")
  case True
  then show ?thesis by (auto simp: parse_value_def split: option.splits)
next
  case False
  then obtain vs final parse where s: "sec = Some (vs, final)" "key \<noteq> []"
    "find_value vs final key = Some parse" by (cases sec) auto
  then have "total_parser parse" using assms(1) find_value_in [OF s(3)]
    by (auto simp: total_section_def)
  then obtain r where "parse conf key v = Inr r" using assms(2) unfolding total_parser_def by blast
  with s show ?thesis by (simp add: parse_value_def)
qed

definition entry_value_ok :: "parsed_line \<Rightarrow> bool" where
  "entry_value_ok p = (case p of Section key \<Rightarrow> True | Entry key v \<Rightarrow> pred_option c_string v)"

lemma apply_lines_total:
  "pred_option total_section sec \<Longrightarrow> list_all entry_value_ok ps \<Longrightarrow>
     \<exists>conf'. apply_lines lc sec conf ps = Inr conf'"
proof (induction lc sec conf ps rule: apply_lines.induct)
  case (2 lc sec conf key ps)
  have "pred_option total_section (find_section (sections lc) key)"
    using find_section_in [of "sections lc" key] total_sections by (auto simp: pred_option_def)
  with 2 show ?case by simp
next
  case (3 lc sec conf key v ps)
  then have "pred_option c_string v" by (simp add: entry_value_ok_def)
  from parse_value_total [OF 3(2) this] obtain conf' where "parse_value sec conf key v = Inr conf'"
    by blast
  with 3 show ?case by simp
qed simp

lemma line_meaning_value: "c_string s \<Longrightarrow> entry_value_ok (line_meaning s)"
proof -
  assume s: "c_string s"
  have "c_string (dropWhile isspace (tl (dropWhile (\<lambda>c. c \<noteq> CHR ''='') s)))"
    using c_string_dropWhile [OF s, of "\<lambda>c. c \<noteq> CHR ''=''"]
    by (intro c_string_dropWhile)
      (cases "dropWhile (\<lambda>c. c \<noteq> CHR ''='') s", simp_all del: dropWhile_eq_Nil_conv)
  then show ?thesis by (simp add: entry_value_ok_def line_meaning_def)
qed

section \<open>Properties\<close>

text \<open>
  C11: A configuration file whose lines hold something else than a comment and do not start
  with an equal sign is parsed without any access out of bounds, whatever is below the buffer:
  the result is the file read line by line through the meaning of its lines, as
  \<^verbatim>\<open>daemon.conf(5)\<close> tells it, and the return value is zero exactly when a path was given.
\<close>

theorem conf_file_meaning:
  assumes "list_all plain_line lines"
  shows "\<exists>conf'. apply_lines lc (Some (general_values lc)) conf
        (map (\<lambda>l. line_meaning (line_content l)) lines) = Inr conf'
    \<and> daemon_conf_parse lc below conf lines
        = Inr (if conf_path conf' = None then - 1 else 0, conf')"
proof -
  have "list_all entry_value_ok (map (\<lambda>l. line_meaning (line_content l)) lines)"
    using assms by (auto simp: list_all_iff plain_line_def c_string_line_content line_meaning_value)
  moreover have "pred_option total_section (Some (general_values lc))"
    using total_sections [of "general_values lc" lc] by (simp add: sections_def)
  ultimately obtain conf' where "apply_lines lc (Some (general_values lc)) conf
      (map (\<lambda>l. line_meaning (line_content l)) lines) = Inr conf'"
    using apply_lines_total by blast
  then show ?thesis by (simp add: daemon_conf_parse_def parse_lines_meaning [OF assms])
qed

definition sample_libc :: libc where
  "sample_libc = \<lparr>strdup_succeeds = (\<lambda>_. True), realloc_succeeds = (\<lambda>_. True),
     getgrnam = (\<lambda>_. (0, None)), getpwnam = (\<lambda>_. (0, None)), sigrtmin = 34, sigrtmax = 64\<rparr>"

definition sample_file :: "string list" where
  "sample_file = [''path = /bin/sshd # the server'', ''[start]'', '' exit failure'']"

theorem conf_file_meaning_witness:
  "\<exists>conf'. apply_lines sample_libc (Some (general_values sample_libc)) daemon_conf_init
        (map (\<lambda>l. line_meaning (line_content l)) sample_file) = Inr conf'
    \<and> daemon_conf_parse sample_libc (Inl Out_of_bounds) daemon_conf_init sample_file
        = Inr (if conf_path conf' = None then - 1 else 0, conf')"
  by (rule conf_file_meaning)
    (simp add: sample_file_def plain_line_def c_string_def NUL_def blank_def isspace_def byte_def
      line_content_def trim_def rtrim_def)

text \<open>
  C29: The lines that make the parser read below the buffer of \<^verbatim>\<open>getline(3)\<close>, whatever the
  configuration: the lines that hold nothing but spaces and a comment, and the lines that start
  with an equal sign. On every other line no access leaves the buffer.
\<close>

theorem line_out_of_bounds_iff:
  assumes "c_string line"
  shows "daemon_conf_parse_line (Inl Out_of_bounds) (line @ [NUL]) (int (length line))
      = Inl Out_of_bounds
    \<longleftrightarrow> line_content line = [] \<or> hd (line_content line) = CHR ''=''"
proof -
  have blank_iff: "line_content line = [] \<longleftrightarrow> blank (takeWhile (\<lambda>c. c \<noteq> CHR ''#'') line)"
  proof
    assume "line_content line = []"
    then show "blank (takeWhile (\<lambda>c. c \<noteq> CHR ''#'') line)"
      using trim_decomp [of "takeWhile (\<lambda>c. c \<noteq> CHR ''#'') line"]
      unfolding line_content_def by metis
  next
    assume "blank (takeWhile (\<lambda>c. c \<noteq> CHR ''#'') line)"
    then have "dropWhile isspace (takeWhile (\<lambda>c. c \<noteq> CHR ''#'') line) = []"
      by (auto simp: blank_def list_all_iff dropWhile_eq_Nil_conv)
    then show "line_content line = []"
      by (simp only: line_content_def trim_def rtrim_def rev.simps dropWhile.simps)
  qed
  show ?thesis
    using parse_blank_faults [OF assms] parse_equal_faults [OF assms] parse_line_meaning [OF assms]
    unfolding blank_iff by (metis Inl_Inr_False)
qed

theorem line_out_of_bounds_iff_witness:
  "daemon_conf_parse_line (Inl Out_of_bounds) (''# a comment'' @ [NUL])
      (int (length ''# a comment'')) = Inl Out_of_bounds"
  by (subst line_out_of_bounds_iff)
    (simp_all add: c_string_def NUL_def line_content_def trim_def rtrim_def)



text \<open>
  C19: The expansion of the arguments in place computes the words of the value: words separated
  by spaces, with quotes and escapes removed. An open quote, no word at all or a failed
  allocation leaves the configuration as it was, and no access leaves the copy.
\<close>

theorem arguments_are_words:
  assumes "c_string v"
  shows "daemon_conf_parse_general_arguments lc conf key (Some v)
    = Inr (map_option (\<lambda>l. conf\<lparr>conf_arguments := Some l\<rparr>)
        (words_outcome lc None (split_arguments v)))"
  using assms by (rule arguments_split)

theorem arguments_are_words_witness:
  "daemon_conf_parse_general_arguments sample_libc daemon_conf_init ''arguments'' (Some ''a 'b c' '')
    = Inr (Some (daemon_conf_init\<lparr>conf_arguments := Some [''a'', ''b c'']\<rparr>))"
  by (subst arguments_are_words)
    (simp_all add: c_string_def NUL_def sample_libc_def words_outcome_def split_arguments_def
      daemon_conf_list_append_def)

text \<open>
  C20: Every argument vector can be written in a configuration file: quoting each word and
  escaping the quotes and backslashes in it gives a value the parser expands to the same words.
\<close>

theorem arguments_roundtrip:
  assumes "list_all c_string ws" "ws \<noteq> []"
    and "\<And>s. strdup_succeeds lc s" "\<And>n. realloc_succeeds lc n"
  shows "daemon_conf_parse_general_arguments lc conf key (Some (quote_words ws))
    = Inr (Some (conf\<lparr>conf_arguments := Some ws\<rparr>))"
proof -
  have "split_arguments (quote_words ws) = Some ws"
    by (simp add: split_arguments_def split_quote_words)
  then have "words_outcome lc None (split_arguments (quote_words ws)) = Some ws"
    using assms(2) append_words_all [OF assms(3,4), of None ws] by (simp add: words_outcome_def)
  then show ?thesis using arguments_split [OF c_string_quote_words [OF assms(1)]] by simp
qed

theorem arguments_roundtrip_witness:
  "daemon_conf_parse_general_arguments sample_libc daemon_conf_init ''arguments''
      (Some (quote_words [''sh'', ''-c'', ''echo hello'']))
    = Inr (Some (daemon_conf_init\<lparr>conf_arguments := Some [''sh'', ''-c'', ''echo hello'']\<rparr>))"
  by (rule arguments_roundtrip) (simp_all add: c_string_def NUL_def sample_libc_def)

text \<open>
  C21: Whatever the file, a configuration stays well formed: absolute paths, an argument vector
  and an environment that are not empty when they are there, signals, priority and mask in
  range, where the realtime signals of the C library form a range.
\<close>

theorem conf_invariant:
  assumes "rtsig_range lc" "conf_ok lc conf"
    and "daemon_conf_parse lc below conf lines = Inr (r, conf')"
  shows "conf_ok lc conf' \<and> (r = 0 \<longleftrightarrow> conf_path conf' \<noteq> None)"
proof -
  from assms(3) have p: "parse_lines lc below (Some (general_values lc)) conf lines = Inr conf'"
    "r = (if conf_path conf' = None then - 1 else 0)"
    by (auto simp: daemon_conf_parse_def result_iff split: if_splits)
  have "section_ok lc (general_values lc)" using sections_ok [OF assms(1)] by (simp add: sections_def)
  with p parse_lines_ok [OF assms(1) p(1) assms(2)] show ?thesis by simp
qed

theorem conf_invariant_witness:
  "conf_ok sample_libc (daemon_conf_init\<lparr>conf_path := Some ''/a''\<rparr>)
    \<and> ((0 :: int) = 0 \<longleftrightarrow> conf_path (daemon_conf_init\<lparr>conf_path := Some ''/a''\<rparr>) \<noteq> None)"
proof (rule conf_invariant [of sample_libc daemon_conf_init "Inl Out_of_bounds" "[''path=/a'']"])
  show "rtsig_range sample_libc" by (simp add: rtsig_range_def sample_libc_def)
  show "conf_ok sample_libc daemon_conf_init" by (rule conf_ok_init)
  have "list_all plain_line [''path=/a'']"
    by (simp add: plain_line_def c_string_def NUL_def blank_def isspace_def byte_def
      line_content_def trim_def rtrim_def)
  note meaning = parse_lines_meaning [OF this]
  show "daemon_conf_parse sample_libc (Inl Out_of_bounds) daemon_conf_init [''path=/a'']
      = Inr (0, daemon_conf_init\<lparr>conf_path := Some ''/a''\<rparr>)"
    unfolding daemon_conf_parse_def meaning
    by (simp add: line_content_def trim_def rtrim_def line_meaning_def
      isspace_def byte_def parse_value_def general_values_def daemon_conf_parse_general_path_def
      daemon_conf_path_def sample_libc_def)
qed

end
