(* ===== verification/Avl_Tree.thy ===== *)
theory Avl_Tree
  imports Prelude
begin

text \<open>
  The balanced tree of \<^verbatim>\<open>src/cyberd/tree.c\<close> and \<^verbatim>\<open>src/cyberd/tree.h\<close>, which stores daemons by
  name, spawned daemons by pid and socket nodes by file descriptor.
\<close>

section \<open>Nodes, heights and rotations\<close>

text \<open>
  \<^verbatim>\<open>struct tree_node\<close>: an element, the two children and the stored height. A node is owned by
  exactly one parent, so the tree is a value; the elements are pointers, kept abstract here.
  Heights are \<^verbatim>\<open>int\<close>s of C; they stay far below their bound (a tree of height 2^31 - 1 does
  not fit in memory), so they are mathematical integers.
\<close>

datatype 'a tree_node =
    NULL
  | Node 'a "'a tree_node" "'a tree_node" int

fun tree_node_height :: "'a tree_node \<Rightarrow> int" where
  "tree_node_height NULL = 0"
| "tree_node_height (Node x l r h) = h"

fun tree_node_balance :: "'a tree_node \<Rightarrow> int" where
  "tree_node_balance NULL = 0"
| "tree_node_balance (Node x l r h) = tree_node_height r - tree_node_height l"

text \<open>The access \<^verbatim>\<open>node->element\<close>.\<close>

fun tree_node_element :: "'a tree_node \<Rightarrow> 'a result" where
  "tree_node_element NULL = Inl Null_deref"
| "tree_node_element (Node x l r h) = Inr x"

fun tree_node_rotate_right :: "'a tree_node \<Rightarrow> 'a tree_node result" where
  "tree_node_rotate_right NULL = Inl Null_deref"
| "tree_node_rotate_right (Node x NULL r h) = Inl Null_deref"
| "tree_node_rotate_right (Node x (Node y a b h2) r h) =
     (let node = Node x b r (max (tree_node_height b) (tree_node_height r) + 1)
      in Inr (Node y a node (max (tree_node_height a) (tree_node_height node) + 1)))"

fun tree_node_rotate_left :: "'a tree_node \<Rightarrow> 'a tree_node result" where
  "tree_node_rotate_left NULL = Inl Null_deref"
| "tree_node_rotate_left (Node x l NULL h) = Inl Null_deref"
| "tree_node_rotate_left (Node x l (Node y a b h2) h) =
     (let node = Node x l a (max (tree_node_height l) (tree_node_height a) + 1)
      in Inr (Node y node b (max (tree_node_height b) (tree_node_height node) + 1)))"

fun tree_node_rotate_left_right :: "'a tree_node \<Rightarrow> 'a tree_node result" where
  "tree_node_rotate_left_right NULL = Inl Null_deref"
| "tree_node_rotate_left_right (Node x l r h) =
     rbind (tree_node_rotate_left l) (\<lambda>l'. tree_node_rotate_right (Node x l' r h))"

fun tree_node_rotate_right_left :: "'a tree_node \<Rightarrow> 'a tree_node result" where
  "tree_node_rotate_right_left NULL = Inl Null_deref"
| "tree_node_rotate_right_left (Node x l r h) =
     rbind (tree_node_rotate_right r) (\<lambda>r'. tree_node_rotate_left (Node x l r' h))"

section \<open>Insertion\<close>

text \<open>The statement \<^verbatim>\<open>root->height = max(height(left), height(right)) + 1\<close>.\<close>

fun tree_node_update_height :: "'a tree_node \<Rightarrow> 'a tree_node result" where
  "tree_node_update_height NULL = Inl Null_deref"
| "tree_node_update_height (Node x l r h) =
     Inr (Node x l r (max (tree_node_height l) (tree_node_height r) + 1))"

text \<open>
  The comparison callback reads the two elements in memory, so it may fault itself. The node to
  insert is the third argument, as \<^verbatim>\<open>tree_node_create\<close> made it.
\<close>

type_synonym 'a compare = "'a \<Rightarrow> 'a \<Rightarrow> int result"

fun tree_node_insert :: "'a compare \<Rightarrow> 'a tree_node \<Rightarrow> 'a tree_node \<Rightarrow> 'a tree_node result" where
  "tree_node_insert compare NULL node = Inr node"
| "tree_node_insert compare (Node x l r h) node =
     rbind (tree_node_element node) (\<lambda>e.
     rbind (compare e x) (\<lambda>comparison.
     rbind
       (if comparison < 0 then
          rbind (tree_node_insert compare l node) (\<lambda>l'.
            if tree_node_balance (Node x l' r h) = - 2 then
              rbind (tree_node_element l') (\<lambda>y. rbind (compare e y) (\<lambda>c.
                if c < 0 then tree_node_rotate_right (Node x l' r h)
                else tree_node_rotate_left_right (Node x l' r h)))
            else Inr (Node x l' r h))
        else if comparison > 0 then
          rbind (tree_node_insert compare r node) (\<lambda>r'.
            if tree_node_balance (Node x l r' h) = 2 then
              rbind (tree_node_element r') (\<lambda>y. rbind (compare e y) (\<lambda>c.
                if c > 0 then tree_node_rotate_left (Node x l r' h)
                else tree_node_rotate_right_left (Node x l r' h)))
            else Inr (Node x l r' h))
        else Inl Abort)
       tree_node_update_height))"

definition tree_node_create :: "'a \<Rightarrow> 'a tree_node" where
  "tree_node_create e = Node e NULL NULL 1"

definition tree_insert :: "'a compare \<Rightarrow> 'a tree_node \<Rightarrow> 'a \<Rightarrow> 'a tree_node result" where
  "tree_insert compare root e = tree_node_insert compare root (tree_node_create e)"

section \<open>Removal\<close>

text \<open>The loop \<^verbatim>\<open>while (successor->left != NULL) successor = successor->left\<close>.\<close>

fun tree_node_leftmost :: "'a tree_node \<Rightarrow> 'a result" where
  "tree_node_leftmost NULL = Inl Null_deref"
| "tree_node_leftmost (Node x NULL r h) = Inr x"
| "tree_node_leftmost (Node x (Node y a b h2) r h) = tree_node_leftmost (Node y a b h2)"

text \<open>The second half of \<^verbatim>\<open>tree_node_remove\<close>: the assertions, the height and the rotations.\<close>

fun tree_node_rebalance :: "'a tree_node \<Rightarrow> 'a tree_node result" where
  "tree_node_rebalance NULL = Inr NULL"
| "tree_node_rebalance (Node x l r h) =
     (let height_left = tree_node_height l; height_right = tree_node_height r;
          balance = height_right - height_left;
          root = Node x l r (max height_left height_right + 1)
      in if \<not> (l \<noteq> NULL \<or> balance \<ge> 0) then Inl Assert_failed
         else if \<not> (r \<noteq> NULL \<or> balance \<le> 0) then Inl Assert_failed
         else if balance > 1 then
           (if tree_node_balance r \<ge> 0 then tree_node_rotate_left root
            else tree_node_rotate_right_left root)
         else if balance < - 1 then
           (if tree_node_balance l \<le> 0 then tree_node_rotate_right root
            else tree_node_rotate_left_right root)
         else Inr root)"

text \<open>Returns the new root and the detached node, \<^verbatim>\<open>NULL\<close> if no element compares equal.\<close>

fun tree_node_remove ::
  "'a compare \<Rightarrow> 'a tree_node \<Rightarrow> 'a \<Rightarrow> ('a tree_node \<times> 'a tree_node) result" where
  "tree_node_remove compare NULL e = Inr (NULL, NULL)"
| "tree_node_remove compare (Node x l r h) e =
     rbind (compare e x) (\<lambda>comparison.
     rbind
       (if comparison < 0 then
          rbind (tree_node_remove compare l e) (\<lambda>(l', removed). Inr (Node x l' r h, removed))
        else if comparison > 0 then
          rbind (tree_node_remove compare r e) (\<lambda>(r', removed). Inr (Node x l r' h, removed))
        else
          rbind
            (if l \<noteq> NULL \<and> r \<noteq> NULL then
               rbind (tree_node_leftmost r) (\<lambda>s.
               rbind (tree_node_remove compare r s) (\<lambda>(r', successor).
                 case successor of
                   NULL \<Rightarrow> Inl Null_deref
                 | Node y a b h' \<Rightarrow> Inr (Node y l r' h')))
             else if l = NULL then Inr r
             else Inr l)
            (\<lambda>root. Inr (root, Node x NULL NULL 1)))
       (\<lambda>(root, removed). rbind (tree_node_rebalance root) (\<lambda>root'. Inr (root', removed))))"

text \<open>The nodes \<^verbatim>\<open>tree_node_destroy\<close> frees, in the order of the calls of \<^verbatim>\<open>free(3)\<close>.\<close>

fun tree_node_destroy :: "'a tree_node \<Rightarrow> 'a tree_node list" where
  "tree_node_destroy NULL = []"
| "tree_node_destroy (Node x l r h) =
     tree_node_destroy l @ tree_node_destroy r @ [Node x l r h]"

definition tree_remove ::
  "'a compare \<Rightarrow> 'a tree_node \<Rightarrow> 'a \<Rightarrow> ('a tree_node \<times> 'a option) result" where
  "tree_remove compare root e =
     rbind (tree_node_remove compare root e) (\<lambda>(root', node).
       case node of
         NULL \<Rightarrow> Inr (root', None)
       | Node x l r h \<Rightarrow> Inr (root', Some x))"

section \<open>Lookup and traversal\<close>

fun tree_find :: "'a compare \<Rightarrow> 'a tree_node \<Rightarrow> 'a \<Rightarrow> 'a option result" where
  "tree_find compare NULL e = Inr None"
| "tree_find compare (Node x l r h) e =
     rbind (compare e x) (\<lambda>comparison.
       if comparison = 0 then Inr (Some x)
       else if comparison < 0 then tree_find compare l e
       else tree_find compare r e)"

fun tree_last :: "'a tree_node \<Rightarrow> 'a option" where
  "tree_last NULL = None"
| "tree_last (Node x l NULL h) = Some x"
| "tree_last (Node x l (Node y a b h2) h) = tree_last (Node y a b h2)"

fun tree_node_preorder_mutate ::
  "('a \<Rightarrow> 's \<Rightarrow> 's result) \<Rightarrow> 'a tree_node \<Rightarrow> 's \<Rightarrow> 's result" where
  "tree_node_preorder_mutate mutate NULL s = Inr s"
| "tree_node_preorder_mutate mutate (Node x l r h) s =
     rbind (mutate x s) (\<lambda>s.
     rbind (tree_node_preorder_mutate mutate l s) (tree_node_preorder_mutate mutate r))"

definition tree_mutate :: "'a tree_node \<Rightarrow> ('a \<Rightarrow> 's \<Rightarrow> 's result) \<Rightarrow> 's \<Rightarrow> 's result" where
  [simp]: "tree_mutate root mutate = tree_node_preorder_mutate mutate root"

definition tree_deinit :: "'a tree_node \<Rightarrow> 'a tree_node list" where
  "tree_deinit root = tree_node_destroy root"

section \<open>Shape: the AVL invariant\<close>

text \<open>What a tree holds, in order, and in the order of the preorder traversal.\<close>

fun tree_inorder :: "'a tree_node \<Rightarrow> 'a list" where
  "tree_inorder NULL = []"
| "tree_inorder (Node x l r h) = tree_inorder l @ x # tree_inorder r"

fun tree_preorder :: "'a tree_node \<Rightarrow> 'a list" where
  "tree_preorder NULL = []"
| "tree_preorder (Node x l r h) = x # tree_preorder l @ tree_preorder r"

text \<open>
  The stored height of every node is its real height, and the heights of two siblings differ by
  at most one.
\<close>

fun tree_depth :: "'a tree_node \<Rightarrow> int" where
  "tree_depth NULL = 0"
| "tree_depth (Node x l r h) = max (tree_depth l) (tree_depth r) + 1"

fun avl :: "'a tree_node \<Rightarrow> bool" where
  "avl NULL = True"
| "avl (Node x l r h) =
     (avl l \<and> avl r \<and> h = max (tree_depth l) (tree_depth r) + 1
      \<and> \<bar>tree_depth r - tree_depth l\<bar> \<le> 1)"

lemma set_tree_inorder: "set (tree_inorder t) = set_tree_node t"
  by (induction t) auto

lemma set_tree_preorder: "set (tree_preorder t) = set_tree_node t"
  by (induction t) auto

lemma tree_depth_nonneg: "0 \<le> tree_depth t"
  by (induction t) auto

lemma tree_depth_eq_0 [simp]: "tree_depth t = 0 \<longleftrightarrow> t = NULL"
proof (cases t)
  case (Node x l r h)
  have "0 \<le> max (tree_depth l) (tree_depth r)" by (simp add: le_max_iff_disj tree_depth_nonneg)
  then have "max (tree_depth l) (tree_depth r) + 1 \<noteq> 0" by linarith
  with Node show ?thesis by simp
qed simp

lemma tree_depth_pos: "t \<noteq> NULL \<Longrightarrow> 0 < tree_depth t"
  by (metis tree_depth_eq_0 tree_depth_nonneg less_le)

lemma avl_height [simp]: "avl t \<Longrightarrow> tree_node_height t = tree_depth t"
  by (cases t) auto

text \<open>A rotation never changes the sequence of the elements.\<close>

lemma rotate_right_inorder:
  "tree_node_rotate_right t = Inr t' \<Longrightarrow> tree_inorder t' = tree_inorder t"
  by (cases t rule: tree_node_rotate_right.cases) (auto simp: Let_def)

lemma rotate_left_inorder:
  "tree_node_rotate_left t = Inr t' \<Longrightarrow> tree_inorder t' = tree_inorder t"
  by (cases t rule: tree_node_rotate_left.cases) (auto simp: Let_def)

lemma rotate_left_right_inorder:
  "tree_node_rotate_left_right t = Inr t' \<Longrightarrow> tree_inorder t' = tree_inorder t"
  by (cases t) (auto simp: result_iff dest!: rotate_left_inorder rotate_right_inorder)

lemma rotate_right_left_inorder:
  "tree_node_rotate_right_left t = Inr t' \<Longrightarrow> tree_inorder t' = tree_inorder t"
  by (cases t) (auto simp: result_iff dest!: rotate_left_inorder rotate_right_inorder)

lemma update_height_inorder:
  "tree_node_update_height t = Inr t' \<Longrightarrow> tree_inorder t' = tree_inorder t"
  by (cases t) auto

lemmas rotate_inorder =
  rotate_right_inorder rotate_left_inorder rotate_left_right_inorder rotate_right_left_inorder
  update_height_inorder

lemma rebalance_inorder:
  "tree_node_rebalance t = Inr t' \<Longrightarrow> tree_inorder t' = tree_inorder t"
  by (cases t)
    (auto simp: Let_def dest: rotate_inorder split: if_splits
      simp del: tree_node_rotate_left_right.simps tree_node_rotate_right_left.simps)

text \<open>
  After the removal of a node from one side the children may differ by two: the second half of
  \<^verbatim>\<open>tree_node_remove\<close> then rotates, never dereferences a null pointer, never fails an
  assertion and gives a balanced tree again, at most one level lower.
\<close>

lemma rebalance_right_heavy:
  assumes "avl l" "avl r" "tree_depth r = tree_depth l + 2"
  shows "\<exists>t. tree_node_rebalance (Node x l r h) = Inr t \<and> avl t
    \<and> tree_depth t \<in> {tree_depth r, tree_depth r + 1}"
proof -
  obtain y a b h2 where r: "r = Node y a b h2"
    using assms(3) tree_depth_nonneg [of l] by (cases r) auto
  show ?thesis
  proof (cases "tree_depth b \<ge> tree_depth a")
    case True
    then show ?thesis using assms r by (auto simp: Let_def)
  next
    case False
    then obtain z a1 a2 h3 where a: "a = Node z a1 a2 h3"
      using tree_depth_nonneg [of b] by (cases a) auto
    show ?thesis using False assms r a by (auto simp: Let_def)
  qed
qed

lemma rebalance_left_heavy:
  assumes "avl l" "avl r" "tree_depth l = tree_depth r + 2"
  shows "\<exists>t. tree_node_rebalance (Node x l r h) = Inr t \<and> avl t
    \<and> tree_depth t \<in> {tree_depth l, tree_depth l + 1}"
proof -
  obtain y a b h2 where l: "l = Node y a b h2"
    using assms(3) tree_depth_nonneg [of r] by (cases l) auto
  show ?thesis
  proof (cases "tree_depth a \<ge> tree_depth b")
    case True
    then show ?thesis using assms l by (auto simp: Let_def)
  next
    case False
    then obtain z b1 b2 h3 where b: "b = Node z b1 b2 h3"
      using tree_depth_nonneg [of a] by (cases b) auto
    show ?thesis using False assms l b by (auto simp: Let_def)
  qed
qed

lemma rebalance_balanced:
  assumes "avl l" "avl r" "\<bar>tree_depth r - tree_depth l\<bar> \<le> 1"
  shows "tree_node_rebalance (Node x l r h)
    = Inr (Node x l r (max (tree_depth l) (tree_depth r) + 1))"
  using assms tree_depth_nonneg [of l] tree_depth_nonneg [of r]
  by (auto simp: Let_def)

lemma rebalance_avl: "avl t \<Longrightarrow> tree_node_rebalance t = Inr t"
  by (cases t) (auto simp: rebalance_balanced simp del: tree_node_rebalance.simps(2))

text \<open>
  The summary used below: if before the removal the children were balanced and one of them lost
  at most one level, rebalancing succeeds and the whole loses at most one level.
\<close>

definition shrinks :: "'a tree_node \<Rightarrow> 'a tree_node \<Rightarrow> bool" where
  "shrinks t t' \<longleftrightarrow> avl t' \<and> tree_depth t' \<in> {tree_depth t - 1, tree_depth t}"

lemma rebalance_shrinks:
  assumes "avl (Node x l r h)" and "shrinks l l'" and "r' = r \<or> shrinks r r' \<and> l' = l"
  shows "\<exists>t. tree_node_rebalance (Node y l' r' h') = Inr t \<and> avl t
    \<and> tree_depth t \<in> {tree_depth (Node x l r h) - 1, tree_depth (Node x l r h)}"
proof -
  have l: "avl l'" and r: "avl r'" using assms by (auto simp: shrinks_def)
  have "\<bar>tree_depth r' - tree_depth l'\<bar> \<le> 1 \<or> tree_depth r' = tree_depth l' + 2
      \<or> tree_depth l' = tree_depth r' + 2"
    using assms by (auto simp: shrinks_def)
  then consider "\<bar>tree_depth r' - tree_depth l'\<bar> \<le> 1" | "tree_depth r' = tree_depth l' + 2"
    | "tree_depth l' = tree_depth r' + 2"
    by blast
  then show ?thesis
  proof cases
    case 1
    from rebalance_balanced [OF l r this, of y h'] show ?thesis
      using assms 1 l r by (auto simp: shrinks_def)
  next
    case 2
    from rebalance_right_heavy [OF l r this, of y h'] show ?thesis
      using assms 2 by (auto simp: shrinks_def)
  next
    case 3
    from rebalance_left_heavy [OF l r this, of y h'] show ?thesis
      using assms 3 by (auto simp: shrinks_def)
  qed
qed

section \<open>Order: what the comparison callback has to promise\<close>

text \<open>
  The clients index elements by a key (a name, a pid, a file descriptor) and give a comparison
  which orders the elements of a carrier set by that key, without faulting.
\<close>

locale compare_order =
  fixes compare :: "'a compare"
    and key :: "'a \<Rightarrow> 'k::linorder"
    and carrier :: "'a set"
  assumes compare_less:
      "x \<in> carrier \<Longrightarrow> y \<in> carrier \<Longrightarrow> key x < key y \<Longrightarrow> \<exists>c < 0. compare x y = Inr c"
    and compare_equal:
      "x \<in> carrier \<Longrightarrow> y \<in> carrier \<Longrightarrow> key x = key y \<Longrightarrow> compare x y = Inr 0"
    and compare_greater:
      "x \<in> carrier \<Longrightarrow> y \<in> carrier \<Longrightarrow> key y < key x \<Longrightarrow> \<exists>c > 0. compare x y = Inr c"
begin

lemma compare_cases:
  assumes "x \<in> carrier" "y \<in> carrier"
  obtains c where "compare x y = Inr c" "c < 0" "key x < key y"
  | "compare x y = Inr 0" "key x = key y"
  | c where "compare x y = Inr c" "0 < c" "key y < key x"
  using compare_less [OF assms] compare_equal [OF assms] compare_greater [OF assms]
  by (metis linorder_less_linear)

end

text \<open>The trees of a client: balanced, over the carrier, sorted by strictly increasing keys.\<close>

definition ordered_by :: "('a \<Rightarrow> 'k::linorder) \<Rightarrow> 'a set \<Rightarrow> 'a tree_node \<Rightarrow> bool" where
  "ordered_by key carrier t \<longleftrightarrow>
     set_tree_node t \<subseteq> carrier \<and> sorted_wrt (<) (map key (tree_inorder t))"

lemma ordered_by_NULL [simp]: "ordered_by key carrier NULL"
  by (simp add: ordered_by_def)

lemma ordered_by_Node [simp]:
  "ordered_by key carrier (Node x l r h) \<longleftrightarrow>
     x \<in> carrier \<and> ordered_by key carrier l \<and> ordered_by key carrier r
     \<and> (\<forall>y \<in> set_tree_node l. key y < key x) \<and> (\<forall>y \<in> set_tree_node r. key x < key y)"
  by (force simp: ordered_by_def sorted_wrt_append set_tree_inorder)

lemma ordered_by_inj:
  assumes "ordered_by key carrier t" "x \<in> set_tree_node t" "y \<in> set_tree_node t" "key x = key y"
  shows "x = y"
proof -
  have "distinct (map key (tree_inorder t))"
    using assms(1) by (simp add: ordered_by_def strict_sorted_iff)
  with assms(2-4) show ?thesis
    by (auto simp: distinct_map inj_on_def set_tree_inorder)
qed

lemma ordered_by_inorder_cong:
  "tree_inorder t' = tree_inorder t \<Longrightarrow> ordered_by key carrier t' \<longleftrightarrow> ordered_by key carrier t"
  by (simp add: ordered_by_def flip: set_tree_inorder)

text \<open>The abstraction: a finite map from keys to elements.\<close>

definition tree_map :: "('a \<Rightarrow> 'k) \<Rightarrow> 'a tree_node \<Rightarrow> 'k \<rightharpoonup> 'a" where
  "tree_map key t = map_of (map (\<lambda>x. (key x, x)) (tree_inorder t))"

section \<open>Insertion is correct\<close>

text \<open>
  The shape of a subtree after an insertion of \<open>e\<close>: it keeps its height, or it grows by one
  level and then leans to the side \<open>e\<close> went to.
\<close>

definition grows :: "('a \<Rightarrow> 'k::linorder) \<Rightarrow> 'a \<Rightarrow> 'a tree_node \<Rightarrow> 'a tree_node \<Rightarrow> bool" where
  "grows key e t t' \<longleftrightarrow> avl t' \<and>
     (tree_depth t' = tree_depth t \<or>
      tree_depth t' = tree_depth t + 1 \<and>
        (t = NULL \<or> (\<exists>y a b h. t' = Node y a b h \<and>
           (key e < key y \<and> tree_depth a = tree_depth b + 1 \<or>
            key y < key e \<and> tree_depth b = tree_depth a + 1))))"

lemma grows_avl: "grows key e t t' \<Longrightarrow> avl t'"
  by (simp add: grows_def)

text \<open>The four repairs, each followed by the update of the height at the end of the function.\<close>

lemma repair_left_left:
  assumes "avl (Node y a b h2)" "avl r" "tree_depth a = tree_depth b + 1"
    "tree_depth (Node y a b h2) = tree_depth r + 2"
  shows "\<exists>t. rbind (tree_node_rotate_right (Node x (Node y a b h2) r h)) tree_node_update_height
    = Inr t \<and> avl t \<and> tree_depth t = tree_depth r + 2"
  using assms by (auto simp: Let_def)

lemma repair_left_right:
  assumes "avl (Node y a b h2)" "avl r" "tree_depth b = tree_depth a + 1"
    "tree_depth (Node y a b h2) = tree_depth r + 2"
  shows "\<exists>t. rbind (tree_node_rotate_left_right (Node x (Node y a b h2) r h)) tree_node_update_height
    = Inr t \<and> avl t \<and> tree_depth t = tree_depth r + 2"
proof -
  obtain z b1 b2 h3 where "b = Node z b1 b2 h3"
    using assms(3) tree_depth_nonneg [of a] by (cases b) auto
  with assms show ?thesis by (auto simp: Let_def)
qed

lemma repair_right_right:
  assumes "avl (Node y a b h2)" "avl l" "tree_depth b = tree_depth a + 1"
    "tree_depth (Node y a b h2) = tree_depth l + 2"
  shows "\<exists>t. rbind (tree_node_rotate_left (Node x l (Node y a b h2) h)) tree_node_update_height
    = Inr t \<and> avl t \<and> tree_depth t = tree_depth l + 2"
  using assms by (auto simp: Let_def)

lemma repair_right_left:
  assumes "avl (Node y a b h2)" "avl l" "tree_depth a = tree_depth b + 1"
    "tree_depth (Node y a b h2) = tree_depth l + 2"
  shows "\<exists>t. rbind (tree_node_rotate_right_left (Node x l (Node y a b h2) h)) tree_node_update_height
    = Inr t \<and> avl t \<and> tree_depth t = tree_depth l + 2"
proof -
  obtain z a1 a2 h3 where "a = Node z a1 a2 h3"
    using assms(3) tree_depth_nonneg [of b] by (cases a) auto
  with assms show ?thesis by (auto simp: Let_def)
qed

text \<open>No repair is needed: only the height is updated.\<close>

lemma no_repair:
  assumes "avl l" "avl r" "\<bar>tree_depth r - tree_depth l\<bar> \<le> 1"
  shows "\<exists>t. tree_node_update_height (Node x l r h) = Inr t \<and> avl t
    \<and> t = Node x l r (max (tree_depth l) (tree_depth r) + 1)"
  using assms by simp

lemma too_deep_grew:
  assumes "grows key e t t'" "tree_depth t' \<ge> tree_depth s + 2" "tree_depth t \<le> tree_depth s + 1"
  obtains y a b h where "t' = Node y a b h" "tree_depth t' = tree_depth s + 2"
    "key e < key y \<and> tree_depth a = tree_depth b + 1
      \<or> key y < key e \<and> tree_depth b = tree_depth a + 1"
proof -
  have "tree_depth t' \<noteq> 1" using assms(2) tree_depth_nonneg [of s] by linarith
  then have "t \<noteq> NULL" using assms tree_depth_nonneg [of s] by (auto simp: grows_def)
  with assms that show ?thesis by (auto simp: grows_def)
qed

lemma repair_inorder:
  "rbind (tree_node_rotate_right t) tree_node_update_height = Inr t' \<Longrightarrow>
     tree_inorder t' = tree_inorder t"
  "rbind (tree_node_rotate_left t) tree_node_update_height = Inr t' \<Longrightarrow>
     tree_inorder t' = tree_inorder t"
  "rbind (tree_node_rotate_left_right t) tree_node_update_height = Inr t' \<Longrightarrow>
     tree_inorder t' = tree_inorder t"
  "rbind (tree_node_rotate_right_left t) tree_node_update_height = Inr t' \<Longrightarrow>
     tree_inorder t' = tree_inorder t"
  by (auto simp: result_iff) (metis rotate_inorder)+

context compare_order
begin

lemma insert_left_case:
  assumes t: "avl (Node x l r h)" and g: "grows key e l l'" and e: "e \<in> carrier" "key e < key x"
    and l': "set_tree_node l' \<subseteq> carrier"
  shows "\<exists>t'. rbind
       (if tree_node_balance (Node x l' r h) = - 2 then
          rbind (tree_node_element l') (\<lambda>y. rbind (compare e y) (\<lambda>c.
            if c < 0 then tree_node_rotate_right (Node x l' r h)
            else tree_node_rotate_left_right (Node x l' r h)))
        else Inr (Node x l' r h)) tree_node_update_height = Inr t'
     \<and> grows key e (Node x l r h) t' \<and> tree_inorder t' = tree_inorder (Node x l' r h)"
proof (cases "tree_depth l' \<ge> tree_depth r + 2")
  case True
  from t g have avls: "avl l'" "avl r" by (auto simp: grows_def)
  from t have "tree_depth l \<le> tree_depth r + 1" by auto
  from too_deep_grew [OF g True this] obtain y a b h2 where
    y: "l' = Node y a b h2" "tree_depth l' = tree_depth r + 2" and
    side: "key e < key y \<and> tree_depth a = tree_depth b + 1
      \<or> key y < key e \<and> tree_depth b = tree_depth a + 1" .
  have depth: "tree_depth (Node x l r h) = tree_depth r + 2"
    using t y(2) g \<open>tree_depth l \<le> tree_depth r + 1\<close>
    by (auto simp: grows_def simp del: tree_depth_eq_0)
  have bal: "tree_node_balance (Node x l' r h) = - 2" using avls y(2) by simp
  have el: "tree_node_element l' = Inr y" using y(1) by simp
  have "y \<in> carrier" using l' y(1) by simp
  from side show ?thesis
  proof
    assume lt: "key e < key y \<and> tree_depth a = tree_depth b + 1"
    with compare_less [OF e(1) \<open>y \<in> carrier\<close>] obtain c where c: "compare e y = Inr c" "c < 0"
      by auto
    obtain t' where t': "rbind (tree_node_rotate_right (Node x l' r h)) tree_node_update_height = Inr t'"
        "avl t'" "tree_depth t' = tree_depth r + 2"
      using repair_left_left [of y a b h2 r x h] avls y lt by auto
    from repair_inorder(1) [OF t'(1)] t' c bal depth el show ?thesis
      by (simp add: grows_def del: tree_node_rotate_right.simps tree_node_balance.simps tree_inorder.simps
        tree_depth.simps)
  next
    assume gt: "key y < key e \<and> tree_depth b = tree_depth a + 1"
    with compare_greater [OF e(1) \<open>y \<in> carrier\<close>] obtain c where c: "compare e y = Inr c" "0 < c"
      by auto
    obtain t' where t': "rbind (tree_node_rotate_left_right (Node x l' r h)) tree_node_update_height = Inr t'"
        "avl t'" "tree_depth t' = tree_depth r + 2"
      using repair_left_right [of y a b h2 r x h] avls y gt by auto
    from repair_inorder(3) [OF t'(1)] t' c bal depth el show ?thesis
      by (simp add: grows_def del: tree_node_rotate_left_right.simps tree_node_balance.simps tree_inorder.simps
        tree_depth.simps)
  qed
next
  case False
  have avls: "avl l'" "avl r" using t g by (auto simp: grows_def)
  have near: "\<bar>tree_depth r - tree_depth l'\<bar> \<le> 1"
    using False t g by (auto simp: grows_def)
  have "tree_node_balance (Node x l' r h) \<noteq> - 2" using avls False by auto
  moreover have "grows key e (Node x l r h) (Node x l' r (max (tree_depth l') (tree_depth r) + 1))"
    using near avls t g e(2) tree_depth_pos [of l] tree_depth_pos [of r]
    by (cases "l = NULL"; cases "r = NULL"; auto simp: grows_def)
  ultimately show ?thesis using no_repair [OF avls near, of x h] by auto
qed

lemma insert_right_case:
  assumes t: "avl (Node x l r h)" and g: "grows key e r r'" and e: "e \<in> carrier" "key x < key e"
    and r': "set_tree_node r' \<subseteq> carrier"
  shows "\<exists>t'. rbind
       (if tree_node_balance (Node x l r' h) = 2 then
          rbind (tree_node_element r') (\<lambda>y. rbind (compare e y) (\<lambda>c.
            if c > 0 then tree_node_rotate_left (Node x l r' h)
            else tree_node_rotate_right_left (Node x l r' h)))
        else Inr (Node x l r' h)) tree_node_update_height = Inr t'
     \<and> grows key e (Node x l r h) t' \<and> tree_inorder t' = tree_inorder (Node x l r' h)"
proof (cases "tree_depth r' \<ge> tree_depth l + 2")
  case True
  from t g have avls: "avl r'" "avl l" by (auto simp: grows_def)
  from t have "tree_depth r \<le> tree_depth l + 1" by auto
  from too_deep_grew [OF g True this] obtain y a b h2 where
    y: "r' = Node y a b h2" "tree_depth r' = tree_depth l + 2" and
    side: "key e < key y \<and> tree_depth a = tree_depth b + 1
      \<or> key y < key e \<and> tree_depth b = tree_depth a + 1" .
  have depth: "tree_depth (Node x l r h) = tree_depth l + 2"
    using t y(2) g \<open>tree_depth r \<le> tree_depth l + 1\<close>
    by (auto simp: grows_def simp del: tree_depth_eq_0)
  have bal: "tree_node_balance (Node x l r' h) = 2" using avls y(2) by simp
  have el: "tree_node_element r' = Inr y" using y(1) by simp
  have "y \<in> carrier" using r' y(1) by simp
  from side show ?thesis
  proof
    assume lt: "key e < key y \<and> tree_depth a = tree_depth b + 1"
    with compare_less [OF e(1) \<open>y \<in> carrier\<close>] obtain c where c: "compare e y = Inr c" "c < 0"
      by auto
    obtain t' where t': "rbind (tree_node_rotate_right_left (Node x l r' h)) tree_node_update_height = Inr t'"
        "avl t'" "tree_depth t' = tree_depth l + 2"
      using repair_right_left [of y a b h2 l x h] avls y lt by auto
    from repair_inorder(4) [OF t'(1)] t' c bal depth el show ?thesis
      by (simp add: grows_def del: tree_node_rotate_right_left.simps tree_node_balance.simps tree_inorder.simps
        tree_depth.simps)
  next
    assume gt: "key y < key e \<and> tree_depth b = tree_depth a + 1"
    with compare_greater [OF e(1) \<open>y \<in> carrier\<close>] obtain c where c: "compare e y = Inr c" "0 < c"
      by auto
    obtain t' where t': "rbind (tree_node_rotate_left (Node x l r' h)) tree_node_update_height = Inr t'"
        "avl t'" "tree_depth t' = tree_depth l + 2"
      using repair_right_right [of y a b h2 l x h] avls y gt by auto
    from repair_inorder(2) [OF t'(1)] t' c bal depth el show ?thesis
      by (simp add: grows_def del: tree_node_rotate_left.simps tree_node_balance.simps tree_inorder.simps
        tree_depth.simps)
  qed
next
  case False
  have avls: "avl l" "avl r'" using t g by (auto simp: grows_def)
  have near: "\<bar>tree_depth r' - tree_depth l\<bar> \<le> 1"
    using False t g by (auto simp: grows_def)
  have "tree_node_balance (Node x l r' h) \<noteq> 2" using avls False by auto
  moreover have "grows key e (Node x l r h) (Node x l r' (max (tree_depth l) (tree_depth r') + 1))"
    using near avls t g e(2) tree_depth_pos [of l] tree_depth_pos [of r]
    by (cases "l = NULL"; cases "r = NULL"; auto simp: grows_def)
  ultimately show ?thesis using no_repair [OF avls near, of x h] by auto
qed

lemma insert_grows:
  assumes "avl t" "ordered_by key carrier t" "e \<in> carrier" "key e \<notin> key ` set_tree_node t"
  shows "\<exists>t'. tree_node_insert compare t (tree_node_create e) = Inr t' \<and> grows key e t t'
    \<and> set_tree_node t' = insert e (set_tree_node t) \<and> ordered_by key carrier t'"
  using assms(1,2,4)
proof (induction t)
  case NULL
  then show ?case using assms(3) by (simp add: tree_node_create_def grows_def)
next
  case (Node x l r h)
  have x: "x \<in> carrier" using Node.prems by simp
  show ?case
  proof (cases rule: compare_cases [OF assms(3) x])
    case (1 c)
    from Node.IH(1) Node.prems obtain l' where
      l': "tree_node_insert compare l (tree_node_create e) = Inr l'" "grows key e l l'"
        "set_tree_node l' = insert e (set_tree_node l)" "ordered_by key carrier l'" by auto
    have sub: "set_tree_node l' \<subseteq> carrier" using l'(4) by (simp add: ordered_by_def)
    from insert_left_case [OF Node.prems(1) l'(2) assms(3) 1(3) sub] obtain t' where
      t': "tree_node_insert compare (Node x l r h) (tree_node_create e) = Inr t'"
        "grows key e (Node x l r h) t'" "tree_inorder t' = tree_inorder (Node x l' r h)"
      using 1 l'(1) by (auto simp: tree_node_create_def)
    have "ordered_by key carrier (Node x l' r h)" using Node.prems l' 1(3) by auto
    with t' l'(3) show ?thesis
      by (auto simp: ordered_by_inorder_cong [OF t'(3)] simp flip: set_tree_inorder)
  next
    case 2
    then show ?thesis using Node.prems(3) by simp
  next
    case (3 c)
    from Node.IH(2) Node.prems obtain r' where
      r': "tree_node_insert compare r (tree_node_create e) = Inr r'" "grows key e r r'"
        "set_tree_node r' = insert e (set_tree_node r)" "ordered_by key carrier r'" by auto
    have sub: "set_tree_node r' \<subseteq> carrier" using r'(4) by (simp add: ordered_by_def)
    from insert_right_case [OF Node.prems(1) r'(2) assms(3) 3(3) sub] obtain t' where
      t': "tree_node_insert compare (Node x l r h) (tree_node_create e) = Inr t'"
        "grows key e (Node x l r h) t'" "tree_inorder t' = tree_inorder (Node x l r' h)"
      using 3 r'(1) by (auto simp: tree_node_create_def)
    have "ordered_by key carrier (Node x l r' h)" using Node.prems r' 3(3) by auto
    with t' r'(3) show ?thesis
      by (auto simp: ordered_by_inorder_cong [OF t'(3)] simp flip: set_tree_inorder)
  qed
qed

text \<open>A second element with the same key reaches the \<^verbatim>\<open>abort()\<close>.\<close>

lemma insert_duplicate:
  assumes "ordered_by key carrier t" "e \<in> carrier" "key e \<in> key ` set_tree_node t"
  shows "tree_node_insert compare t (tree_node_create e) = Inl Abort"
  using assms(1,3)
proof (induction t)
  case (Node x l r h)
  have x: "x \<in> carrier" using Node.prems by simp
  show ?case
  proof (cases rule: compare_cases [OF assms(2) x])
    case (1 c)
    with Node.prems have "key e \<in> key ` set_tree_node l" by fastforce
    with Node 1 show ?thesis by (simp add: tree_node_create_def)
  next
    case 2
    then show ?thesis by (simp add: tree_node_create_def)
  next
    case (3 c)
    with Node.prems have "key e \<in> key ` set_tree_node r" by fastforce
    with Node 3 show ?thesis by (simp add: tree_node_create_def)
  qed
qed simp

end

section \<open>Removal is correct\<close>

lemma leftmost_hd: "t \<noteq> NULL \<Longrightarrow> tree_node_leftmost t = Inr (hd (tree_inorder t))"
  by (induction t rule: tree_node_leftmost.induct) (auto simp: hd_append)

text \<open>
  What \<^verbatim>\<open>tree_node_remove\<close> leaves: the same sequence without the elements of that key, one
  level lower at most, and the detached node with its links and its height reset.
\<close>

definition removal ::
  "('a \<Rightarrow> 'k::linorder) \<Rightarrow> 'a \<Rightarrow> 'a tree_node \<Rightarrow> 'a tree_node \<Rightarrow> 'a tree_node \<Rightarrow> bool" where
  "removal key e t t' node \<longleftrightarrow> shrinks t t'
     \<and> tree_inorder t' = filter (\<lambda>y. key y \<noteq> key e) (tree_inorder t)
     \<and> (case node of
          NULL \<Rightarrow> key e \<notin> key ` set_tree_node t
        | Node x a b h \<Rightarrow>
            x \<in> set_tree_node t \<and> key x = key e \<and> a = NULL \<and> b = NULL \<and> h = 1)"

lemma shrinks_refl: "avl t \<Longrightarrow> shrinks t t"
  by (simp add: shrinks_def)

lemma rebalance_removal:
  assumes "avl (Node x l r h)" "shrinks l l' \<and> r' = r \<or> l' = l \<and> shrinks r r'"
  obtains t where "tree_node_rebalance (Node y l' r' h') = Inr t" "shrinks (Node x l r h) t"
    "tree_inorder t = tree_inorder l' @ y # tree_inorder r'"
proof -
  from assms have "shrinks l l'" and "r' = r \<or> shrinks r r' \<and> l' = l"
    by (auto intro: shrinks_refl)
  from rebalance_shrinks [OF assms(1) this, of y h'] obtain t where
    t: "tree_node_rebalance (Node y l' r' h') = Inr t" "shrinks (Node x l r h) t"
    unfolding shrinks_def by blast
  with rebalance_inorder [OF t(1)] that show ?thesis by simp
qed

lemma filter_key_less:
  "\<forall>y \<in> set xs. key y < (k :: 'k::linorder) \<Longrightarrow> k \<le> k' \<Longrightarrow> filter (\<lambda>y. key y \<noteq> k') xs = xs"
  by (auto simp: filter_id_conv)

lemma filter_key_greater:
  "\<forall>y \<in> set xs. (k :: 'k::linorder) < key y \<Longrightarrow> k' \<le> k \<Longrightarrow> filter (\<lambda>y. key y \<noteq> k') xs = xs"
  by (auto simp: filter_id_conv)

lemma filter_key_hd:
  assumes "sorted_wrt (<) (map key xs)" "xs \<noteq> []"
  shows "filter (\<lambda>y. key y \<noteq> (key (hd xs) :: 'k::linorder)) xs = tl xs"
  using assms by (cases xs) (auto simp: filter_id_conv)

text \<open>Removing the root itself: one child takes its place, or the leftmost node of the right.\<close>

lemma remove_root_one_child:
  assumes "avl (Node x l r h)" "l = NULL \<or> r = NULL"
  shows "\<exists>t. tree_node_rebalance (if l = NULL then r else l) = Inr t \<and> shrinks (Node x l r h) t
    \<and> tree_inorder t = tree_inorder l @ tree_inorder r"
proof -
  let ?child = "if l = NULL then r else l"
  have "avl ?child" using assms(1) by simp
  then have "tree_node_rebalance ?child = Inr ?child" by (rule rebalance_avl)
  moreover have "shrinks (Node x l r h) ?child"
    using assms tree_depth_nonneg [of l] tree_depth_nonneg [of r] by (auto simp: shrinks_def)
  ultimately show ?thesis using assms(2) by auto
qed

context compare_order
begin

lemma remove_root_successor:
  assumes "avl (Node x l r h)" "ordered_by key carrier r" "r \<noteq> NULL"
    and remove: "\<And>e. e \<in> carrier \<Longrightarrow>
      \<exists>r' node. tree_node_remove compare r e = Inr (r', node) \<and> removal key e r r' node"
  shows "\<exists>s r' t'. tree_node_leftmost r = Inr s
    \<and> tree_node_remove compare r s = Inr (r', Node s NULL NULL 1)
    \<and> tree_node_rebalance (Node s l r' 1) = Inr t' \<and> shrinks (Node x l r h) t'
    \<and> tree_inorder t' = tree_inorder l @ tree_inorder r"
proof -
  define s where "s = hd (tree_inorder r)"
  have ne: "tree_inorder r \<noteq> []" using assms(3) by (cases r) auto
  then have s: "tree_node_leftmost r = Inr s" "s \<in> set_tree_node r"
    using leftmost_hd assms(3) by (auto simp: s_def simp flip: set_tree_inorder)
  then have "s \<in> carrier" using assms(2) by (auto simp: ordered_by_def)
  from remove [OF this] obtain r' node where
    r': "tree_node_remove compare r s = Inr (r', node)" "removal key s r r' node" by auto
  have tl: "tree_inorder r' = tl (tree_inorder r)"
    using r'(2) assms(2) ne filter_key_hd [of key "tree_inorder r"]
    by (simp add: removal_def ordered_by_def s_def)
  obtain y where y: "node = Node y NULL NULL 1" "y \<in> set_tree_node r" "key y = key s"
    using r'(2) s(2) by (cases node) (auto simp: removal_def)
  have "y = s" using y s(2) assms(2) by (blast dest: ordered_by_inj)
  have "shrinks l l \<and> r' = r \<or> l = l \<and> shrinks r r'" using r'(2) by (simp add: removal_def)
  from rebalance_removal [OF assms(1) this, of s 1] obtain t' where
    "tree_node_rebalance (Node s l r' 1) = Inr t'" "shrinks (Node x l r h) t'"
    "tree_inorder t' = tree_inorder l @ s # tree_inorder r'" .
  then show ?thesis using s(1) r'(1) y(1) \<open>y = s\<close> tl ne by (auto simp: s_def)
qed

lemma remove_removal:
  assumes "avl t" "ordered_by key carrier t" "e \<in> carrier"
  shows "\<exists>t' node. tree_node_remove compare t e = Inr (t', node) \<and> removal key e t t' node"
  using assms
proof (induction t arbitrary: e)
  case NULL
  then show ?case by (simp add: removal_def shrinks_def)
next
  case (Node x l r h)
  have x: "x \<in> carrier" and avls: "avl l" "avl r" and ords: "ordered_by key carrier l"
    "ordered_by key carrier r" and lt: "\<forall>y \<in> set_tree_node l. key y < key x"
    and gt: "\<forall>y \<in> set_tree_node r. key x < key y" using Node.prems by auto
  have lt': "\<forall>y \<in> set (tree_inorder l). key y < key x" using lt by (simp add: set_tree_inorder)
  have gt': "\<forall>y \<in> set (tree_inorder r). key x < key y" using gt by (simp add: set_tree_inorder)
  show ?case
  proof (cases rule: compare_cases [OF Node.prems(3) x])
    case (1 c)
    from Node.IH(1) [OF avls(1) ords(1) Node.prems(3)] obtain l' node where
      l': "tree_node_remove compare l e = Inr (l', node)" "removal key e l l' node" by auto
    then have "shrinks l l' \<and> r = r \<or> l' = l \<and> shrinks r r" by (simp add: removal_def)
    from rebalance_removal [OF Node.prems(1) this, of x h] obtain t' where
      t': "tree_node_rebalance (Node x l' r h) = Inr t'" "shrinks (Node x l r h) t'"
        "tree_inorder t' = tree_inorder l' @ x # tree_inorder r" .
    have "removal key e (Node x l r h) t' node"
      using l'(2) t' 1(3) gt filter_key_greater [OF gt', of "key e"]
      by (fastforce simp: removal_def split: tree_node.splits)
    then show ?thesis using 1 l'(1) t'(1) by simp
  next
    case (3 c)
    from Node.IH(2) [OF avls(2) ords(2) Node.prems(3)] obtain r' node where
      r': "tree_node_remove compare r e = Inr (r', node)" "removal key e r r' node" by auto
    then have "shrinks l l \<and> r' = r \<or> l = l \<and> shrinks r r'" by (simp add: removal_def)
    from rebalance_removal [OF Node.prems(1) this, of x h] obtain t' where
      t': "tree_node_rebalance (Node x l r' h) = Inr t'" "shrinks (Node x l r h) t'"
        "tree_inorder t' = tree_inorder l @ x # tree_inorder r'" .
    have "removal key e (Node x l r h) t' node"
      using r'(2) t' 3(3) lt filter_key_less [OF lt', of "key e"]
      by (fastforce simp: removal_def split: tree_node.splits)
    then show ?thesis using 3 r'(1) t'(1) by simp
  next
    case 2
    have rest: "filter (\<lambda>y. key y \<noteq> key e) (tree_inorder (Node x l r h))
        = tree_inorder l @ tree_inorder r"
      using 2(2) filter_key_less [OF lt', of "key e"] filter_key_greater [OF gt', of "key e"]
      by simp
    show ?thesis
    proof (cases "l \<noteq> NULL \<and> r \<noteq> NULL")
      case False
      with remove_root_one_child [OF Node.prems(1)] obtain t' where
        t': "tree_node_rebalance (if l = NULL then r else l) = Inr t'" "shrinks (Node x l r h) t'"
          "tree_inorder t' = tree_inorder l @ tree_inorder r" by auto
      then have "removal key e (Node x l r h) t' (Node x NULL NULL 1)"
        using rest 2 by (simp add: removal_def)
      then show ?thesis using t'(1) False 2 by (auto split: if_splits)
    next
      case True
      with remove_root_successor [OF Node.prems(1) ords(2)] Node.IH(2) [OF avls(2) ords(2)]
      obtain s r' t' where s: "tree_node_leftmost r = Inr s"
        "tree_node_remove compare r s = Inr (r', Node s NULL NULL 1)"
        "tree_node_rebalance (Node s l r' 1) = Inr t'" "shrinks (Node x l r h) t'"
        "tree_inorder t' = tree_inorder l @ tree_inorder r" by metis
      then have "removal key e (Node x l r h) t' (Node x NULL NULL 1)"
        using rest 2 by (simp add: removal_def)
      then show ?thesis using 2 True s(1,2,3) by auto
    qed
  qed
qed

end

section \<open>The tree as a keyed storage\<close>

definition tree_ok :: "('a \<Rightarrow> 'k::linorder) \<Rightarrow> 'a set \<Rightarrow> 'a tree_node \<Rightarrow> bool" where
  "tree_ok key carrier t \<longleftrightarrow> avl t \<and> ordered_by key carrier t"

lemma tree_ok_NULL [simp]: "tree_ok key carrier NULL"
  by (simp add: tree_ok_def)

lemma tree_ok_carrier: "tree_ok key carrier t \<Longrightarrow> x \<in> set_tree_node t \<Longrightarrow> x \<in> carrier"
  by (auto simp: tree_ok_def ordered_by_def)

lemma tree_map_NULL [simp]: "tree_map key NULL = Map.empty"
  by (simp add: tree_map_def)

lemma tree_map_Some:
  assumes "ordered_by key carrier t"
  shows "tree_map key t k = Some x \<longleftrightarrow> x \<in> set_tree_node t \<and> key x = k"
proof -
  have "distinct (map key (tree_inorder t))"
    using assms by (simp add: ordered_by_def strict_sorted_iff)
  then show ?thesis
    by (auto simp: tree_map_def map_of_eq_Some_iff o_def set_tree_inorder)
qed

lemma tree_map_None:
  "tree_map key t k = None \<longleftrightarrow> k \<notin> key ` set_tree_node t"
  by (auto simp: tree_map_def map_of_eq_None_iff set_tree_inorder image_image)

lemma tree_map_eqI:
  assumes "ordered_by key carrier t" "\<And>k x. m k = Some x \<longleftrightarrow> x \<in> set_tree_node t \<and> key x = k"
  shows "tree_map key t = m"
proof
  fix k
  show "tree_map key t k = m k"
    using tree_map_Some [OF assms(1), of k] assms(2) [of k]
    by (cases "tree_map key t k"; cases "m k") auto
qed

lemma tree_map_Node:
  assumes "ordered_by key carrier (Node x l r h)"
  shows "tree_map key (Node x l r h) k =
    (if k < key x then tree_map key l k else if k = key x then Some x else tree_map key r k)"
proof -
  from assms have ords: "ordered_by key carrier l" "ordered_by key carrier r" by auto
  have "tree_map key (Node x l r h) =
    (\<lambda>k. if k < key x then tree_map key l k else if k = key x then Some x else tree_map key r k)"
    using assms by (intro tree_map_eqI [OF assms])
      (auto simp: tree_map_Some [OF ords(1)] tree_map_Some [OF ords(2)])
  then show ?thesis by simp
qed

text \<open>
  The key of an element is read in memory: a change there that keeps the keys of the elements of
  a tree keeps the tree in order.
\<close>

lemma tree_ok_cong:
  assumes "tree_ok key carrier t"
    and "\<And>x. x \<in> set_tree_node t \<Longrightarrow> key' x = key x \<and> x \<in> carrier'"
  shows "tree_ok key' carrier' t"
proof -
  have keys: "map key' (tree_inorder t) = map key (tree_inorder t)"
    using assms(2) by (auto simp: set_tree_inorder)
  have "sorted_wrt (<) (map key' (tree_inorder t))"
    unfolding keys using assms(1) by (simp add: tree_ok_def ordered_by_def)
  moreover have "set_tree_node t \<subseteq> carrier'" using assms(2) by auto
  ultimately show ?thesis using assms(1) by (simp add: tree_ok_def ordered_by_def)
qed

lemma tree_map_cong:
  assumes "\<And>x. x \<in> set_tree_node t \<Longrightarrow> key' x = key x"
  shows "tree_map key' t = tree_map key t"
proof -
  have "map (\<lambda>x. (key' x, x)) (tree_inorder t) = map (\<lambda>x. (key x, x)) (tree_inorder t)"
    using assms by (auto simp: set_tree_inorder)
  then show ?thesis unfolding tree_map_def by (rule arg_cong)
qed

lemma tree_ok_map:
  "tree_ok key carrier t \<Longrightarrow> tree_map key t k = Some x \<longleftrightarrow> x \<in> set_tree_node t \<and> key x = k"
  using tree_map_Some [of key carrier t k x] by (simp add: tree_ok_def)

lemma tree_map_set:
  assumes "tree_ok key carrier t"
  shows "set_tree_node t = ran (tree_map key t)"
  using tree_ok_map [OF assms] by (auto simp: ran_def)

text \<open>
  The contract the clients use: a storage of elements indexed by a key, seen as a finite map.
  Inserting a key twice is the one way to make it abort.
\<close>

locale keyed_storage =
  fixes insert_op :: "'t \<Rightarrow> 'a \<Rightarrow> 't result"
    and remove_op :: "'t \<Rightarrow> 'a \<Rightarrow> ('t \<times> 'a option) result"
    and find_op :: "'t \<Rightarrow> 'a \<Rightarrow> 'a option result"
    and lookup :: "'t \<Rightarrow> 'k \<rightharpoonup> 'a"
    and key :: "'a \<Rightarrow> 'k"
    and carrier :: "'a set"
    and invar :: "'t \<Rightarrow> bool"
  assumes insert_fresh: "invar t \<Longrightarrow> e \<in> carrier \<Longrightarrow> lookup t (key e) = None \<Longrightarrow>
      \<exists>t'. insert_op t e = Inr t' \<and> invar t' \<and> lookup t' = (lookup t)(key e \<mapsto> e)"
    and insert_clash: "invar t \<Longrightarrow> e \<in> carrier \<Longrightarrow> lookup t (key e) = Some x \<Longrightarrow>
      insert_op t e = Inl Abort"
    and remove_lookup: "invar t \<Longrightarrow> e \<in> carrier \<Longrightarrow>
      \<exists>t'. remove_op t e = Inr (t', lookup t (key e)) \<and> invar t'
        \<and> lookup t' = (lookup t)(key e := None)"
    and find_lookup: "invar t \<Longrightarrow> e \<in> carrier \<Longrightarrow> find_op t e = Inr (lookup t (key e))"
    and lookup_key: "invar t \<Longrightarrow> lookup t k = Some x \<Longrightarrow> x \<in> carrier \<and> key x = k"
begin

lemma insert_iff:
  assumes "invar t" "e \<in> carrier"
  shows "insert_op t e = Inr t' \<Longrightarrow>
    lookup t (key e) = None \<and> invar t' \<and> lookup t' = (lookup t)(key e \<mapsto> e)"
  using insert_fresh [OF assms] insert_clash [OF assms]
  by (cases "lookup t (key e)") auto

lemma insert_find:
  assumes "invar t" "e \<in> carrier" "insert_op t e = Inr t'" "d \<in> carrier"
  shows "find_op t' d = Inr (if key d = key e then Some e else lookup t (key d))"
  using insert_iff [OF assms(1-3)] find_lookup [of t' d] assms(4) by simp

lemma remove_insert:
  assumes "invar t" "e \<in> carrier" "insert_op t e = Inr t'"
  shows "\<exists>t''. remove_op t' e = Inr (t'', Some e) \<and> invar t'' \<and> lookup t'' = lookup t"
proof -
  from insert_iff [OF assms] have t': "lookup t (key e) = None" "invar t'"
    "lookup t' = (lookup t)(key e \<mapsto> e)" by auto
  from remove_lookup [OF t'(2) assms(2)] t' show ?thesis by (auto simp: fun_upd_idem)
qed

text \<open>Inserting elements of pairwise distinct new keys never aborts.\<close>

lemma insert_list:
  assumes "invar t" "set es \<subseteq> carrier" "distinct (map key es)"
    "\<forall>e \<in> set es. lookup t (key e) = None"
  shows "\<exists>t'. rfold (\<lambda>e t. insert_op t e) es t = Inr t' \<and> invar t'
    \<and> lookup t' = lookup t ++ map_of (map (\<lambda>e. (key e, e)) es)"
  using assms
proof (induction es arbitrary: t)
  case Nil
  then show ?case by simp
next
  case (Cons e es)
  then have e: "e \<in> carrier" "lookup t (key e) = None" by auto
  from insert_fresh [OF Cons.prems(1) e] obtain t1 where
    t1: "insert_op t e = Inr t1" "invar t1" "lookup t1 = (lookup t)(key e \<mapsto> e)" by blast
  have "\<forall>d \<in> set es. key d \<noteq> key e" using Cons.prems(3) by (auto simp: image_iff)
  then have "\<forall>d \<in> set es. lookup t1 (key d) = None" using Cons.prems(4) t1(3) by auto
  with Cons.IH [OF t1(2)] Cons.prems obtain t' where
    t': "rfold (\<lambda>e t. insert_op t e) es t1 = Inr t'" "invar t'"
      "lookup t' = lookup t1 ++ map_of (map (\<lambda>e. (key e, e)) es)" by auto
  have "key e \<notin> dom (map_of (map (\<lambda>e. (key e, e)) es))"
    using Cons.prems(3) by (auto simp: dom_map_of_conv_image_fst image_image)
  then have eq: "lookup t1 ++ map_of (map (\<lambda>e. (key e, e)) es)
      = lookup t ++ map_of (map (\<lambda>e. (key e, e)) (e # es))"
    using t1(3) by (simp add: map_add_upd_left)
  have "rfold (\<lambda>e t. insert_op t e) (e # es) t = Inr t'" using t1(1) t'(1) by simp
  with t'(2) trans [OF t'(3) eq] show ?case by blast
qed

end

context compare_order
begin

lemma tree_insert_fresh:
  assumes "tree_ok key carrier t" "e \<in> carrier" "tree_map key t (key e) = None"
  shows "\<exists>t'. tree_insert compare t e = Inr t' \<and> tree_ok key carrier t'
    \<and> set_tree_node t' = insert e (set_tree_node t)
    \<and> tree_map key t' = (tree_map key t)(key e \<mapsto> e)"
proof -
  from assms have new: "key e \<notin> key ` set_tree_node t" by (simp add: tree_map_None)
  then have fresh: "\<And>x. x \<in> set_tree_node t \<Longrightarrow> key x \<noteq> key e" by (metis image_eqI)
  from assms have t: "avl t" "ordered_by key carrier t" by (auto simp: tree_ok_def)
  from insert_grows [OF t assms(2) new] obtain t' where
    t': "tree_insert compare t e = Inr t'" "avl t'" "set_tree_node t' = insert e (set_tree_node t)"
      "ordered_by key carrier t'"
    by (auto simp: tree_insert_def grows_def)
  have "tree_map key t' = (tree_map key t)(key e \<mapsto> e)"
    using t'(3,4) fresh tree_map_Some [OF t(2)] by (intro tree_map_eqI) auto
  with t' show ?thesis by (auto simp: tree_ok_def)
qed

lemma tree_remove_lookup:
  assumes "tree_ok key carrier t" "e \<in> carrier"
  shows "\<exists>t'. tree_remove compare t e = Inr (t', tree_map key t (key e))
    \<and> tree_ok key carrier t' \<and> tree_map key t' = (tree_map key t)(key e := None)"
proof -
  from assms have t: "avl t" "ordered_by key carrier t" by (auto simp: tree_ok_def)
  from remove_removal [OF t assms(2)] obtain t' node where
    r: "tree_node_remove compare t e = Inr (t', node)" "removal key e t t' node" by auto
  then have set: "set_tree_node t' = {y \<in> set_tree_node t. key y \<noteq> key e}"
    by (auto simp: removal_def simp flip: set_tree_inorder)
  have ord: "ordered_by key carrier t'"
    using t(2) r(2) set unfolding ordered_by_def removal_def
    by (auto simp: sorted_wrt_map intro: sorted_wrt_filter)
  have "tree_map key t' = (tree_map key t)(key e := None)"
    using set ord tree_map_Some [OF t(2)] by (intro tree_map_eqI) (auto split: if_splits)
  moreover have "tree_map key t (key e) = (case node of NULL \<Rightarrow> None | Node x a b h \<Rightarrow> Some x)"
    using r(2) by (auto simp: removal_def tree_map_None tree_map_Some [OF t(2)]
        split: tree_node.splits)
  ultimately show ?thesis using r ord
    by (auto simp: tree_remove_def tree_ok_def removal_def shrinks_def split: tree_node.splits)
qed

lemma tree_find_lookup:
  assumes "ordered_by key carrier t" "e \<in> carrier"
  shows "tree_find compare t e = Inr (tree_map key t (key e))"
  using assms(1)
proof (induction t)
  case (Node x l r h)
  have x: "x \<in> carrier" and ords: "ordered_by key carrier l" "ordered_by key carrier r"
    using Node.prems by auto
  show ?case
    by (cases rule: compare_cases [OF assms(2) x])
      (use Node.IH ords in \<open>auto simp: tree_map_Node [OF Node.prems]\<close>)
qed simp

end

sublocale compare_order \<subseteq> keyed_storage "tree_insert compare" "tree_remove compare"
  "tree_find compare" "tree_map key" key carrier "tree_ok key carrier"
proof (unfold_locales, goal_cases)
  case (1 t e)
  then show ?case using tree_insert_fresh by blast
next
  case (2 t e x)
  then show ?case
    using insert_duplicate [of t e] tree_map_None [of key t "key e"]
    by (simp add: tree_insert_def tree_ok_def)
next
  case (3 t e)
  then show ?case by (rule tree_remove_lookup)
next
  case (4 t e)
  then show ?case using tree_find_lookup by (simp add: tree_ok_def)
next
  case (5 t k x)
  then show ?case using tree_map_Some tree_ok_carrier unfolding tree_ok_def by metis
qed

section \<open>The greatest element, the traversal, the size\<close>

lemma tree_last_inorder:
  "tree_last t = (if t = NULL then None else Some (last (tree_inorder t)))"
  by (induction t rule: tree_last.induct) auto

lemma tree_last_greatest:
  assumes "ordered_by key carrier t" "tree_last t = Some x"
  shows "x \<in> set_tree_node t \<and> (\<forall>y \<in> set_tree_node t. key y \<le> key x)"
proof -
  have ne: "tree_inorder t \<noteq> []" using assms(2) by (cases t) auto
  have "x = last (tree_inorder t)" using assms(2) by (simp add: tree_last_inorder split: if_splits)
  with ne obtain xs where xs: "tree_inorder t = xs @ [x]" by (metis append_butlast_last_id)
  then have "set_tree_node t = insert x (set xs)" by (simp flip: set_tree_inorder)
  moreover have "\<forall>y \<in> set xs. key y < key x"
    using assms(1) xs by (simp add: ordered_by_def sorted_wrt_append)
  ultimately show ?thesis by auto
qed

text \<open>The traversal visits every element once, in preorder, and stops at the first fault.\<close>

lemma preorder_mutate_rfold:
  "tree_node_preorder_mutate mutate t s = rfold mutate (tree_preorder t) s"
proof (induction t arbitrary: s)
  case (Node x l r h)
  then show ?case by (simp add: rfold_append cong: rbind_cong)
qed simp

lemma mset_preorder: "mset (tree_preorder t) = mset (tree_inorder t)"
  by (induction t) auto

lemma distinct_preorder: "ordered_by key carrier t \<Longrightarrow> distinct (tree_preorder t)"
  using mset_eq_imp_distinct_iff [OF mset_preorder [of t]]
  by (auto simp: ordered_by_def strict_sorted_iff distinct_map)

text \<open>
  Balance keeps trees shallow: a tree of height \<open>h\<close> holds at least
  \<open>2 ^ (h div 2) - 1\<close> elements.
\<close>

lemma avl_size: "avl t \<Longrightarrow> 2 ^ (nat (tree_depth t) div 2) \<le> length (tree_inorder t) + 1"
proof (induction "nat (tree_depth t)" arbitrary: t rule: less_induct)
  case less
  show ?case
  proof (cases t)
    case NULL
    then show ?thesis by simp
  next
    case (Node x l r h)
    have d: "tree_depth l \<ge> tree_depth t - 2" "tree_depth r \<ge> tree_depth t - 2"
      "tree_depth l < tree_depth t" "tree_depth r < tree_depth t"
      using less.prems Node by auto
    have nn: "0 \<le> tree_depth l" "0 \<le> tree_depth r" by (rule tree_depth_nonneg)+
    define k where "k = nat (tree_depth t) div 2"
    have "2 ^ (k - 1) \<le> length (tree_inorder l) + 1"
    proof -
      have "2 ^ (nat (tree_depth l) div 2) \<le> length (tree_inorder l) + 1"
        using less.hyps [of l] less.prems Node d nn by auto
      moreover have "k - 1 \<le> nat (tree_depth l) div 2" using d(1) by (simp add: k_def)
      ultimately show ?thesis by (meson order_trans power_increasing one_le_numeral)
    qed
    moreover have "2 ^ (k - 1) \<le> length (tree_inorder r) + 1"
    proof -
      have "2 ^ (nat (tree_depth r) div 2) \<le> length (tree_inorder r) + 1"
        using less.hyps [of r] less.prems Node d nn by auto
      moreover have "k - 1 \<le> nat (tree_depth r) div 2" using d(2) by (simp add: k_def)
      ultimately show ?thesis by (meson order_trans power_increasing one_le_numeral)
    qed
    ultimately show ?thesis using Node by (cases k) (auto simp: k_def)
  qed
qed

end
