(* ===== verification/Daemon.thy ===== *)
theory Daemon
  imports Avl_Tree Conf_File
begin

text \<open>
  A daemon and its running process: \<^verbatim>\<open>src/cyberd/daemon.c\<close>, \<^verbatim>\<open>daemon.h\<close> and the storage of the
  spawned daemons \<^verbatim>\<open>src/cyberd/spawns.c\<close>. The structures are shared between two trees and
  updated in place, so they live in an explicit memory. The kernel's part, the processes forked
  and not waited for yet, is in the state too.
\<close>

section \<open>State\<close>

datatype daemon_state = DAEMON_STARTED | DAEMON_STOPPED | DAEMON_STOPPING

record daemon =
  d_state :: daemon_state
  d_name :: string
  d_pid :: int
  d_conf :: daemon_conf

type_synonym ptr = nat

text \<open>
  The memory maps the addresses of the daemons to their contents. The process's own part is the
  tree of the spawned daemons; the kernel keeps the pids of the children that were not waited
  for, and the signals sent are recorded in order. What the environment decides is a script: the
  pids of the next calls of \<^verbatim>\<open>fork(2)\<close>, and for each next allocation of a daemon its address
  and whether the copy of the name succeeds.
\<close>

record procs =
  heap :: "ptr \<rightharpoonup> daemon"
  spawns :: "ptr tree_node"
  children :: "int list"
  sent :: "(int \<times> int) list"
  forks :: "int list"
  allocations :: "(ptr \<times> bool) list"

definition deref :: "(ptr \<rightharpoonup> daemon) \<Rightarrow> ptr \<Rightarrow> daemon result" where
  "deref h p = (case h p of None \<Rightarrow> Inl Use_after_free | Some d \<Rightarrow> Inr d)"

lemma deref_eq_Inr [result_iff]: "deref h p = Inr d \<longleftrightarrow> h p = Some d"
  by (auto simp: deref_def split: option.splits)

lemma deref_Some [simp]: "h p = Some d \<Longrightarrow> deref h p = Inr d"
  by (simp add: deref_def)

text \<open>
  Address zero is the local variable \<^verbatim>\<open>element\<close> the lookups build to search a key for. The
  fields they leave zero are never read, so their values here do not matter. Address one is the
  daemon \<^verbatim>\<open>rc\<close> keeps in its own frame. No allocation returns these two.
\<close>

definition key_frame :: ptr where
  "key_frame = 0"

definition rc_frame :: ptr where
  "rc_frame = 1"

definition search_element :: "string \<Rightarrow> int \<Rightarrow> daemon" where
  "search_element name pid =
     \<lparr>d_state = DAEMON_STARTED, d_name = name, d_pid = pid, d_conf = daemon_conf_init\<rparr>"

section \<open>The kernel\<close>

text \<open>
  \<^verbatim>\<open>fork(2)\<close> fails, or returns a positive pid that no child holds which was not waited for; a
  pid of the script that breaks this promise counts as a failure.
\<close>

definition PID_MAX :: int where
  "PID_MAX = 2 ^ 31"

definition fork :: "'z procs_scheme \<Rightarrow> int \<times> 'z procs_scheme" where
  "fork s =
     (case forks s of
        [] \<Rightarrow> (- 1, s)
      | pid # rest \<Rightarrow>
          if 0 < pid \<and> pid < PID_MAX \<and> pid \<notin> set (children s)
          then (pid, s\<lparr>forks := rest, children := pid # children s\<rparr>)
          else (- 1, s\<lparr>forks := rest\<rparr>))"

definition kill :: "int \<Rightarrow> int \<Rightarrow> 'z procs_scheme \<Rightarrow> 'z procs_scheme" where
  "kill pid signo s = s\<lparr>sent := sent s @ [(pid, signo)]\<rparr>"

text \<open>\<^verbatim>\<open>malloc(3)\<close> fails, or returns the address of an object that does not exist yet.\<close>

definition malloc :: "'z procs_scheme \<Rightarrow> (ptr \<times> bool) option \<times> 'z procs_scheme" where
  "malloc s =
     (case allocations s of
        [] \<Rightarrow> (None, s)
      | (p, copied) # rest \<Rightarrow>
          if p \<noteq> key_frame \<and> p \<noteq> rc_frame \<and> heap s p = None
          then (Some (p, copied), s\<lparr>allocations := rest\<rparr>)
          else (None, s\<lparr>allocations := rest\<rparr>))"

section \<open>The spawned daemons\<close>

definition spawns_compare_function :: "(ptr \<rightharpoonup> daemon) \<Rightarrow> ptr compare" where
  "spawns_compare_function h l r =
     rbind (deref h l) (\<lambda>ldaemon. rbind (deref h r) (\<lambda>rdaemon.
       int_sub (d_pid ldaemon) (d_pid rdaemon)))"

definition spawns_record :: "ptr \<Rightarrow> 'z procs_scheme \<Rightarrow> 'z procs_scheme result" where
  "spawns_record p s =
     rbind (tree_insert (spawns_compare_function (heap s)) (spawns s) p) (\<lambda>root.
     Inr (s\<lparr>spawns := root\<rparr>))"

definition spawns_retrieve ::
  "int \<Rightarrow> 'z procs_scheme \<Rightarrow> (ptr option \<times> 'z procs_scheme) result" where
  "spawns_retrieve pid s =
     rbind (tree_remove
         (spawns_compare_function ((heap s)(key_frame \<mapsto> search_element [] pid)))
         (spawns s) key_frame) (\<lambda>(root, found).
     Inr (found, s\<lparr>spawns := root\<rparr>))"

definition spawns_empty :: "'z procs_scheme \<Rightarrow> bool" where
  "spawns_empty s \<longleftrightarrow> spawns s = NULL"

section \<open>Operations on a daemon\<close>

text \<open>
  \<^verbatim>\<open>daemon_spawn\<close> in the parent. The child runs \<^verbatim>\<open>daemon_child_setup\<close>, in a process of its
  own.
\<close>

definition daemon_spawn :: "ptr \<Rightarrow> 'z procs_scheme \<Rightarrow> (int \<times> 'z procs_scheme) result" where
  "daemon_spawn p s =
     (let (pid, s) = fork s
      in if pid = - 1 then Inr (- 1, s)
         else rbind (deref (heap s) p) (\<lambda>d.
              rbind (spawns_record p
                  (s\<lparr>heap := (heap s)(p \<mapsto> d\<lparr>d_pid := pid, d_state := DAEMON_STARTED\<rparr>)\<rparr>)) (\<lambda>s.
              Inr (0, s))))"

definition daemon_create :: "string \<Rightarrow> 'z procs_scheme \<Rightarrow> ptr option \<times> 'z procs_scheme" where
  "daemon_create name s =
     (let (r, s) = malloc s
      in case r of
           None \<Rightarrow> (None, s)
         | Some (p, copied) \<Rightarrow>
             if \<not> copied then (None, s)
             else (Some p, s\<lparr>heap := (heap s)(p \<mapsto>
               \<lparr>d_state = DAEMON_STOPPED, d_name = name, d_pid = 0,
                d_conf = daemon_conf_init\<rparr>)\<rparr>))"

definition daemon_destroy :: "ptr \<Rightarrow> 'z procs_scheme \<Rightarrow> 'z procs_scheme result" where
  "daemon_destroy p s =
     rbind (deref (heap s) p) (\<lambda>d.
     rbind (if d_state d \<noteq> DAEMON_STOPPED
            then rbind (spawns_retrieve (d_pid d) s) (\<lambda>(_, s). Inr s)
            else Inr s) (\<lambda>s.
     Inr (s\<lparr>heap := (heap s)(p := None)\<rparr>)))"

definition daemon_start :: "ptr \<Rightarrow> 'z procs_scheme \<Rightarrow> 'z procs_scheme result" where
  "daemon_start p s =
     rbind (deref (heap s) p) (\<lambda>d.
       case d_state d of
         DAEMON_STARTED \<Rightarrow> Inr s
       | DAEMON_STOPPED \<Rightarrow> rbind (daemon_spawn p s) (\<lambda>(_, s). Inr s)
       | DAEMON_STOPPING \<Rightarrow> Inr s)"

definition daemon_stop :: "ptr \<Rightarrow> 'z procs_scheme \<Rightarrow> 'z procs_scheme result" where
  "daemon_stop p s =
     rbind (deref (heap s) p) (\<lambda>d.
       case d_state d of
         DAEMON_STARTED \<Rightarrow>
           (let s = kill (d_pid d) (conf_sigfinish (d_conf d)) s
            in Inr (s\<lparr>heap := (heap s)(p \<mapsto> d\<lparr>d_state := DAEMON_STOPPING\<rparr>)\<rparr>))
       | DAEMON_STOPPED \<Rightarrow> Inr s
       | DAEMON_STOPPING \<Rightarrow> Inr s)"

definition daemon_reload :: "ptr \<Rightarrow> 'z procs_scheme \<Rightarrow> 'z procs_scheme result" where
  "daemon_reload p s =
     rbind (deref (heap s) p) (\<lambda>d.
       case d_state d of
         DAEMON_STARTED \<Rightarrow> Inr (kill (d_pid d) (conf_sigreload (d_conf d)) s)
       | DAEMON_STOPPED \<Rightarrow> Inr s
       | DAEMON_STOPPING \<Rightarrow> Inr s)"

definition daemon_end :: "ptr \<Rightarrow> 'z procs_scheme \<Rightarrow> 'z procs_scheme result" where
  "daemon_end p s =
     rbind (deref (heap s) p) (\<lambda>d.
       case d_state d of
         DAEMON_STARTED \<Rightarrow> Inr (kill (d_pid d) SIGKILL s)
       | DAEMON_STOPPED \<Rightarrow> Inr s
       | DAEMON_STOPPING \<Rightarrow> Inr (kill (d_pid d) SIGKILL s))"

section \<open>Stopping every spawned daemon\<close>

definition spawns_stop_element :: "ptr \<Rightarrow> 'z procs_scheme \<Rightarrow> 'z procs_scheme result" where
  "spawns_stop_element p s =
     rbind (deref (heap s) p) (\<lambda>d.
       let conf = (d_conf d)\<lparr>start_load := False, start_reload := False,
             start_exitsuccess := False, start_exitfailure := False,
             start_killed := False, start_dumped := False\<rparr>
       in daemon_stop p (s\<lparr>heap := (heap s)(p \<mapsto> d\<lparr>d_conf := conf\<rparr>)\<rparr>))"

definition spawns_stop :: "'z procs_scheme \<Rightarrow> 'z procs_scheme result" where
  "spawns_stop s = tree_mutate (spawns s) spawns_stop_element s"

definition spawns_cleanup :: "'z procs_scheme \<Rightarrow> ptr tree_node list" where
  "spawns_cleanup s = tree_deinit (spawns s)"

section \<open>The invariant of the processes\<close>

text \<open>The storage of the spawned daemons is indexed by the pids found in memory.\<close>

definition pid_of :: "(ptr \<rightharpoonup> daemon) \<Rightarrow> ptr \<Rightarrow> int" where
  "pid_of h p = d_pid (the (h p))"

definition pid_carrier :: "(ptr \<rightharpoonup> daemon) \<Rightarrow> ptr set" where
  "pid_carrier h = {p. \<exists>d. h p = Some d \<and> 0 \<le> d_pid d \<and> d_pid d < PID_MAX}"

interpretation spawned: compare_order "spawns_compare_function h" "pid_of h" "pid_carrier h" for h
  by unfold_locales
    (auto simp: spawns_compare_function_def pid_of_def pid_carrier_def PID_MAX_def int_sub_def)

text \<open>The processes of daemons the program knows, as a map from their pids.\<close>

definition spawned_daemons :: "'z procs_scheme \<Rightarrow> int \<rightharpoonup> ptr" where
  "spawned_daemons s = tree_map (pid_of (heap s)) (spawns s)"

definition active :: "(ptr \<rightharpoonup> daemon) \<Rightarrow> ptr set" where
  "active h = {p. \<exists>d. h p = Some d \<and> d_state d \<noteq> DAEMON_STOPPED}"

text \<open>
  The spawned daemons are the ones that are not stopped, each under the pid of a child that was
  not waited for. \<open>procs_but gone s\<close> leaves out the daemons of \<open>gone\<close>, which are out of
  the storage and not marked stopped yet.
\<close>

definition procs_but :: "ptr set \<Rightarrow> 'z procs_scheme \<Rightarrow> bool" where
  "procs_but gone s \<longleftrightarrow>
     tree_ok (pid_of (heap s)) (pid_carrier (heap s)) (spawns s)
     \<and> set_tree_node (spawns s) = active (heap s) - gone
     \<and> pid_of (heap s) ` set_tree_node (spawns s) \<subseteq> set (children s)
     \<and> (\<forall>pid \<in> set (children s). 0 < pid \<and> pid < PID_MAX)
     \<and> distinct (children s)
     \<and> heap s key_frame = None"

abbreviation procs_ok :: "'z procs_scheme \<Rightarrow> bool" where
  "procs_ok s \<equiv> procs_but {} s"

section \<open>Lemmas on the storage\<close>

lemma pid_of_upd [simp]:
  "pid_of (h(p \<mapsto> d)) q = (if q = p then d_pid d else pid_of h q)"
  by (simp add: pid_of_def)

lemma pid_carrier_upd [simp]:
  "q \<in> pid_carrier (h(p \<mapsto> d)) \<longleftrightarrow>
     (if q = p then 0 \<le> d_pid d \<and> d_pid d < PID_MAX else q \<in> pid_carrier h)"
  by (simp add: pid_carrier_def)

lemma active_upd [simp]:
  "active (h(p \<mapsto> d)) = (if d_state d = DAEMON_STOPPED then active h - {p} else insert p (active h))"
  by (auto simp: active_def)

lemma active_del [simp]: "active (h(p := None)) = active h - {p}"
  by (auto simp: active_def)

lemma tree_ok_heap_upd:
  assumes "tree_ok (pid_of h) (pid_carrier h) t"
    and "\<And>x. x \<in> set_tree_node t \<Longrightarrow> h' x = h x \<or> (\<exists>d d'. h x = Some d \<and> h' x = Some d' \<and> d_pid d' = d_pid d)"
  shows "tree_ok (pid_of h') (pid_carrier h') t"
    and "tree_map (pid_of h') t = tree_map (pid_of h) t"
proof -
  have sub: "set_tree_node t \<subseteq> pid_carrier h" using assms(1) by (auto dest: tree_ok_carrier)
  have same: "pid_of h' x = pid_of h x \<and> x \<in> pid_carrier h'" if "x \<in> set_tree_node t" for x
    using assms(2) [OF that] sub that by (auto simp: pid_of_def pid_carrier_def)
  show "tree_ok (pid_of h') (pid_carrier h') t"
    by (rule tree_ok_cong [OF assms(1)]) (rule same)
  show "tree_map (pid_of h') t = tree_map (pid_of h) t"
    by (rule tree_map_cong) (use same in blast)
qed

lemma spawns_retrieve_lookup:
  assumes "tree_ok (pid_of (heap s)) (pid_carrier (heap s)) (spawns s)" "heap s key_frame = None"
    "0 \<le> pid" "pid < PID_MAX"
  shows "\<exists>root. spawns_retrieve pid s = Inr (spawned_daemons s pid, s\<lparr>spawns := root\<rparr>)
    \<and> tree_ok (pid_of (heap s)) (pid_carrier (heap s)) root
    \<and> tree_map (pid_of (heap s)) root = (spawned_daemons s)(pid := None)"
proof -
  define h where "h = (heap s)(key_frame \<mapsto> search_element [] pid)"
  have fresh: "h x = heap s x" if "x \<in> set_tree_node t"
    "tree_ok (pid_of (heap s)) (pid_carrier (heap s)) t" for x t
    using tree_ok_carrier [OF that(2,1)] assms(2) by (auto simp: h_def pid_carrier_def)
  have key: "key_frame \<in> pid_carrier h" "pid_of h key_frame = pid"
    using assms(3,4) by (simp_all add: h_def search_element_def)
  have ok: "tree_ok (pid_of h) (pid_carrier h) (spawns s)"
    by (rule tree_ok_heap_upd [OF assms(1)]) (rule disjI1, rule fresh [OF _ assms(1)])
  have lookup: "tree_map (pid_of h) (spawns s) = spawned_daemons s"
    unfolding spawned_daemons_def
    by (rule tree_ok_heap_upd [OF assms(1)]) (rule disjI1, rule fresh [OF _ assms(1)])
  from spawned.tree_remove_lookup [OF ok key(1)] obtain root where
    root: "tree_remove (spawns_compare_function h) (spawns s) key_frame
        = Inr (root, spawned_daemons s pid)" "tree_ok (pid_of h) (pid_carrier h) root"
      "tree_map (pid_of h) root = (spawned_daemons s)(pid := None)"
    unfolding lookup key(2) by blast
  have sub: "x \<in> set_tree_node (spawns s)" if "x \<in> set_tree_node root" for x
  proof -
    from that have "tree_map (pid_of h) root (pid_of h x) = Some x"
      by (simp add: tree_ok_map [OF root(2)])
    then have "tree_map (pid_of h) (spawns s) (pid_of h x) = Some x"
      by (simp add: root(3) lookup split: if_splits)
    then show ?thesis by (simp add: tree_ok_map [OF ok])
  qed
  have fresh': "heap s x = h x" if "x \<in> set_tree_node root" for x
    using fresh [OF sub [OF that] assms(1)] by simp
  have "tree_ok (pid_of (heap s)) (pid_carrier (heap s)) root"
    by (rule tree_ok_heap_upd [OF root(2)]) (rule disjI1, rule fresh')
  moreover have "tree_map (pid_of (heap s)) root = (spawned_daemons s)(pid := None)"
    unfolding root(3) [symmetric]
    by (rule tree_ok_heap_upd [OF root(2)]) (rule disjI1, rule fresh')
  moreover note root(1)
  ultimately show ?thesis
    by (intro exI [of _ root]) (simp add: spawns_retrieve_def h_def)
qed

lemma spawned_iff:
  assumes "procs_but gone s"
  shows "spawned_daemons s pid = Some p \<longleftrightarrow>
    p \<in> active (heap s) \<and> p \<notin> gone \<and> pid_of (heap s) p = pid"
  using assms tree_ok_map [of "pid_of (heap s)" "pid_carrier (heap s)" "spawns s" pid p]
  by (auto simp: procs_but_def spawned_daemons_def)

text \<open>Retrieving takes the daemon of the pid out of the storage.\<close>

lemma spawns_retrieve_ok:
  assumes "procs_but gone s" "0 \<le> pid" "pid < PID_MAX"
  shows "\<exists>root. spawns_retrieve pid s = Inr (spawned_daemons s pid, s\<lparr>spawns := root\<rparr>)
    \<and> procs_but (gone \<union> set_option (spawned_daemons s pid)) (s\<lparr>spawns := root\<rparr>)
    \<and> set_tree_node root = set_tree_node (spawns s) - set_option (spawned_daemons s pid)
    \<and> pid \<notin> pid_of (heap s) ` set_tree_node root"
proof -
  from assms have ok: "tree_ok (pid_of (heap s)) (pid_carrier (heap s)) (spawns s)"
    "heap s key_frame = None" by (auto simp: procs_but_def)
  from spawns_retrieve_lookup [OF this assms(2,3)] obtain root where
    r: "spawns_retrieve pid s = Inr (spawned_daemons s pid, s\<lparr>spawns := root\<rparr>)"
      "tree_ok (pid_of (heap s)) (pid_carrier (heap s)) root"
      "tree_map (pid_of (heap s)) root = (spawned_daemons s)(pid := None)" by blast
  have in_root: "x \<in> set_tree_node root \<longleftrightarrow> x \<in> set_tree_node (spawns s) \<and> pid_of (heap s) x \<noteq> pid"
    for x
    using tree_ok_map [OF r(2), of "pid_of (heap s) x" x]
      tree_ok_map [OF ok(1), of "pid_of (heap s) x" x]
    by (cases "pid_of (heap s) x = pid") (simp_all add: r(3) spawned_daemons_def)
  have "set_option (spawned_daemons s pid) = {x \<in> set_tree_node (spawns s). pid_of (heap s) x = pid}"
    using tree_ok_map [OF ok(1), of pid] by (auto simp: spawned_daemons_def)
  with in_root have set: "set_tree_node root
      = set_tree_node (spawns s) - set_option (spawned_daemons s pid)" by auto
  have "procs_but (gone \<union> set_option (spawned_daemons s pid)) (s\<lparr>spawns := root\<rparr>)"
    using assms(1) r(2) set by (auto simp: procs_but_def)
  with r(1) set in_root show ?thesis by blast
qed

section \<open>Every operation keeps the invariant\<close>

text \<open>
  What the program keeps across the operations on its daemons: which addresses are daemons, their
  names, and the parts of the state the storage is not.
\<close>

definition steady :: "'z procs_scheme \<Rightarrow> 'z procs_scheme \<Rightarrow> bool" where
  "steady s s' \<longleftrightarrow>
     procs.more s' = procs.more s \<and> allocations s' = allocations s
     \<and> (\<forall>p. map_option d_name (heap s' p) = map_option d_name (heap s p))"

lemma steady_refl [simp]: "steady s s"
  by (simp add: steady_def)

lemma steady_trans: "steady s1 s2 \<Longrightarrow> steady s2 s3 \<Longrightarrow> steady s1 s3"
  by (simp add: steady_def)

lemma steady_dom: "steady s s' \<Longrightarrow> dom (heap s') = dom (heap s)"
  by (auto simp: steady_def dom_def) (metis map_option_is_None not_None_eq)+

lemma steady_name:
  "steady s s' \<Longrightarrow> heap s p = Some d \<Longrightarrow> \<exists>d'. heap s' p = Some d' \<and> d_name d' = d_name d"
  by (auto simp: steady_def) (metis map_option_eq_Some)

text \<open>Signals only go to children that were not waited for.\<close>

definition signals_children :: "'z procs_scheme \<Rightarrow> 'z procs_scheme \<Rightarrow> bool" where
  "signals_children s s' \<longleftrightarrow>
     (\<exists>new. sent s' = sent s @ new \<and> fst ` set new \<subseteq> set (children s))"

lemma signals_children_refl [simp]: "signals_children s s"
  by (simp add: signals_children_def)

lemma spawned_pid:
  assumes "procs_ok s" "heap s p = Some d" "d_state d \<noteq> DAEMON_STOPPED"
  shows "p \<in> set_tree_node (spawns s)" "d_pid d \<in> set (children s)"
    "0 < d_pid d" "d_pid d < PID_MAX"
proof -
  show p: "p \<in> set_tree_node (spawns s)"
    using assms by (auto simp: procs_but_def active_def)
  then have "pid_of (heap s) p \<in> set (children s)" using assms(1) by (auto simp: procs_but_def)
  then show "d_pid d \<in> set (children s)" using assms(2) by (simp add: pid_of_def)
  then show "0 < d_pid d" "d_pid d < PID_MAX" using assms(1) by (auto simp: procs_but_def)
qed

text \<open>A change of a daemon which keeps its pid and whether it is stopped.\<close>

lemma procs_ok_upd:
  assumes "procs_ok s" "heap s p = Some d" "d_pid d' = d_pid d"
    "d_state d' = DAEMON_STOPPED \<longleftrightarrow> d_state d = DAEMON_STOPPED"
  shows "procs_ok (s\<lparr>heap := (heap s)(p \<mapsto> d')\<rparr>)"
proof -
  have h': "((heap s)(p \<mapsto> d')) x = heap s x \<or>
      (\<exists>d1 d2. heap s x = Some d1 \<and> ((heap s)(p \<mapsto> d')) x = Some d2 \<and> d_pid d2 = d_pid d1)"
    for x using assms(2,3) by simp
  have "tree_ok (pid_of ((heap s)(p \<mapsto> d'))) (pid_carrier ((heap s)(p \<mapsto> d'))) (spawns s)"
    by (rule tree_ok_heap_upd [of "heap s"]) (use assms(1) h' in \<open>auto simp: procs_but_def\<close>)
  moreover have "active ((heap s)(p \<mapsto> d')) = active (heap s)"
    using assms(2,4) by (auto simp: active_def)
  moreover have "pid_of ((heap s)(p \<mapsto> d')) = pid_of (heap s)"
    using assms(2,3) by (auto simp: pid_of_def fun_eq_iff)
  moreover have "p \<noteq> key_frame" using assms(1,2) by (auto simp: procs_but_def)
  ultimately show ?thesis using assms(1)
    by (auto simp: procs_but_def simp del: pid_of_upd active_upd)
qed

lemma procs_ok_sent [simp]: "procs_but gone (s\<lparr>sent := x\<rparr>) = procs_but gone s"
  by (simp add: procs_but_def)

lemma procs_ok_forks [simp]: "procs_but gone (s\<lparr>forks := x\<rparr>) = procs_but gone s"
  by (simp add: procs_but_def)

lemma procs_ok_allocations [simp]: "procs_but gone (s\<lparr>allocations := x\<rparr>) = procs_but gone s"
  by (simp add: procs_but_def)

text \<open>
  \<^verbatim>\<open>daemon_spawn\<close>: the fork fails and nothing else happens, or a new child is recorded.
\<close>

definition spawn_done :: "ptr \<Rightarrow> daemon \<Rightarrow> 'z procs_scheme \<Rightarrow> 'z procs_scheme \<Rightarrow> bool" where
  "spawn_done p d s s' \<longleftrightarrow>
     (\<exists>pid root fs. pid \<notin> set (children s) \<and> set_tree_node root = insert p (set_tree_node (spawns s))
       \<and> s' = s\<lparr>forks := fs, children := pid # children s,
           heap := (heap s)(p \<mapsto> d\<lparr>d_pid := pid, d_state := DAEMON_STARTED\<rparr>), spawns := root\<rparr>)"

lemma fork_fails:
  assumes "\<not> (\<exists>pid fs. forks s = pid # fs \<and> 0 < pid \<and> pid < PID_MAX \<and> pid \<notin> set (children s))"
  shows "fork s = (- 1, s\<lparr>forks := tl (forks s)\<rparr>)"
  unfolding fork_def using assms by (cases "forks s") auto

lemma spawns_record_ok:
  assumes "procs_but {p} s" "p \<in> pid_carrier (heap s)"
    "pid_of (heap s) p \<notin> pid_of (heap s) ` set_tree_node (spawns s)"
  shows "\<exists>root. spawns_record p s = Inr (s\<lparr>spawns := root\<rparr>)
    \<and> tree_ok (pid_of (heap s)) (pid_carrier (heap s)) root
    \<and> set_tree_node root = insert p (set_tree_node (spawns s))"
proof -
  have ok: "tree_ok (pid_of (heap s)) (pid_carrier (heap s)) (spawns s)"
    using assms(1) by (simp add: procs_but_def)
  have "tree_map (pid_of (heap s)) (spawns s) (pid_of (heap s) p) = None"
  proof (cases "tree_map (pid_of (heap s)) (spawns s) (pid_of (heap s) p)")
    case (Some x)
    then have "x \<in> set_tree_node (spawns s)" "pid_of (heap s) x = pid_of (heap s) p"
      by (simp_all add: tree_ok_map [OF ok])
    with assms(3) show ?thesis by (metis image_eqI)
  qed
  from spawned.tree_insert_fresh [OF ok assms(2) this] show ?thesis
    unfolding spawns_record_def by (metis rbind_Inr)
qed

lemma fork_done:
  assumes "procs_ok s" "heap s p = Some d" "d_state d = DAEMON_STOPPED"
    "0 < pid" "pid < PID_MAX" "pid \<notin> set (children s)"
  shows "procs_but {p} (s\<lparr>forks := fs, children := pid # children s,
      heap := (heap s)(p \<mapsto> d\<lparr>d_pid := pid, d_state := DAEMON_STARTED\<rparr>)\<rparr>)"
    and "pid \<notin> pid_of (heap s) ` set_tree_node (spawns s)"
    and "p \<notin> set_tree_node (spawns s)"
proof -
  define h where "h = (heap s)(p \<mapsto> d\<lparr>d_pid := pid, d_state := DAEMON_STARTED\<rparr>)"
  have ok: "tree_ok (pid_of (heap s)) (pid_carrier (heap s)) (spawns s)"
    and set: "set_tree_node (spawns s) = active (heap s)"
    and pids: "pid_of (heap s) ` set_tree_node (spawns s) \<subseteq> set (children s)"
    and rest: "\<forall>pid \<in> set (children s). 0 < pid \<and> pid < PID_MAX" "distinct (children s)"
      "heap s key_frame = None"
    using assms(1) by (auto simp: procs_but_def)
  show out: "p \<notin> set_tree_node (spawns s)" using assms(2,3) by (simp add: set active_def)
  show "pid \<notin> pid_of (heap s) ` set_tree_node (spawns s)" using pids assms(6) by blast
  have same: "h x = heap s x" if "x \<in> set_tree_node (spawns s)" for x
    using that out by (auto simp: h_def)
  have "tree_ok (pid_of h) (pid_carrier h) (spawns s)"
    by (rule tree_ok_heap_upd [OF ok]) (rule disjI1, rule same)
  moreover have "active h = insert p (active (heap s))" by (simp add: h_def)
  moreover have "pid_of h ` set_tree_node (spawns s) \<subseteq> insert pid (set (children s))"
    using pids same by (auto simp: pid_of_def)
  moreover have "h key_frame = None" using rest(3) assms(2) by (auto simp: h_def)
  ultimately show "procs_but {p} (s\<lparr>forks := fs, children := pid # children s,
      heap := (heap s)(p \<mapsto> d\<lparr>d_pid := pid, d_state := DAEMON_STARTED\<rparr>)\<rparr>)"
    unfolding h_def [symmetric] using assms(4-6) rest set out
    by (auto simp: procs_but_def)
qed

lemma procs_but_record:
  assumes "procs_but {p} s" "p \<in> active (heap s)" "tree_ok (pid_of (heap s)) (pid_carrier (heap s)) root"
    "set_tree_node root = insert p (set_tree_node (spawns s))" "pid_of (heap s) p \<in> set (children s)"
  shows "procs_ok (s\<lparr>spawns := root\<rparr>)"
  using assms by (auto simp: procs_but_def)

lemma spawn_done_intro:
  assumes "procs_ok s" "heap s p = Some d" "d_state d = DAEMON_STOPPED" "forks s = pid # fs"
    "0 < pid" "pid < PID_MAX" "pid \<notin> set (children s)"
  shows "\<exists>s'. daemon_spawn p s = Inr (0, s') \<and> procs_ok s' \<and> spawn_done p d s s'"
proof -
  define d' where "d' = d\<lparr>d_pid := pid, d_state := DAEMON_STARTED\<rparr>"
  define s1 where "s1 = s\<lparr>forks := fs, children := pid # children s, heap := (heap s)(p \<mapsto> d')\<rparr>"
  have but: "procs_but {p} s1" "p \<notin> set_tree_node (spawns s)"
    and new: "pid \<notin> pid_of (heap s) ` set_tree_node (spawns s)"
    unfolding s1_def d'_def by (rule fork_done [OF assms(1-3) assms(5-7)])+
  have p: "p \<in> pid_carrier (heap s1)" "pid_of (heap s1) p = pid" "p \<in> active (heap s1)"
    using assms(5,6) by (simp_all add: s1_def d'_def)
  have "pid_of (heap s1) x = pid_of (heap s) x" if "x \<in> set_tree_node (spawns s)" for x
    using that but(2) by (auto simp: s1_def)
  then have "pid_of (heap s1) ` set_tree_node (spawns s) = pid_of (heap s) ` set_tree_node (spawns s)"
    by auto
  then have "pid_of (heap s1) p \<notin> pid_of (heap s1) ` set_tree_node (spawns s1)"
    using new by (simp add: p(2)) (simp add: s1_def)
  from spawns_record_ok [OF but(1) p(1) this] obtain root where
    root: "spawns_record p s1 = Inr (s1\<lparr>spawns := root\<rparr>)"
      "tree_ok (pid_of (heap s1)) (pid_carrier (heap s1)) root"
      "set_tree_node root = insert p (set_tree_node (spawns s1))" by blast
  have "pid_of (heap s1) p \<in> set (children s1)" by (simp add: p(2)) (simp add: s1_def)
  from procs_but_record [OF but(1) p(3) root(2,3) this]
  have ok: "procs_ok (s1\<lparr>spawns := root\<rparr>)" .
  have "fork s = (pid, s\<lparr>forks := fs, children := pid # children s\<rparr>)"
    using assms(4-7) by (simp add: fork_def)
  then have "daemon_spawn p s = Inr (0, s1\<lparr>spawns := root\<rparr>)"
    using assms(2,5) root(1) by (simp add: daemon_spawn_def s1_def d'_def)
  moreover have "spawn_done p d s (s1\<lparr>spawns := root\<rparr>)"
    unfolding spawn_done_def s1_def d'_def using root(3) assms(7)
    by (auto simp: s1_def)
  ultimately show ?thesis using ok by auto
qed

lemma daemon_spawn_ok:
  assumes "procs_ok s" "heap s p = Some d" "d_state d = DAEMON_STOPPED"
  obtains (failed) "daemon_spawn p s = Inr (- 1, s\<lparr>forks := tl (forks s)\<rparr>)"
  | (forked) s' where "daemon_spawn p s = Inr (0, s')" "procs_ok s'" "spawn_done p d s s'"
proof (cases "\<exists>pid fs. forks s = pid # fs \<and> 0 < pid \<and> pid < PID_MAX \<and> pid \<notin> set (children s)")
  case False
  from fork_fails [OF this] have "daemon_spawn p s = Inr (- 1, s\<lparr>forks := tl (forks s)\<rparr>)"
    by (simp add: daemon_spawn_def)
  then show ?thesis by (rule failed)
next
  case True
  then show ?thesis using spawn_done_intro [OF assms] forked by blast
qed

lemma spawn_done_steady:
  assumes "spawn_done p d s s'" "heap s p = Some d"
  shows "steady s s'" "signals_children s s'"
  using assms by (auto simp: spawn_done_def steady_def signals_children_def)

text \<open>
  What the four operations a client can ask for share: on a known daemon they never fault, keep
  the invariant, and signal children only.
\<close>

locale daemon_action =
  fixes action :: "ptr \<Rightarrow> 'z procs_scheme \<Rightarrow> 'z procs_scheme result"
  assumes action_ok: "procs_ok s \<Longrightarrow> p \<in> dom (heap s) \<Longrightarrow>
    \<exists>s'. action p s = Inr s' \<and> procs_ok s' \<and> steady s s' \<and> signals_children s s'"
begin

lemma action_list:
  assumes "procs_ok s" "set ps \<subseteq> dom (heap s)"
  shows "\<exists>s'. rfold action ps s = Inr s' \<and> procs_ok s' \<and> steady s s'"
proof -
  have "\<exists>s'. rfold action ps s = Inr s' \<and> procs_ok s' \<and> steady s s'"
  proof (rule rfold_invariant [where I = "\<lambda>s'. procs_ok s' \<and> steady s s'"])
    fix x s1 assume "x \<in> set ps" "procs_ok s1 \<and> steady s s1"
    moreover from this have "x \<in> dom (heap s1)" using assms(2) steady_dom by blast
    ultimately show "\<exists>s'. action x s1 = Inr s' \<and> procs_ok s' \<and> steady s s'"
      using action_ok steady_trans by blast
  qed (use assms(1) in simp)
  then show ?thesis .
qed

end

lemma daemon_start_ok:
  assumes "procs_ok s" "heap s p = Some d"
  obtains (running) "d_state d \<noteq> DAEMON_STOPPED" "daemon_start p s = Inr s"
  | (failed) "d_state d = DAEMON_STOPPED" "daemon_start p s = Inr (s\<lparr>forks := tl (forks s)\<rparr>)"
  | (forked) s' where "d_state d = DAEMON_STOPPED" "daemon_start p s = Inr s'" "procs_ok s'"
      "spawn_done p d s s'"
proof (cases "d_state d = DAEMON_STOPPED")
  case False
  then have "daemon_start p s = Inr s" using assms(2)
    by (cases "d_state d") (simp_all add: daemon_start_def)
  with False show ?thesis by (rule running)
next
  case True
  then have start: "daemon_start p s = rbind (daemon_spawn p s) (\<lambda>(_, s). Inr s)"
    using assms(2) by (simp add: daemon_start_def)
  show ?thesis
  proof (cases rule: daemon_spawn_ok [OF assms True])
    case 1
    with True start show ?thesis by (intro failed) simp_all
  next
    case (2 s')
    with True start show ?thesis by (intro forked [of s']) simp_all
  qed
qed

interpretation daemon_start: daemon_action daemon_start
proof (unfold_locales, goal_cases)
  case (1 s p)
  then obtain d where d: "heap s p = Some d" by blast
  show ?case
    by (cases rule: daemon_start_ok [OF 1(1) d])
      (use 1(1) d spawn_done_steady [of p d s] in
        \<open>auto simp: steady_def signals_children_def\<close>)
qed

interpretation daemon_stop: daemon_action daemon_stop
proof (unfold_locales, goal_cases)
  case (1 s p)
  then obtain d where d: "heap s p = Some d" by blast
  show ?case
  proof (cases "d_state d")
    case DAEMON_STARTED
    define s1 where "s1 = s\<lparr>sent := sent s @ [(d_pid d, conf_sigfinish (d_conf d))]\<rparr>"
    have "procs_ok s1" "heap s1 p = Some d" using 1(1) d by (simp_all add: s1_def)
    then have "procs_ok (s1\<lparr>heap := (heap s1)(p \<mapsto> d\<lparr>d_state := DAEMON_STOPPING\<rparr>)\<rparr>)"
      by (rule procs_ok_upd) (simp_all add: DAEMON_STARTED)
    moreover have "d_pid d \<in> set (children s)"
      using spawned_pid [OF 1(1) d] DAEMON_STARTED by simp
    ultimately show ?thesis using d DAEMON_STARTED
      by (simp add: daemon_stop_def kill_def steady_def signals_children_def s1_def)
  qed (use 1(1) d in \<open>simp_all add: daemon_stop_def\<close>)
qed

interpretation daemon_reload: daemon_action daemon_reload
proof (unfold_locales, goal_cases)
  case (1 s p)
  then obtain d where d: "heap s p = Some d" by blast
  then show ?case
    using spawned_pid [OF 1(1) d] 1(1)
    by (cases "d_state d")
      (simp_all add: daemon_reload_def kill_def steady_def signals_children_def)
qed

interpretation daemon_end: daemon_action daemon_end
proof (unfold_locales, goal_cases)
  case (1 s p)
  then obtain d where d: "heap s p = Some d" by blast
  then show ?case
    using spawned_pid [OF 1(1) d] 1(1)
    by (cases "d_state d")
      (simp_all add: daemon_end_def kill_def steady_def signals_children_def)
qed

section \<open>Creation and destruction\<close>

lemma daemon_create_ok:
  assumes "procs_ok s" "daemon_create name s = (r, s')"
  shows "procs_ok s'" "procs.more s' = procs.more s" "spawns s' = spawns s"
    "children s' = children s" "sent s' = sent s"
    and "r = None \<Longrightarrow> heap s' = heap s"
    and "r = Some p \<Longrightarrow> heap s p = None \<and> p \<noteq> key_frame \<and> p \<noteq> rc_frame \<and> heap s' = (heap s)(p \<mapsto>
      \<lparr>d_state = DAEMON_STOPPED, d_name = name, d_pid = 0, d_conf = daemon_conf_init\<rparr>)"
proof -
  have new: "procs_ok (s\<lparr>allocations := as, heap := (heap s)(q \<mapsto> d)\<rparr>)"
    if "heap s q = None" "q \<noteq> key_frame" "d_state d = DAEMON_STOPPED" for q d as
  proof -
    have out: "q \<notin> set_tree_node (spawns s)"
      using assms(1) that(1) by (auto simp: procs_but_def active_def)
    have "tree_ok (pid_of ((heap s)(q \<mapsto> d))) (pid_carrier ((heap s)(q \<mapsto> d))) (spawns s)"
      by (rule tree_ok_heap_upd [of "heap s"]) (use assms(1) out in \<open>auto simp: procs_but_def\<close>)
    moreover have "pid_of ((heap s)(q \<mapsto> d)) ` set_tree_node (spawns s)
        = pid_of (heap s) ` set_tree_node (spawns s)"
      using out by (auto simp: image_iff)
    moreover have "active (heap s) - {q} = active (heap s)" using that(1) by (auto simp: active_def)
    ultimately show ?thesis using assms(1) that by (auto simp: procs_but_def)
  qed
  show "procs_ok s'" using assms new
    by (auto simp: daemon_create_def malloc_def split: list.splits prod.splits if_splits)
  show "procs.more s' = procs.more s" "spawns s' = spawns s" "children s' = children s"
    "sent s' = sent s" "r = None \<Longrightarrow> heap s' = heap s"
    "r = Some p \<Longrightarrow> heap s p = None \<and> p \<noteq> key_frame \<and> p \<noteq> rc_frame \<and> heap s' = (heap s)(p \<mapsto>
      \<lparr>d_state = DAEMON_STOPPED, d_name = name, d_pid = 0, d_conf = daemon_conf_init\<rparr>)"
    using assms(2)
    by (auto simp: daemon_create_def malloc_def split: list.splits prod.splits if_splits)
qed

text \<open>
  Destroying takes the daemon out of the memory and, when it is active, out of the storage: its
  process stays a child, which the program no longer knows.
\<close>

lemma procs_ok_delete:
  assumes "procs_but {p} s \<or> procs_ok s \<and> p \<notin> active (heap s)" "p \<notin> set_tree_node (spawns s)"
  shows "procs_ok (s\<lparr>heap := (heap s)(p := None)\<rparr>)"
proof -
  have same: "((heap s)(p := None)) x = heap s x" if "x \<in> set_tree_node (spawns s)" for x
    using that assms(2) by auto
  have ok: "tree_ok (pid_of (heap s)) (pid_carrier (heap s)) (spawns s)"
    using assms(1) by (auto simp: procs_but_def)
  have "tree_ok (pid_of ((heap s)(p := None))) (pid_carrier ((heap s)(p := None))) (spawns s)"
    by (rule tree_ok_heap_upd [OF ok]) (rule disjI1, rule same)
  moreover have "pid_of ((heap s)(p := None)) ` set_tree_node (spawns s)
      = pid_of (heap s) ` set_tree_node (spawns s)"
    by (rule image_cong [OF refl]) (use same in \<open>simp add: pid_of_def\<close>)
  ultimately show ?thesis using assms by (auto simp: procs_but_def)
qed

lemma daemon_destroy_ok:
  assumes "procs_ok s" "heap s p = Some d"
  shows "\<exists>root. daemon_destroy p s = Inr (s\<lparr>spawns := root, heap := (heap s)(p := None)\<rparr>)
    \<and> procs_ok (s\<lparr>spawns := root, heap := (heap s)(p := None)\<rparr>)"
proof (cases "d_state d = DAEMON_STOPPED")
  case True
  have "p \<notin> active (heap s)" using True assms(2) by (simp add: active_def)
  with assms(1) procs_ok_delete [of p s] have "procs_ok (s\<lparr>heap := (heap s)(p := None)\<rparr>)"
    by (auto simp: procs_but_def)
  then show ?thesis using assms(2) True
    by (intro exI [of _ "spawns s"]) (simp add: daemon_destroy_def)
next
  case False
  note pid = spawned_pid [OF assms False]
  have "spawned_daemons s (d_pid d) = Some p"
    using spawned_iff [OF assms(1)] assms(2) False by (simp add: active_def pid_of_def)
  with spawns_retrieve_ok [OF assms(1), of "d_pid d"] pid(3,4) obtain root where
    root: "spawns_retrieve (d_pid d) s = Inr (Some p, s\<lparr>spawns := root\<rparr>)"
      "procs_but {p} (s\<lparr>spawns := root\<rparr>)" "set_tree_node root = set_tree_node (spawns s) - {p}"
    by auto
  with procs_ok_delete [of p "s\<lparr>spawns := root\<rparr>"]
  have "procs_ok (s\<lparr>spawns := root, heap := (heap s)(p := None)\<rparr>)" by simp
  then show ?thesis using assms(2) False root(1)
    by (intro exI [of _ root]) (simp add: daemon_destroy_def)
qed

section \<open>Stopping every spawned daemon: what it does\<close>

definition quiet_conf :: "daemon_conf \<Rightarrow> daemon_conf" where
  "quiet_conf conf = conf\<lparr>start_load := False, start_reload := False, start_exitsuccess := False,
     start_exitfailure := False, start_killed := False, start_dumped := False\<rparr>"

definition stopped_element :: "daemon \<Rightarrow> daemon" where
  "stopped_element d = d\<lparr>d_conf := quiet_conf (d_conf d),
     d_state := (if d_state d = DAEMON_STARTED then DAEMON_STOPPING else d_state d)\<rparr>"

definition finish_signals :: "(ptr \<rightharpoonup> daemon) \<Rightarrow> ptr list \<Rightarrow> (int \<times> int) list" where
  "finish_signals h ps =
     map (\<lambda>p. (d_pid (the (h p)), conf_sigfinish (d_conf (the (h p)))))
       (filter (\<lambda>p. d_state (the (h p)) = DAEMON_STARTED) ps)"

definition stop_all :: "ptr list \<Rightarrow> 'z procs_scheme \<Rightarrow> 'z procs_scheme" where
  "stop_all ps s = s\<lparr>
     heap := (\<lambda>p. if p \<in> set ps then map_option stopped_element (heap s p) else heap s p),
     sent := sent s @ finish_signals (heap s) ps\<rparr>"

lemma spawns_stop_element_stop_all:
  assumes "heap s p = Some d"
  shows "spawns_stop_element p s = Inr (stop_all [p] s)"
  using assms
  by (cases "d_state d")
    (auto simp: spawns_stop_element_def stop_all_def daemon_stop_def kill_def finish_signals_def
      stopped_element_def quiet_conf_def fun_eq_iff Let_def intro!: procs.equality)

lemma stop_all_Cons:
  assumes "p \<notin> set ps"
  shows "stop_all ps (stop_all [p] s) = stop_all (p # ps) s"
proof -
  have "finish_signals (heap (stop_all [p] s)) ps = finish_signals (heap s) ps"
    using assms by (auto simp: finish_signals_def stop_all_def intro!: map_cong filter_cong)
  then show ?thesis using assms
    by (auto simp: stop_all_def finish_signals_def fun_eq_iff intro!: procs.equality)
qed

lemma stop_all_list:
  "distinct ps \<Longrightarrow> set ps \<subseteq> dom (heap s) \<Longrightarrow> rfold spawns_stop_element ps s = Inr (stop_all ps s)"
proof (induction ps arbitrary: s)
  case Nil
  then show ?case by (simp add: stop_all_def finish_signals_def)
next
  case (Cons p ps)
  then obtain d where "heap s p = Some d" by auto
  moreover have "set ps \<subseteq> dom (heap (stop_all [p] s))"
    using Cons.prems(2) by (auto simp: stop_all_def dom_def)
  ultimately show ?case
    using Cons stop_all_Cons [of p ps s] by (simp add: spawns_stop_element_stop_all)
qed

lemma spawns_stop_all:
  assumes "procs_ok s"
  shows "spawns_stop s = Inr (stop_all (tree_preorder (spawns s)) s)"
proof -
  have "ordered_by (pid_of (heap s)) (pid_carrier (heap s)) (spawns s)"
    using assms by (simp add: procs_but_def tree_ok_def)
  then have "distinct (tree_preorder (spawns s))" by (rule distinct_preorder)
  moreover have "set (tree_preorder (spawns s)) \<subseteq> dom (heap s)"
    using assms mset_preorder [of "spawns s", THEN mset_eq_setD]
    by (auto simp: procs_but_def active_def set_tree_inorder)
  ultimately show ?thesis
    by (simp add: spawns_stop_def preorder_mutate_rfold stop_all_list)
qed

text \<open>Stopping keeps the invariant: the pids stay, and no daemon becomes stopped.\<close>

lemma procs_ok_stop_all:
  assumes "procs_ok s"
  shows "procs_ok (stop_all (tree_preorder (spawns s)) s)"
proof -
  define s' where "s' = stop_all (tree_preorder (spawns s)) s"
  have stopped: "heap s' p = heap s p \<or> (\<exists>d. heap s p = Some d \<and> heap s' p = Some (stopped_element d))" for p
    by (cases "heap s p") (auto simp: s'_def stop_all_def)
  have pid: "pid_of (heap s') p = pid_of (heap s) p" for p
    using stopped [of p] by (auto simp: pid_of_def stopped_element_def)
  have carrier: "p \<in> pid_carrier (heap s') \<longleftrightarrow> p \<in> pid_carrier (heap s)" for p
    using stopped [of p] by (elim disjE exE conjE) (simp_all add: pid_carrier_def stopped_element_def)
  have act: "p \<in> active (heap s') \<longleftrightarrow> p \<in> active (heap s)" for p
    using stopped [of p] by (elim disjE exE conjE) (simp_all add: active_def stopped_element_def)
  have "pid_of (heap s') = pid_of (heap s)" "pid_carrier (heap s') = pid_carrier (heap s)"
    "active (heap s') = active (heap s)" using pid carrier act by auto
  moreover have "heap s' key_frame = None"
    using stopped [of key_frame] assms by (auto simp: procs_but_def)
  moreover have "spawns s' = spawns s" "children s' = children s" by (simp_all add: s'_def stop_all_def)
  ultimately show ?thesis unfolding s'_def [symmetric] using assms unfolding procs_but_def by auto
qed

end
