(* ===== verification/Reap.thy ===== *)
theory Reap
  imports Daemon
begin

text \<open>
  The reaping of the children and the run commands of \<^verbatim>\<open>src/cyberd/main.c\<close>:
  \<^verbatim>\<open>reaped_daemon\<close>, \<^verbatim>\<open>reaped_orphan\<close>, \<^verbatim>\<open>reap_children\<close> and \<^verbatim>\<open>rc\<close>. The
  children that terminated come as the list of what \<^verbatim>\<open>waitid(2)\<close> reports, in order.
\<close>

section \<open>What the kernel reports\<close>

record siginfo =
  si_code :: int
  si_pid :: int
  si_status :: int

definition CLD_EXITED :: int where "CLD_EXITED = 1"
definition CLD_KILLED :: int where "CLD_KILLED = 2"
definition CLD_DUMPED :: int where "CLD_DUMPED = 3"

text \<open>
  \<^verbatim>\<open>waitid(2)\<close> reports a child once, and its pid is free for the next forks. A process
  that is not a child is not one it reports.
\<close>

definition waitid :: "siginfo \<Rightarrow> 'z procs_scheme \<Rightarrow> 'z procs_scheme option" where
  "waitid info s =
     (if si_pid info \<in> set (children s)
      then Some (s\<lparr>children := remove1 (si_pid info) (children s)\<rparr>)
      else None)"

section \<open>Reaping\<close>

definition reaped_daemon :: "siginfo \<Rightarrow> ptr \<Rightarrow> 'z procs_scheme \<Rightarrow> 'z procs_scheme result" where
  "reaped_daemon info p s =
     rbind (deref (heap s) p) (\<lambda>d.
       let stopped = s\<lparr>heap := (heap s)(p \<mapsto> d\<lparr>d_state := DAEMON_STOPPED\<rparr>)\<rparr>
       in if si_code info = CLD_EXITED then
            if si_status info = 0 then
              if start_exitsuccess (d_conf d) then daemon_start p stopped else Inr stopped
            else if start_exitfailure (d_conf d) then daemon_start p stopped
            else Inr stopped
          else if si_code info = CLD_KILLED then
            if start_killed (d_conf d) then daemon_start p stopped else Inr stopped
          else if si_code info = CLD_DUMPED then
            if start_dumped (d_conf d) then daemon_start p stopped else Inr stopped
          else Inl Abort)"

definition reaped_orphan :: "siginfo \<Rightarrow> 'z procs_scheme \<Rightarrow> 'z procs_scheme result" where
  "reaped_orphan info s =
     (if si_code info = CLD_EXITED then Inr s
      else if si_code info = CLD_KILLED then Inr s
      else if si_code info = CLD_DUMPED then Inr s
      else Inl Abort)"

definition reap_child :: "siginfo \<Rightarrow> 'z procs_scheme \<Rightarrow> 'z procs_scheme result" where
  "reap_child info s =
     rbind (spawns_retrieve (si_pid info) s) (\<lambda>(daemon, s).
       case daemon of
         Some p \<Rightarrow> reaped_daemon info p s
       | None \<Rightarrow> reaped_orphan info s)"

text \<open>
  The loop, over the children that terminate: with \<^verbatim>\<open>WNOHANG\<close> the ones that already did, and
  otherwise the ones it waits for. The last call finds no child ready and returns zero, or no
  child at all and returns -1 with \<^verbatim>\<open>ECHILD\<close>.
\<close>

fun reap_children :: "siginfo list \<Rightarrow> 'z procs_scheme \<Rightarrow> (int \<times> 'z procs_scheme) result" where
  "reap_children [] s = Inr (if children s = [] then - 1 else 0, s)"
| "reap_children (info # infos) s =
     (case waitid info s of
        None \<Rightarrow> reap_children infos s
      | Some s \<Rightarrow> rbind (reap_child info s) (reap_children infos))"

section \<open>Run commands\<close>

text \<open>The zeroed configuration of the daemon \<^verbatim>\<open>rc\<close> declares.\<close>

definition zero_conf :: daemon_conf where
  "zero_conf =
     \<lparr>conf_path = None, conf_arguments = None, conf_environment = None, conf_workdir = None,
      conf_in = None, conf_out = None, conf_err = None, conf_sigfinish = 0, conf_sigreload = 0,
      conf_uid = 0, conf_gid = 0, conf_nosid = False, conf_umask = 0, conf_priority = 0,
      start_load = False, start_reload = False, start_exitsuccess = False,
      start_exitfailure = False, start_killed = False, start_dumped = False\<rparr>"

text \<open>
  The loop suspends until \<^verbatim>\<open>SIGCHLD\<close> and reaps: one batch of terminated children each time.
  \<open>None\<close> is the process still waiting when the batches are used up.
\<close>

fun rc_wait :: "siginfo list list \<Rightarrow> 'z procs_scheme \<Rightarrow> 'z procs_scheme option result" where
  "rc_wait [] s = Inr None"
| "rc_wait (batch # batches) s =
     rbind (reap_children batch s) (\<lambda>(_, s).
       if spawns_empty s then Inr (Some s) else rc_wait batches s)"

definition rc :: "siginfo list list \<Rightarrow> 'z procs_scheme \<Rightarrow> 'z procs_scheme option result" where
  "rc batches s =
     (let (pid, s) = fork s;
          s = s\<lparr>heap := (heap s)(rc_frame \<mapsto>
            \<lparr>d_state = DAEMON_STARTED, d_name = ''rc'', d_pid = pid, d_conf = zero_conf\<rparr>)\<rparr>
      in if pid = - 1 then Inr (Some (s\<lparr>heap := (heap s)(rc_frame := None)\<rparr>))
         else rbind (spawns_record rc_frame s) (\<lambda>s.
              rbind (rc_wait batches s) (\<lambda>r.
              Inr (map_option (\<lambda>s. s\<lparr>heap := (heap s)(rc_frame := None)\<rparr>) r))))"

section \<open>One child\<close>

definition terminated :: "siginfo \<Rightarrow> bool" where
  "terminated info \<longleftrightarrow> si_code info \<in> {CLD_EXITED, CLD_KILLED, CLD_DUMPED}"

text \<open>When a configuration asks for the daemon to be started again.\<close>

definition restarts :: "siginfo \<Rightarrow> daemon_conf \<Rightarrow> bool" where
  "restarts info conf \<longleftrightarrow>
     si_code info = CLD_EXITED \<and> si_status info = 0 \<and> start_exitsuccess conf
     \<or> si_code info = CLD_EXITED \<and> si_status info \<noteq> 0 \<and> start_exitfailure conf
     \<or> si_code info = CLD_KILLED \<and> start_killed conf
     \<or> si_code info = CLD_DUMPED \<and> start_dumped conf"

lemma reaped_daemon_restarts:
  assumes "terminated info" "heap s p = Some d"
  shows "reaped_daemon info p s =
    (let stopped = s\<lparr>heap := (heap s)(p \<mapsto> d\<lparr>d_state := DAEMON_STOPPED\<rparr>)\<rparr>
     in if restarts info (d_conf d) then daemon_start p stopped else Inr stopped)"
  using assms
  by (auto simp: reaped_daemon_def terminated_def restarts_def CLD_EXITED_def CLD_KILLED_def
      CLD_DUMPED_def Let_def)

text \<open>
  The state between the report of the kernel and the end of the reaping: the pid is no child any
  more, and a daemon that had it is stopped and out of the storage.
\<close>

definition child_gone :: "int \<Rightarrow> 'z procs_scheme \<Rightarrow> 'z procs_scheme \<Rightarrow> bool" where
  "child_gone pid s s' \<longleftrightarrow>
     (\<exists>root. s' = s\<lparr>children := remove1 pid (children s), spawns := root,
        heap := (case spawned_daemons s pid of None \<Rightarrow> heap s
                 | Some p \<Rightarrow> (heap s)(p \<mapsto> (the (heap s p))\<lparr>d_state := DAEMON_STOPPED\<rparr>))\<rparr>
      \<and> set_tree_node root = set_tree_node (spawns s) - set_option (spawned_daemons s pid))"

lemma procs_ok_stopped:
  assumes "procs_but {p} s" "heap s p = Some d" "p \<notin> set_tree_node (spawns s)"
  shows "procs_ok (s\<lparr>heap := (heap s)(p \<mapsto> d\<lparr>d_state := DAEMON_STOPPED\<rparr>)\<rparr>)"
proof -
  define h where "h = (heap s)(p \<mapsto> d\<lparr>d_state := DAEMON_STOPPED\<rparr>)"
  have same: "h x = heap s x" if "x \<in> set_tree_node (spawns s)" for x
    using that assms(3) by (auto simp: h_def)
  have ok: "tree_ok (pid_of (heap s)) (pid_carrier (heap s)) (spawns s)"
    using assms(1) by (simp add: procs_but_def)
  have "tree_ok (pid_of h) (pid_carrier h) (spawns s)"
    by (rule tree_ok_heap_upd [OF ok]) (rule disjI1, rule same)
  moreover have "pid_of h ` set_tree_node (spawns s) \<subseteq> set (children s)"
    using same assms(1) by (auto simp: pid_of_def procs_but_def)
  moreover have "active h = active (heap s) - {p}" by (simp add: h_def)
  moreover have "h key_frame = None" using assms(1,2) by (auto simp: h_def procs_but_def)
  ultimately show ?thesis unfolding h_def [symmetric] using assms(1) by (auto simp: procs_but_def)
qed

lemma reap_child_gone:
  assumes "procs_ok s" "waitid info s = Some s0" "terminated info"
  shows "\<exists>s1. child_gone (si_pid info) s s1 \<and> procs_ok s1 \<and> reap_child info s0 =
    (case spawned_daemons s (si_pid info) of
       None \<Rightarrow> Inr s1
     | Some p \<Rightarrow> if restarts info (d_conf (the (heap s p))) then daemon_start p s1 else Inr s1)"
proof -
  define pid where "pid = si_pid info"
  have s0: "s0 = s\<lparr>children := remove1 pid (children s)\<rparr>" "pid \<in> set (children s)"
    using assms(2) by (auto simp: waitid_def pid_def split: if_splits)
  then have pid: "0 \<le> pid" "pid < PID_MAX" using assms(1) by (auto simp: procs_but_def)
  from spawns_retrieve_ok [OF assms(1) pid] obtain root where
    r: "spawns_retrieve pid s = Inr (spawned_daemons s pid, s\<lparr>spawns := root\<rparr>)"
      "procs_but (set_option (spawned_daemons s pid)) (s\<lparr>spawns := root\<rparr>)"
      "set_tree_node root = set_tree_node (spawns s) - set_option (spawned_daemons s pid)"
      "pid \<notin> pid_of (heap s) ` set_tree_node root" by auto
  define s1 where "s1 = s\<lparr>children := remove1 pid (children s), spawns := root\<rparr>"
  have get: "spawns_retrieve pid s0 = Inr (spawned_daemons s pid, s1)"
    using r(1)
    by (auto simp: spawns_retrieve_def s0(1) s1_def result_iff dest: arg_cong [of _ _ spawns])
  have but: "procs_but (set_option (spawned_daemons s pid)) s1"
    using r(2,4) by (auto simp: procs_but_def s1_def)
  show ?thesis
  proof (cases "spawned_daemons s pid")
    case None
    moreover have "child_gone pid s s1" unfolding child_gone_def s1_def using r(3) None
      by (intro exI [of _ root]) simp
    moreover have "reap_child info s0 = Inr s1" using get None assms(3)
      by (auto simp: reap_child_def reaped_orphan_def terminated_def simp flip: pid_def)
    ultimately show ?thesis using but by (auto simp flip: pid_def)
  next
    case (Some p)
    then have "p \<in> active (heap s)" using spawned_iff [OF assms(1)] by simp
    then obtain d where d: "heap s p = Some d" by (auto simp: active_def)
    define s2 where "s2 = s1\<lparr>heap := (heap s1)(p \<mapsto> d\<lparr>d_state := DAEMON_STOPPED\<rparr>)\<rparr>"
    have "child_gone pid s s2" unfolding child_gone_def s2_def s1_def using r(3) Some d
      by (intro exI [of _ root]) simp
    moreover have "procs_ok s2" unfolding s2_def
      by (rule procs_ok_stopped) (use but Some d r(3) in \<open>auto simp: s1_def\<close>)
    moreover have "heap s1 p = Some d" using d by (simp add: s1_def)
    then have "reap_child info s0 =
        (if restarts info (d_conf d) then daemon_start p s2 else Inr s2)"
      using get Some by (simp add: reap_child_def reaped_daemon_restarts [OF assms(3)] s2_def
          flip: pid_def)
    ultimately show ?thesis using Some d by (auto simp flip: pid_def)
  qed
qed

text \<open>
  A report with another code than the three of a termination ends in \<^verbatim>\<open>abort(3)\<close>, for the
  child of a daemon and for an orphan.
\<close>

lemma reap_other_code_aborts:
  assumes "procs_ok s" "si_pid info \<in> set (children s)" "\<not> terminated info"
  shows "reap_children (info # infos) s = Inl Abort"
proof -
  define s0 where "s0 = s\<lparr>children := remove1 (si_pid info) (children s)\<rparr>"
  have pid: "0 \<le> si_pid info" "si_pid info < PID_MAX" using assms(1,2) by (auto simp: procs_but_def)
  from spawns_retrieve_ok [OF assms(1) pid] obtain root where
    r: "spawns_retrieve (si_pid info) s = Inr (spawned_daemons s (si_pid info), s\<lparr>spawns := root\<rparr>)" by blast
  then have get: "spawns_retrieve (si_pid info) s0 = Inr (spawned_daemons s (si_pid info), s0\<lparr>spawns := root\<rparr>)"
    by (auto simp: spawns_retrieve_def s0_def result_iff dest: arg_cong [of _ _ spawns])
  have "\<exists>d. heap s0 p = Some d" if "spawned_daemons s (si_pid info) = Some p" for p
    using that spawned_iff [OF assms(1)] by (auto simp: active_def s0_def)
  then have "reap_child info s0 = Inl Abort"
    using get assms(3)
    by (auto simp: reap_child_def reaped_daemon_def reaped_orphan_def terminated_def split: option.splits)
  then show ?thesis using assms(2) by (simp add: waitid_def s0_def)
qed

section \<open>All of them\<close>

lemma child_gone_steady:
  assumes "procs_ok s" "child_gone pid s s1"
  shows "steady s s1" "sent s1 = sent s" "forks s1 = forks s"
    "children s1 = remove1 pid (children s)"
    "set_tree_node (spawns s1) = set_tree_node (spawns s) - set_option (spawned_daemons s pid)"
    "\<And>p. p \<in> set_tree_node (spawns s1) \<Longrightarrow> heap s1 p = heap s p"
    "\<And>p. p \<notin> set_tree_node (spawns s) \<Longrightarrow> heap s1 p = heap s p"
proof -
  from assms(2) obtain root where s1: "s1 = s\<lparr>children := remove1 pid (children s), spawns := root,
      heap := (case spawned_daemons s pid of None \<Rightarrow> heap s
                 | Some p \<Rightarrow> (heap s)(p \<mapsto> (the (heap s p))\<lparr>d_state := DAEMON_STOPPED\<rparr>))\<rparr>"
    "set_tree_node root = set_tree_node (spawns s) - set_option (spawned_daemons s pid)"
    unfolding child_gone_def by blast
  have found: "\<exists>d. heap s p = Some d" if "spawned_daemons s pid = Some p" for p
    using that spawned_iff [OF assms(1)] by (auto simp: active_def)
  show "sent s1 = sent s" "forks s1 = forks s" "children s1 = remove1 pid (children s)"
    "set_tree_node (spawns s1) = set_tree_node (spawns s) - set_option (spawned_daemons s pid)"
    using s1 by simp_all
  show "steady s s1" using s1(1) found
    by (auto simp: steady_def split: option.splits)
  show "heap s1 p = heap s p" if "p \<in> set_tree_node (spawns s1)" for p
    using that s1 by (auto split: option.splits)
  show "heap s1 p = heap s p" if "p \<notin> set_tree_node (spawns s)" for p
  proof -
    have "spawned_daemons s pid \<noteq> Some p"
      using that spawned_iff [OF assms(1)] assms(1) by (auto simp: procs_but_def)
    then show ?thesis using s1(1) by (auto split: option.splits)
  qed
qed

lemma reap_child_ok:
  assumes "procs_ok s" "waitid info s = Some s0" "terminated info"
  shows "\<exists>s'. reap_child info s0 = Inr s' \<and> procs_ok s' \<and> steady s s' \<and> sent s' = sent s"
proof -
  from reap_child_gone [OF assms] obtain s1 where s1: "child_gone (si_pid info) s s1" "procs_ok s1"
    "reap_child info s0 = (case spawned_daemons s (si_pid info) of None \<Rightarrow> Inr s1
      | Some p \<Rightarrow> if restarts info (d_conf (the (heap s p))) then daemon_start p s1 else Inr s1)"
    by blast
  note gone = child_gone_steady [OF assms(1) s1(1)]
  show ?thesis
  proof (cases "\<exists>p. spawned_daemons s (si_pid info) = Some p
      \<and> restarts info (d_conf (the (heap s p)))")
    case True
    then obtain p where p: "spawned_daemons s (si_pid info) = Some p"
      "restarts info (d_conf (the (heap s p)))" by blast
    then have "p \<in> dom (heap s1)"
      using spawned_iff [OF assms(1)] steady_dom [OF gone(1)] by (auto simp: active_def)
    then obtain d where d: "heap s1 p = Some d" by blast
    have start: "reap_child info s0 = daemon_start p s1" using s1(3) p by simp
    show ?thesis
    proof (cases rule: daemon_start_ok [OF s1(2) d])
      case 1
      with start gone s1(2) show ?thesis by auto
    next
      case 2
      with start gone s1(2) show ?thesis by (auto simp: steady_def)
    next
      case (3 s')
      with start gone(2) steady_trans [OF gone(1) spawn_done_steady(1) [OF 3(4) d]]
      show ?thesis by (auto simp: spawn_done_def)
    qed
  next
    case False
    then have "reap_child info s0 = Inr s1" using s1(3) by (auto split: option.splits)
    with gone s1(2) show ?thesis by auto
  qed
qed

lemma reap_children_ok:
  assumes "procs_ok s" "list_all terminated infos"
  shows "\<exists>r s'. reap_children infos s = Inr (r, s') \<and> procs_ok s' \<and> steady s s' \<and> sent s' = sent s
    \<and> r = (if children s' = [] then - 1 else 0)"
  using assms
proof (induction infos arbitrary: s)
  case Nil
  then show ?case by simp
next
  case (Cons info infos)
  then have t: "terminated info" "list_all terminated infos" by simp_all
  show ?case
  proof (cases "waitid info s")
    case None
    with Cons.IH [OF Cons.prems(1) t(2)] show ?thesis by simp
  next
    case (Some s0)
    from reap_child_ok [OF Cons.prems(1) Some t(1)] obtain s1 where
      s1: "reap_child info s0 = Inr s1" "procs_ok s1" "steady s s1" "sent s1 = sent s" by blast
    from Cons.IH [OF s1(2) t(2)] s1 Some show ?thesis by (auto intro: steady_trans)
  qed
qed

section \<open>Without restarts\<close>

definition quiet :: "'z procs_scheme \<Rightarrow> bool" where
  "quiet s \<longleftrightarrow> (\<forall>p \<in> set_tree_node (spawns s). \<forall>info.
     \<not> restarts info (d_conf (the (heap s p))))"

lemma spawned_child:
  assumes "procs_but gone s" "p \<in> set_tree_node (spawns s)"
  shows "pid_of (heap s) p \<in> set (children s)"
proof -
  have "pid_of (heap s) ` set_tree_node (spawns s) \<subseteq> set (children s)"
    using assms(1) unfolding procs_but_def by blast
  with assms(2) show ?thesis by blast
qed

lemma quiet_conf_restarts [simp]: "\<not> restarts info (quiet_conf conf)"
  by (simp add: restarts_def quiet_conf_def)

lemma quiet_stop_all:
  assumes "procs_ok s"
  shows "quiet (stop_all (tree_preorder (spawns s)) s)"
proof -
  have "set (tree_preorder (spawns s)) = set_tree_node (spawns s)"
    using mset_preorder [of "spawns s", THEN mset_eq_setD] by (simp add: set_tree_inorder)
  moreover have "\<exists>d. heap s p = Some d" if "p \<in> set_tree_node (spawns s)" for p
    using that assms by (auto simp: procs_but_def active_def)
  ultimately show ?thesis by (fastforce simp: quiet_def stop_all_def stopped_element_def)
qed

text \<open>
  Where no spawned daemon is to be started again, reaping starts nothing, and empties the
  storage of the pids it reaps.
\<close>

lemma reap_children_quiet:
  assumes "procs_ok s" "quiet s" "list_all terminated infos"
  shows "\<exists>r s'. reap_children infos s = Inr (r, s') \<and> procs_ok s' \<and> quiet s' \<and> forks s' = forks s
    \<and> set (children s') = set (children s) - si_pid ` set infos
    \<and> set_tree_node (spawns s')
        = {p \<in> set_tree_node (spawns s). pid_of (heap s) p \<notin> si_pid ` set infos}
    \<and> (\<forall>p \<in> set_tree_node (spawns s'). heap s' p = heap s p)
    \<and> (\<forall>p. p \<notin> set_tree_node (spawns s) \<longrightarrow> heap s' p = heap s p)"
  using assms
proof (induction infos arbitrary: s)
  case Nil
  then show ?case by simp
next
  case (Cons info infos)
  then have t: "terminated info" "list_all terminated infos" by simp_all
  show ?case
  proof (cases "waitid info s")
    case None
    then have out: "si_pid info \<notin> set (children s)" by (auto simp: waitid_def split: if_splits)
    then have "pid_of (heap s) p \<noteq> si_pid info" if "p \<in> set_tree_node (spawns s)" for p
      using spawned_child [OF Cons.prems(1) that] out by metis
    with Cons.IH [OF Cons.prems(1,2) t(2)] None out show ?thesis by fastforce
  next
    case (Some s0)
    from reap_child_gone [OF Cons.prems(1) Some t(1)] obtain s1 where
      s1: "child_gone (si_pid info) s s1" "procs_ok s1"
      "reap_child info s0 = (case spawned_daemons s (si_pid info) of None \<Rightarrow> Inr s1
        | Some p \<Rightarrow> if restarts info (d_conf (the (heap s p))) then daemon_start p s1 else Inr s1)"
      by blast
    note gone = child_gone_steady [OF Cons.prems(1) s1(1)]
    have spawned: "p \<in> set_tree_node (spawns s) \<and> pid_of (heap s) p = si_pid info"
      if "spawned_daemons s (si_pid info) = Some p" for p
      using that spawned_iff [OF Cons.prems(1)] Cons.prems(1) by (auto simp: procs_but_def)
    with Cons.prems(2) s1(3) have reap: "reap_child info s0 = Inr s1"
      by (auto simp: quiet_def split: option.splits)
    have set: "set_tree_node (spawns s1)
        = {p \<in> set_tree_node (spawns s). pid_of (heap s) p \<noteq> si_pid info}"
      using gone(5) spawned spawned_iff [OF Cons.prems(1), of "si_pid info"] Cons.prems(1)
      by (auto simp: procs_but_def)
    have quiet1: "quiet s1" using Cons.prems(2) gone(5,6) by (auto simp: quiet_def)
    have ch: "set (children s1) = set (children s) - {si_pid info}"
      using gone(4) Cons.prems(1) by (simp add: procs_but_def set_remove1_eq)
    from Cons.IH [OF s1(2) quiet1 t(2)] obtain r s' where
      s': "reap_children infos s1 = Inr (r, s')" "procs_ok s'" "quiet s'" "forks s' = forks s1"
        "set (children s') = set (children s1) - si_pid ` set infos"
        "set_tree_node (spawns s')
          = {p \<in> set_tree_node (spawns s1). pid_of (heap s1) p \<notin> si_pid ` set infos}"
        "\<forall>p \<in> set_tree_node (spawns s'). heap s' p = heap s1 p"
        "\<forall>p. p \<notin> set_tree_node (spawns s1) \<longrightarrow> heap s' p = heap s1 p" by blast
    have "\<forall>p. p \<notin> set_tree_node (spawns s) \<longrightarrow> heap s' p = heap s p"
      using s'(8) gone(7) set by auto
    moreover
    have "set_tree_node (spawns s')
        = {p \<in> set_tree_node (spawns s). pid_of (heap s) p \<notin> si_pid ` set (info # infos)}"
      unfolding s'(6) using set gone(6) by (auto simp: pid_of_def)
    moreover have "\<forall>p \<in> set_tree_node (spawns s'). heap s' p = heap s p"
      using s'(6,7) gone(6) by auto
    moreover have "set (children s') = set (children s) - si_pid ` set (info # infos)"
      unfolding s'(5) ch by auto
    ultimately show ?thesis using Some reap s' gone(3) by auto
  qed
qed

section \<open>The run commands end\<close>

definition reported :: "siginfo list list \<Rightarrow> int set" where
  "reported batches = si_pid ` set (concat batches)"

lemma reported_simps [simp]:
  "reported [] = {}" "reported (batch # batches) = si_pid ` set batch \<union> reported batches"
  by (auto simp: reported_def)

lemma rc_wait_ok:
  assumes "procs_ok s" "quiet s" "list_all (list_all terminated) batches"
  shows "\<exists>r. rc_wait batches s = Inr r
    \<and> (\<forall>s'. r = Some s' \<longrightarrow> procs_ok s' \<and> spawns s' = NULL
          \<and> (\<forall>p. p \<notin> set_tree_node (spawns s) \<longrightarrow> heap s' p = heap s p))
    \<and> (spawns s \<noteq> NULL \<and> pid_of (heap s) ` set_tree_node (spawns s) \<subseteq> reported batches
        \<longrightarrow> r \<noteq> None)"
  using assms
proof (induction batches arbitrary: s)
  case Nil
  have "set_tree_node (spawns s) \<noteq> {}" if "spawns s \<noteq> NULL" using that by (cases "spawns s") auto
  then show ?case by auto
next
  case (Cons batch batches)
  then have t: "list_all terminated batch" "list_all (list_all terminated) batches" by simp_all
  from reap_children_quiet [OF Cons.prems(1,2) t(1)] obtain r1 s1 where
    s1: "reap_children batch s = Inr (r1, s1)" "procs_ok s1" "quiet s1"
      "set_tree_node (spawns s1)
        = {p \<in> set_tree_node (spawns s). pid_of (heap s) p \<notin> si_pid ` set batch}"
      "\<forall>p \<in> set_tree_node (spawns s1). heap s1 p = heap s p"
      "\<forall>p. p \<notin> set_tree_node (spawns s) \<longrightarrow> heap s1 p = heap s p" by blast
  show ?case
  proof (cases "spawns s1 = NULL")
    case True
    then show ?thesis using s1 by (simp add: spawns_empty_def)
  next
    case False
    from Cons.IH [OF s1(2,3) t(2)] obtain r where
      r: "rc_wait batches s1 = Inr r" "\<forall>s'. r = Some s' \<longrightarrow> procs_ok s' \<and> spawns s' = NULL
          \<and> (\<forall>p. p \<notin> set_tree_node (spawns s1) \<longrightarrow> heap s' p = heap s1 p)"
        "spawns s1 \<noteq> NULL \<and> pid_of (heap s1) ` set_tree_node (spawns s1)
            \<subseteq> reported batches \<longrightarrow> r \<noteq> None" by blast
    have keep: "\<forall>p. p \<notin> set_tree_node (spawns s) \<longrightarrow> p \<notin> set_tree_node (spawns s1)" using s1(4) by auto
    have left: "pid_of (heap s1) ` set_tree_node (spawns s1) \<subseteq> reported batches"
      if all: "pid_of (heap s) ` set_tree_node (spawns s) \<subseteq> reported (batch # batches)"
    proof
      fix x assume "x \<in> pid_of (heap s1) ` set_tree_node (spawns s1)"
      then obtain p where p: "x = pid_of (heap s1) p" "p \<in> set_tree_node (spawns s1)" by blast
      then have "pid_of (heap s) p \<in> reported (batch # batches)" "pid_of (heap s) p \<notin> si_pid ` set batch"
        using s1(4) all by blast+
      moreover have "x = pid_of (heap s) p" using s1(5) p by (simp add: pid_of_def)
      ultimately show "x \<in> reported batches" by simp
    qed
    have "rc_wait (batch # batches) s = Inr r" using s1(1) False r(1) by (simp add: spawns_empty_def)
    moreover have "\<forall>s'. r = Some s' \<longrightarrow> procs_ok s' \<and> spawns s' = NULL
        \<and> (\<forall>p. p \<notin> set_tree_node (spawns s) \<longrightarrow> heap s' p = heap s p)"
      using r(2) keep s1(6) by simp
    ultimately show ?thesis using left r(3) False by blast
  qed
qed

definition rc_daemon :: "int \<Rightarrow> daemon" where
  "rc_daemon pid = \<lparr>d_state = DAEMON_STARTED, d_name = ''rc'', d_pid = pid, d_conf = zero_conf\<rparr>"

definition rc_return :: "'z procs_scheme option \<Rightarrow> 'z procs_scheme option" where
  "rc_return r = map_option (\<lambda>s. s\<lparr>heap := (heap s)(rc_frame := None)\<rparr>) r"

lemma spawn_done_spawns:
  assumes "spawn_done p d s s'"
  shows "set_tree_node (spawns s') = insert p (set_tree_node (spawns s))"
proof -
  from assms obtain pid root fs where root: "set_tree_node root = insert p (set_tree_node (spawns s))"
    and s': "s' = s\<lparr>forks := fs, children := pid # children s,
      heap := (heap s)(p \<mapsto> d\<lparr>d_pid := pid, d_state := DAEMON_STARTED\<rparr>), spawns := root\<rparr>"
    unfolding spawn_done_def by blast
  have "spawns s' = root" unfolding s' by simp
  then show ?thesis by (simp only: root)
qed

lemma rc_forked:
  assumes "procs_ok s" "spawns s = NULL" "heap s rc_frame = None"
    "forks s = pid # fs" "0 < pid" "pid < PID_MAX" "pid \<notin> set (children s)"
  shows "\<exists>s1. rc batches s = rbind (rc_wait batches s1) (\<lambda>r. Inr (rc_return r))
    \<and> procs_ok s1 \<and> set_tree_node (spawns s1) = {rc_frame}
    \<and> heap s1 = (heap s)(rc_frame \<mapsto> rc_daemon pid)"
proof -
  define s0 where "s0 = s\<lparr>heap := (heap s)(rc_frame \<mapsto> (rc_daemon 0)\<lparr>d_state := DAEMON_STOPPED\<rparr>)\<rparr>"
  define s2 where "s2 = s\<lparr>forks := fs, children := pid # children s,
      heap := (heap s)(rc_frame \<mapsto> rc_daemon pid)\<rparr>"
  have frames: "rc_frame \<noteq> key_frame" by (simp add: rc_frame_def key_frame_def)
  have s0: "procs_ok s0" "heap s0 rc_frame = Some ((rc_daemon 0)\<lparr>d_state := DAEMON_STOPPED\<rparr>)"
    using assms(1-3) frames by (auto simp: s0_def procs_but_def)
  have f0: "forks s0 = pid # fs" "pid \<notin> set (children s0)" "spawns s0 = NULL"
    "d_state ((rc_daemon 0)\<lparr>d_state := DAEMON_STOPPED\<rparr>) = DAEMON_STOPPED"
    using assms by (simp_all add: s0_def)
  from spawn_done_intro [OF s0 f0(4,1) assms(5,6) f0(2)] obtain s1 where
    s1: "daemon_spawn rc_frame s0 = Inr (0, s1)" "procs_ok s1"
      "spawn_done rc_frame ((rc_daemon 0)\<lparr>d_state := DAEMON_STOPPED\<rparr>) s0 s1" by blast
  have "daemon_spawn rc_frame s0 = rbind (spawns_record rc_frame s2) (\<lambda>s. Inr (0, s))"
    using assms(4-7) by (simp add: daemon_spawn_def fork_def s0_def s2_def rc_daemon_def)
  then have rec: "spawns_record rc_frame s2 = Inr s1"
    using s1(1) by (cases "spawns_record rc_frame s2") simp_all
  have "rc batches s = rbind (rc_wait batches s1) (\<lambda>r. Inr (rc_return r))"
    using assms(4-7) rec by (simp add: rc_def fork_def s2_def rc_daemon_def rc_return_def)
  moreover have "heap s1 = heap s2"
    using rec by (cases "tree_insert (spawns_compare_function (heap s2)) (spawns s2) rc_frame")
      (auto simp: spawns_record_def)
  then have "heap s1 = (heap s)(rc_frame \<mapsto> rc_daemon pid)" by (simp add: s2_def)
  moreover have "set_tree_node (spawns s1) = {rc_frame}"
    using f0(3) spawn_done_spawns [OF s1(3)] by simp
  ultimately show ?thesis using s1(2) by blast
qed

lemma rc_return_ok:
  assumes "procs_ok s'" "spawns s' = NULL" "\<forall>p. p \<noteq> rc_frame \<longrightarrow> heap s' p = h p" "h rc_frame = None"
  shows "\<exists>s''. rc_return (Some s') = Some s'' \<and> procs_ok s'' \<and> spawns s'' = NULL \<and> heap s'' = h"
proof -
  have "rc_frame \<notin> active (heap s')" using assms(1,2) by (auto simp: procs_but_def)
  then have "procs_ok (s'\<lparr>heap := (heap s')(rc_frame := None)\<rparr>)"
    using procs_ok_delete [of rc_frame s'] assms(1,2) by simp
  moreover have "(heap s')(rc_frame := None) = h" using assms(3,4) by (auto simp: fun_eq_iff)
  ultimately show ?thesis using assms(2) by (simp add: rc_return_def)
qed

lemma rc_ok:
  assumes "procs_ok s" "spawns s = NULL" "heap s rc_frame = None"
    "list_all (list_all terminated) batches"
  shows "\<exists>r. rc batches s = Inr r
    \<and> (\<forall>s'. r = Some s' \<longrightarrow> procs_ok s' \<and> spawns s' = NULL \<and> heap s' = heap s)
    \<and> (fst (fork s) = - 1 \<or> fst (fork s) \<in> reported batches \<longrightarrow> r \<noteq> None)"
proof (cases "\<exists>pid fs. forks s = pid # fs \<and> 0 < pid \<and> pid < PID_MAX \<and> pid \<notin> set (children s)")
  case False
  define s1 where "s1 = s\<lparr>forks := tl (forks s), heap := (heap s)(rc_frame := None)\<rparr>"
  from fork_fails [OF False] have "rc batches s = Inr (Some s1)" by (simp add: rc_def s1_def)
  moreover have "(heap s)(rc_frame := None) = heap s" using assms(3) by auto
  then have "procs_ok s1" "spawns s1 = NULL" "heap s1 = heap s"
    using assms(1,2) by (simp_all add: s1_def procs_but_def)
  ultimately show ?thesis by simp
next
  case True
  then obtain pid fs where f: "forks s = pid # fs" "0 < pid" "pid < PID_MAX"
    "pid \<notin> set (children s)" by blast
  from rc_forked [OF assms(1-3) f] obtain s1 where
    s1: "rc batches s = rbind (rc_wait batches s1) (\<lambda>r. Inr (rc_return r))" "procs_ok s1"
      "set_tree_node (spawns s1) = {rc_frame}" "heap s1 = (heap s)(rc_frame \<mapsto> rc_daemon pid)"
    by blast
  have "quiet s1" by (simp add: quiet_def s1(3,4) restarts_def zero_conf_def rc_daemon_def)
  from rc_wait_ok [OF s1(2) this assms(4)] obtain r where r: "rc_wait batches s1 = Inr r"
    "\<forall>s'. r = Some s' \<longrightarrow> procs_ok s' \<and> spawns s' = NULL
      \<and> (\<forall>p. p \<notin> set_tree_node (spawns s1) \<longrightarrow> heap s' p = heap s1 p)"
    "spawns s1 \<noteq> NULL \<and> pid_of (heap s1) ` set_tree_node (spawns s1) \<subseteq> reported batches
      \<longrightarrow> r \<noteq> None" by blast
  have res: "rc batches s = Inr (rc_return r)" using s1(1) r(1) by simp
  have ends: "r \<noteq> None" if "fst (fork s) = - 1 \<or> fst (fork s) \<in> reported batches"
  proof -
    have "pid \<in> reported batches" using that f by (simp add: fork_def)
    moreover have "spawns s1 \<noteq> NULL" using s1(3) by auto
    moreover have "pid_of (heap s1) ` set_tree_node (spawns s1) = {pid}"
      by (simp add: s1(3,4) rc_daemon_def)
    ultimately show ?thesis using r(3) by auto
  qed
  show ?thesis
  proof (cases r)
    case None
    then show ?thesis using res ends by (auto simp: rc_return_def)
  next
    case (Some s')
    with r(2) have s': "procs_ok s'" "spawns s' = NULL" "\<forall>p. p \<noteq> rc_frame \<longrightarrow> heap s' p = heap s p"
      by (simp_all add: s1(3,4))
    from rc_return_ok [OF s' assms(3)] res Some show ?thesis by auto
  qed
qed

section \<open>What only the processes change\<close>

text \<open>Starting and reaping leave the rest of the state alone, on every path that returns.\<close>

lemma fork_more: "procs.more (snd (fork s)) = procs.more s"
  by (simp add: fork_def split: list.split)

lemma spawns_record_more: "spawns_record p s = Inr s' \<Longrightarrow> procs.more s' = procs.more s"
  by (auto simp: spawns_record_def result_iff)

lemma daemon_start_more:
  assumes "daemon_start p s = Inr s'"
  shows "procs.more s' = procs.more s"
proof (cases "\<exists>d. heap s p = Some d \<and> d_state d = DAEMON_STOPPED")
  case True
  obtain pid s1 where f: "fork s = (pid, s1)" by fastforce
  then have "procs.more s1 = procs.more s" using fork_more [of s] by simp
  with True f assms show ?thesis
    by (auto simp: daemon_start_def daemon_spawn_def result_iff split: if_splits
        dest!: spawns_record_more)
next
  case False
  from assms obtain d where d: "heap s p = Some d" by (auto simp: daemon_start_def result_iff)
  with False assms have "s' = s" by (cases "d_state d") (simp_all add: daemon_start_def)
  then show ?thesis by simp
qed

lemma reap_child_more:
  assumes "reap_child info s = Inr s'"
  shows "procs.more s' = procs.more s"
  using assms
  by (auto simp: reap_child_def spawns_retrieve_def reaped_daemon_def reaped_orphan_def result_iff Let_def
      split: option.splits if_splits dest!: daemon_start_more)

lemma reap_children_more: "reap_children infos s = Inr (r, s') \<Longrightarrow> procs.more s' = procs.more s"
proof (induction infos arbitrary: s)
  case (Cons info infos)
  show ?case
  proof (cases "waitid info s")
    case None
    with Cons show ?thesis by simp
  next
    case (Some s0)
    with Cons.prems obtain s1 where s1: "reap_child info s0 = Inr s1" "reap_children infos s1 = Inr (r, s')"
      by (auto simp: result_iff)
    have "procs.more s0 = procs.more s" using Some by (auto simp: waitid_def split: if_splits)
    then show ?thesis using Cons.IH [OF s1(2)] reap_child_more [OF s1(1)] by simp
  qed
qed simp

lemma rc_wait_more: "rc_wait batches s = Inr (Some s') \<Longrightarrow> procs.more s' = procs.more s"
proof (induction batches arbitrary: s)
  case (Cons batch batches)
  then obtain q s1 where s1: "reap_children batch s = Inr (q, s1)"
    "(if spawns_empty s1 then Inr (Some s1) else rc_wait batches s1) = Inr (Some s')"
    by (auto simp: result_iff)
  then show ?case using Cons.IH [of s1] reap_children_more [OF s1(1)] by (cases "spawns_empty s1") auto
qed simp

lemma rc_more:
  assumes "rc batches s = Inr (Some s')"
  shows "procs.more s' = procs.more s"
proof -
  obtain pid s1 where f: "fork s = (pid, s1)" by fastforce
  then have "procs.more s1 = procs.more s" using fork_more [of s] by simp
  with f assms show ?thesis
    by (auto simp: rc_def result_iff Let_def split: if_splits dest!: rc_wait_more spawns_record_more)
qed

end
