(* ===== verification/Configuration.thy ===== *)
theory Configuration
  imports Daemon
begin

text \<open>
  The store of the daemons' configurations, \<^verbatim>\<open>src/cyberd/configuration.c\<close>: the tree that owns
  every daemon, indexed by name, loaded from a directory at startup and reloaded on
  \<^verbatim>\<open>SIGHUP\<close>.
\<close>

section \<open>State\<close>

text \<open>The static variables: the tree of the daemons and the path of the directory.\<close>

record store = procs +
  daemons :: "ptr tree_node"
  configuration_path :: string

text \<open>
  What the system gives: the directory at a path, \<open>None\<close> where \<^verbatim>\<open>opendir(3)\<close> fails, otherwise
  the entries \<^verbatim>\<open>readdir(3)\<close> returns in order, up to an error if there is one. Each has its name
  and the lines of the file, \<open>None\<close> where \<^verbatim>\<open>openat(2)\<close> or \<^verbatim>\<open>fdopen(3)\<close> fails.
\<close>

type_synonym entry = "string \<times> string list option"
type_synonym directories = "string \<Rightarrow> entry list option"

section \<open>The tree of the daemons\<close>

definition daemons_compare :: "(ptr \<rightharpoonup> daemon) \<Rightarrow> ptr compare" where
  "daemons_compare h l r =
     rbind (deref h l) (\<lambda>ldaemon. rbind (deref h r) (\<lambda>rdaemon.
       Inr (strcmp (d_name ldaemon) (d_name rdaemon))))"

definition daemons_remove_element ::
  "(ptr \<rightharpoonup> daemon) \<Rightarrow> ptr tree_node \<Rightarrow> string \<Rightarrow> (ptr tree_node \<times> ptr option) result" where
  "daemons_remove_element h t name =
     tree_remove (daemons_compare (h(key_frame \<mapsto> search_element name 0))) t key_frame"

definition daemons_destroy_element :: "ptr \<Rightarrow> 'z procs_scheme \<Rightarrow> 'z procs_scheme result" where
  "daemons_destroy_element p s = daemon_destroy p s"

definition configuration_find :: "string \<Rightarrow> 'z store_scheme \<Rightarrow> ptr option result" where
  "configuration_find name s =
     tree_find (daemons_compare ((heap s)(key_frame \<mapsto> search_element name 0))) (daemons s) key_frame"

section \<open>Loading\<close>

definition configuration_load_daemon ::
  "libc \<Rightarrow> char result \<Rightarrow> string \<Rightarrow> string list \<Rightarrow> 'z store_scheme \<Rightarrow> 'z store_scheme result" where
  "configuration_load_daemon lc below name file s =
     (let (daemon, s) = daemon_create name s
      in case daemon of
           None \<Rightarrow> Inr s
         | Some p \<Rightarrow>
             rbind (deref (heap s) p) (\<lambda>d.
             rbind (daemon_conf_parse lc below (d_conf d) file) (\<lambda>(status, conf).
             let s = s\<lparr>heap := (heap s)(p \<mapsto> d\<lparr>d_conf := conf\<rparr>)\<rparr>
             in if status \<noteq> 0 then daemon_destroy p s
                else rbind (tree_insert (daemons_compare (heap s)) (daemons s) p) (\<lambda>root.
                  let s = s\<lparr>daemons := root\<rparr>
                  in if start_load conf then daemon_start p s else Inr s))))"

text \<open>The tree \<^verbatim>\<open>olddaemons\<close> is a local variable of the caller, passed and returned here.\<close>

definition configuration_reload_daemon ::
  "libc \<Rightarrow> char result \<Rightarrow> string \<Rightarrow> string list \<Rightarrow> ptr tree_node \<Rightarrow> 'z store_scheme \<Rightarrow>
     (ptr tree_node \<times> 'z store_scheme) result" where
  "configuration_reload_daemon lc below name file olddaemons s =
     rbind (daemons_remove_element (heap s) olddaemons name) (\<lambda>(olddaemons, daemon).
       case daemon of
         None \<Rightarrow> rbind (configuration_load_daemon lc below name file s) (\<lambda>s. Inr (olddaemons, s))
       | Some p \<Rightarrow>
           rbind (daemon_conf_parse lc below daemon_conf_init file) (\<lambda>(status, newconf).
           rbind (deref (heap s) p) (\<lambda>d.
           rbind (if status = 0 then
                    let s = s\<lparr>heap := (heap s)(p \<mapsto> d\<lparr>d_conf := newconf\<rparr>)\<rparr>
                    in if start_reload newconf then daemon_start p s else Inr s
                  else Inr s) (\<lambda>s.
           rbind (tree_insert (daemons_compare (heap s)) (daemons s) p) (\<lambda>root.
           Inr (olddaemons, s\<lparr>daemons := root\<rparr>))))))"

text \<open>The loops over the directory: names that start with a dot are skipped.\<close>

fun load_entries ::
  "libc \<Rightarrow> char result \<Rightarrow> entry list \<Rightarrow> 'z store_scheme \<Rightarrow> 'z store_scheme result" where
  "load_entries lc below [] s = Inr s"
| "load_entries lc below ((name, file) # entries) s =
     (if name \<noteq> [] \<and> hd name = CHR ''.'' then load_entries lc below entries s
      else case file of
             None \<Rightarrow> load_entries lc below entries s
           | Some lines \<Rightarrow> rbind (configuration_load_daemon lc below name lines s)
               (load_entries lc below entries))"

fun reload_entries ::
  "libc \<Rightarrow> char result \<Rightarrow> entry list \<Rightarrow> ptr tree_node \<times> 'z store_scheme \<Rightarrow>
     (ptr tree_node \<times> 'z store_scheme) result" where
  "reload_entries lc below [] os = Inr os"
| "reload_entries lc below ((name, file) # entries) os =
     (if name \<noteq> [] \<and> hd name = CHR ''.'' then reload_entries lc below entries os
      else case file of
             None \<Rightarrow> reload_entries lc below entries os
           | Some lines \<Rightarrow> rbind (configuration_reload_daemon lc below name lines (fst os) (snd os))
               (reload_entries lc below entries))"

definition configuration_load ::
  "libc \<Rightarrow> char result \<Rightarrow> directories \<Rightarrow> string \<Rightarrow> 'z store_scheme \<Rightarrow> 'z store_scheme result" where
  "configuration_load lc below fs path s =
     (let s = s\<lparr>configuration_path := path\<rparr>
      in case fs (configuration_path s) of
           None \<Rightarrow> Inr s
         | Some entries \<Rightarrow> load_entries lc below entries s)"

definition configuration_reload ::
  "libc \<Rightarrow> char result \<Rightarrow> directories \<Rightarrow> 'z store_scheme \<Rightarrow> 'z store_scheme result" where
  "configuration_reload lc below fs s =
     (case fs (configuration_path s) of
        None \<Rightarrow> Inr s
      | Some entries \<Rightarrow>
          rbind (reload_entries lc below entries (daemons s, s\<lparr>daemons := NULL\<rparr>)) (\<lambda>(olddaemons, s).
          tree_mutate olddaemons daemons_destroy_element s))"

definition configuration_cleanup :: "'z store_scheme \<Rightarrow> 'z store_scheme result" where
  "configuration_cleanup s =
     tree_mutate (daemons s) daemons_destroy_element s"

section \<open>The invariant of the store\<close>

definition name_of :: "(ptr \<rightharpoonup> daemon) \<Rightarrow> ptr \<Rightarrow> string" where
  "name_of h p = d_name (the (h p))"

definition name_carrier :: "(ptr \<rightharpoonup> daemon) \<Rightarrow> ptr set" where
  "name_carrier h = {p. \<exists>d. h p = Some d \<and> c_string (d_name d)}"

interpretation named: compare_order "daemons_compare h" "name_of h" "name_carrier h" for h
proof (unfold_locales, goal_cases)
  case (1 x y)
  then show ?case using strcmp_sign [of "name_of h x" "name_of h y"]
    by (auto simp: daemons_compare_def name_of_def name_carrier_def)
next
  case (2 x y)
  then show ?case
    by (auto simp: daemons_compare_def name_of_def name_carrier_def)
next
  case (3 x y)
  then show ?case using strcmp_sign [of "name_of h x" "name_of h y"]
    by (auto simp: daemons_compare_def name_of_def name_carrier_def)
qed

text \<open>The daemons by name, and the same for the tree being emptied by a reload.\<close>

definition by_name :: "(ptr \<rightharpoonup> daemon) \<Rightarrow> ptr tree_node \<Rightarrow> string \<rightharpoonup> ptr" where
  "by_name h t = tree_map (name_of h) t"

definition named_ok :: "(ptr \<rightharpoonup> daemon) \<Rightarrow> ptr tree_node \<Rightarrow> bool" where
  "named_ok h t \<longleftrightarrow> tree_ok (name_of h) (name_carrier h) t"

lemma named_ok_NULL [simp]: "named_ok h NULL" "by_name h NULL = Map.empty"
  by (simp_all add: named_ok_def by_name_def tree_map_def)

lemma by_name_iff:
  "named_ok h t \<Longrightarrow> by_name h t name = Some p \<longleftrightarrow> p \<in> set_tree_node t \<and> name_of h p = name"
  unfolding named_ok_def by_name_def by (rule tree_ok_map)

definition same_name :: "(ptr \<rightharpoonup> daemon) \<Rightarrow> (ptr \<rightharpoonup> daemon) \<Rightarrow> ptr \<Rightarrow> bool" where
  "same_name h h' p \<longleftrightarrow> map_option d_name (h' p) = map_option d_name (h p)"

lemma same_name_refl [simp]: "h' p = h p \<Longrightarrow> same_name h h' p"
  by (simp add: same_name_def)

lemma named_ok_cong:
  assumes "named_ok h t" "\<And>p. p \<in> set_tree_node t \<Longrightarrow> same_name h h' p"
  shows "named_ok h' t" "by_name h' t = by_name h t"
proof -
  have sub: "set_tree_node t \<subseteq> name_carrier h"
    using assms(1) by (auto simp: named_ok_def dest: tree_ok_carrier)
  have same: "name_of h' p = name_of h p \<and> p \<in> name_carrier h'" if "p \<in> set_tree_node t" for p
  proof -
    from that sub obtain d where d: "h p = Some d" "c_string (d_name d)" by (auto simp: name_carrier_def)
    moreover have "same_name h h' p" by (rule assms(2) [OF that])
    ultimately obtain d' where "h' p = Some d'" "d_name d' = d_name d"
      by (auto simp: same_name_def)
    with d show ?thesis by (simp add: name_of_def name_carrier_def)
  qed
  show "named_ok h' t" unfolding named_ok_def
    by (rule tree_ok_cong [OF assms(1) [unfolded named_ok_def]]) (rule same)
  show "by_name h' t = by_name h t" unfolding by_name_def
    by (rule tree_map_cong) (use same in blast)
qed

lemma named_ok_dom: "named_ok h t \<Longrightarrow> p \<in> set_tree_node t \<Longrightarrow> p \<in> dom h"
  by (auto simp: named_ok_def name_carrier_def dest: tree_ok_carrier)

section \<open>Operations on the trees\<close>

text \<open>A search reads a key in the frame of the caller, which is no daemon of the tree.\<close>

lemma search_frame:
  assumes "named_ok h t" "h key_frame = None" "c_string name"
  shows "named_ok (h(key_frame \<mapsto> search_element name 0)) t"
    and "by_name (h(key_frame \<mapsto> search_element name 0)) t = by_name h t"
    and "key_frame \<in> name_carrier (h(key_frame \<mapsto> search_element name 0))"
    and "name_of (h(key_frame \<mapsto> search_element name 0)) key_frame = name"
proof -
  have "key_frame \<notin> set_tree_node t" using named_ok_dom [OF assms(1)] assms(2) by blast
  then have same: "same_name h (h(key_frame \<mapsto> search_element name 0)) p"
    if "p \<in> set_tree_node t" for p
    using that by (intro same_name_refl) auto
  show "named_ok (h(key_frame \<mapsto> search_element name 0)) t"
    "by_name (h(key_frame \<mapsto> search_element name 0)) t = by_name h t"
    by (rule named_ok_cong [OF assms(1) same], assumption)+
  show "key_frame \<in> name_carrier (h(key_frame \<mapsto> search_element name 0))"
    "name_of (h(key_frame \<mapsto> search_element name 0)) key_frame = name"
    using assms(3) by (simp_all add: name_carrier_def name_of_def search_element_def)
qed

lemma daemons_remove_ok:
  assumes "named_ok h t" "h key_frame = None" "c_string name"
  shows "\<exists>t'. daemons_remove_element h t name = Inr (t', by_name h t name) \<and> named_ok h t'
    \<and> by_name h t' = (by_name h t)(name := None)"
proof -
  define h' where "h' = h(key_frame \<mapsto> search_element name 0)"
  have out: "key_frame \<notin> set_tree_node t" using named_ok_dom [OF assms(1)] assms(2) by blast
  have ok: "named_ok h' t" and map: "by_name h' t = by_name h t"
    and key: "key_frame \<in> name_carrier h'" "name_of h' key_frame = name"
    unfolding h'_def by (rule search_frame [OF assms])+
  from named.tree_remove_lookup [OF ok [unfolded named_ok_def] key(1)] obtain t' where
    t': "tree_remove (daemons_compare h') t key_frame = Inr (t', by_name h t name)" "named_ok h' t'"
      "by_name h' t' = (by_name h t)(name := None)"
    unfolding key(2) by_name_def [symmetric] map named_ok_def [symmetric] by blast
  have "p \<in> set_tree_node t" if "p \<in> set_tree_node t'" for p
  proof -
    from that have "by_name h' t' (name_of h' p) = Some p" by (simp add: by_name_iff [OF t'(2)])
    then have "by_name h' t (name_of h' p) = Some p" by (simp add: t'(3) map split: if_splits)
    then show ?thesis by (simp add: by_name_iff [OF ok])
  qed
  then have "p \<noteq> key_frame" if "p \<in> set_tree_node t'" for p using that out by blast
  then have same: "same_name h' h p" if "p \<in> set_tree_node t'" for p
    using that by (intro same_name_refl) (simp add: h'_def)
  show ?thesis
    using t' named_ok_cong [OF t'(2) same] by (auto simp: daemons_remove_element_def h'_def)
qed

lemma daemons_insert_ok:
  assumes "named_ok h t" "h p = Some d" "c_string (d_name d)" "by_name h t (d_name d) = None"
  shows "\<exists>t'. tree_insert (daemons_compare h) t p = Inr t' \<and> named_ok h t'
    \<and> by_name h t' = (by_name h t)(d_name d \<mapsto> p)
    \<and> set_tree_node t' = insert p (set_tree_node t)"
proof -
  have p: "p \<in> name_carrier h" "name_of h p = d_name d"
    using assms(2,3) by (simp_all add: name_carrier_def name_of_def)
  have "tree_map (name_of h) t (name_of h p) = None"
    using assms(4) by (simp add: by_name_def p(2))
  from named.tree_insert_fresh [OF assms(1) [unfolded named_ok_def] p(1) this] show ?thesis
    unfolding named_ok_def by_name_def p(2) by blast
qed

lemma configuration_find_lookup:
  assumes "named_ok (heap s) (daemons s)" "heap s key_frame = None" "c_string name"
  shows "configuration_find name s = Inr (by_name (heap s) (daemons s) name)"
proof -
  define h' where "h' = (heap s)(key_frame \<mapsto> search_element name 0)"
  have ok: "named_ok h' (daemons s)" and map: "by_name h' (daemons s) = by_name (heap s) (daemons s)"
    and key: "key_frame \<in> name_carrier h'" "name_of h' key_frame = name"
    unfolding h'_def by (rule search_frame [OF assms])+
  have "ordered_by (name_of h') (name_carrier h') (daemons s)"
    using ok by (simp add: named_ok_def tree_ok_def)
  from named.tree_find_lookup [OF this key(1)] map show ?thesis
    by (simp add: configuration_find_def by_name_def key(2) flip: h'_def)
qed

section \<open>What starting and creating a daemon leave alone\<close>

lemma store_rest:
  fixes s s' :: "'z store_scheme"
  assumes "procs.more s' = procs.more s"
  shows "daemons s' = daemons s" "configuration_path s' = configuration_path s"
    "store.more s' = store.more s"
  using assms by (cases s; cases s'; simp)+

definition started_from :: "daemon \<Rightarrow> daemon \<Rightarrow> bool" where
  "started_from d d' \<longleftrightarrow> d' = d \<or> d_state d = DAEMON_STOPPED
     \<and> (\<exists>pid. d' = d\<lparr>d_pid := pid, d_state := DAEMON_STARTED\<rparr>)"

definition only_at :: "ptr \<Rightarrow> 'z procs_scheme \<Rightarrow> 'z procs_scheme \<Rightarrow> bool" where
  "only_at p s s' \<longleftrightarrow> procs.more s' = procs.more s \<and> sent s' = sent s
     \<and> set (children s) \<subseteq> set (children s') \<and> (\<forall>q. q \<noteq> p \<longrightarrow> heap s' q = heap s q)"

lemma only_at_refl [simp]: "only_at p s s"
  by (simp add: only_at_def)

lemma only_at_trans: "only_at p s1 s2 \<Longrightarrow> only_at p s2 s3 \<Longrightarrow> only_at p s1 s3"
  by (auto simp: only_at_def)

lemma daemon_start_only:
  assumes "procs_ok s" "heap s p = Some d"
  shows "\<exists>s' d'. daemon_start p s = Inr s' \<and> procs_ok s' \<and> only_at p s s'
    \<and> heap s' p = Some d' \<and> started_from d d'"
proof (cases rule: daemon_start_ok [OF assms])
  case 1
  then show ?thesis using assms by (auto simp: started_from_def)
next
  case 2
  then show ?thesis using assms by (auto simp: started_from_def only_at_def)
next
  case (3 s')
  obtain pid root fs where s': "s' = s\<lparr>forks := fs, children := pid # children s,
      heap := (heap s)(p \<mapsto> d\<lparr>d_pid := pid, d_state := DAEMON_STARTED\<rparr>), spawns := root\<rparr>"
    using 3(4) unfolding spawn_done_def by blast
  have "only_at p s s'" unfolding s' by (auto simp: only_at_def)
  moreover have "heap s' p = Some (d\<lparr>d_pid := pid, d_state := DAEMON_STARTED\<rparr>)"
    unfolding s' by simp
  ultimately show ?thesis using 3(1-3) unfolding started_from_def by blast
qed

section \<open>Loading keeps the store\<close>

text \<open>
  Between two entries of a reload every daemon is in exactly one of the two trees, and no name
  is in both. With an empty old tree this is the invariant of the store.
\<close>

definition reload_ok :: "ptr tree_node \<Rightarrow> 'z store_scheme \<Rightarrow> bool" where
  "reload_ok old s \<longleftrightarrow>
     procs_ok s \<and> named_ok (heap s) (daemons s) \<and> named_ok (heap s) old
     \<and> dom (heap s) = set_tree_node (daemons s) \<union> set_tree_node old
     \<and> dom (by_name (heap s) (daemons s)) \<inter> dom (by_name (heap s) old) = {}"

abbreviation store_ok :: "'z store_scheme \<Rightarrow> bool" where
  "store_ok s \<equiv> reload_ok NULL s"

lemma procs_but_daemons [simp]: "procs_but gone (s\<lparr>daemons := t\<rparr>) = procs_but gone s"
  by (simp add: procs_but_def)

lemma procs_but_path [simp]: "procs_but gone (s\<lparr>configuration_path := x\<rparr>) = procs_but gone s"
  by (simp add: procs_but_def)

lemma by_name_self:
  "named_ok h t \<Longrightarrow> p \<in> set_tree_node t \<Longrightarrow> by_name h t (name_of h p) = Some p"
  by (simp add: by_name_iff)

text \<open>
  The record of one load: nothing changed, or one daemon of the name is new, with the
  configuration of its file, and started only where the configuration asks for it.
\<close>

definition loads :: "string \<Rightarrow> daemon_conf \<Rightarrow> 'z store_scheme \<Rightarrow> 'z store_scheme \<Rightarrow> bool" where
  "loads name conf s s' \<longleftrightarrow>
     (\<exists>p d. heap s p = None \<and> p \<noteq> rc_frame \<and> (\<forall>q. q \<noteq> p \<longrightarrow> heap s' q = heap s q) \<and> heap s' p = Some d
        \<and> d_name d = name \<and> d_conf d = conf
        \<and> (d_state d = DAEMON_STOPPED \<or> d_state d = DAEMON_STARTED \<and> start_load conf)
        \<and> by_name (heap s') (daemons s') = (by_name (heap s) (daemons s))(name \<mapsto> p)
        \<and> set_tree_node (daemons s') = insert p (set_tree_node (daemons s)))"

definition store_frame :: "'z store_scheme \<Rightarrow> 'z store_scheme \<Rightarrow> bool" where
  "store_frame s s' \<longleftrightarrow> configuration_path s' = configuration_path s
     \<and> store.more s' = store.more s \<and> sent s' = sent s
     \<and> set (children s) \<subseteq> set (children s')"

lemma store_frame_refl [simp]: "store_frame s s"
  by (simp add: store_frame_def)

lemma store_frame_trans: "store_frame s1 s2 \<Longrightarrow> store_frame s2 s3 \<Longrightarrow> store_frame s1 s3"
  by (auto simp: store_frame_def)

lemma only_at_frame: "only_at p s s' \<Longrightarrow> store_frame s s'" for s s' :: "'z store_scheme"
  by (auto simp: only_at_def store_frame_def dest: store_rest)

lemma reload_ok_new:
  assumes "reload_ok old s" "procs_ok s'" "heap s p = None"
    "\<forall>q. q \<noteq> p \<longrightarrow> heap s' q = heap s q" "heap s' p = Some d"
    "named_ok (heap s') (daemons s')"
    "by_name (heap s') (daemons s') = (by_name (heap s) (daemons s))(d_name d \<mapsto> p)"
    "set_tree_node (daemons s') = insert p (set_tree_node (daemons s))"
    "by_name (heap s) old (d_name d) = None"
  shows "reload_ok old s'" "by_name (heap s') old = by_name (heap s) old"
proof -
  have old: "named_ok (heap s) old" and dom: "dom (heap s) = set_tree_node (daemons s) \<union> set_tree_node old"
    and disj: "dom (by_name (heap s) (daemons s)) \<inter> dom (by_name (heap s) old) = {}"
    using assms(1) by (auto simp: reload_ok_def)
  have "same_name (heap s) (heap s') q" if "q \<in> set_tree_node old" for q
  proof -
    have "q \<noteq> p" using named_ok_dom [OF old that] assms(3) by auto
    then show ?thesis using assms(4) by (intro same_name_refl) simp
  qed
  from named_ok_cong [OF old this] have old': "named_ok (heap s') old"
    and same: "by_name (heap s') old = by_name (heap s) old" by auto
  show "by_name (heap s') old = by_name (heap s) old" by (rule same)
  have "dom (heap s') = insert p (dom (heap s))"
    using assms(4,5) by (auto simp: dom_def)
  moreover have "dom (by_name (heap s') (daemons s')) \<inter> dom (by_name (heap s) old) = {}"
    using disj assms(9) unfolding assms(7) by auto
  ultimately show "reload_ok old s'" using assms(2,6,8) old' same dom by (simp add: reload_ok_def)
qed

lemma configuration_load_daemon_ok:
  assumes "reload_ok old s" "c_string name" "by_name (heap s) (daemons s) name = None"
    "by_name (heap s) old name = None"
    and parse: "daemon_conf_parse lc below daemon_conf_init file = Inr (status, conf)"
  shows "\<exists>s'. configuration_load_daemon lc below name file s = Inr s' \<and> reload_ok old s'
    \<and> store_frame s s' \<and> by_name (heap s') old = by_name (heap s) old
    \<and> (daemons s' = daemons s \<and> heap s' = heap s \<or> status = 0 \<and> loads name conf s s')"
proof -
  obtain r s1 where c: "daemon_create name s = (r, s1)" by fastforce
  have ok: "procs_ok s" using assms(1) by (simp add: reload_ok_def)
  note create = daemon_create_ok [OF ok c]
  note rest1 = store_rest [OF create(2)]
  have frame1: "store_frame s s1" using create rest1 by (simp add: store_frame_def)
  show ?thesis
  proof (cases r)
    case None
    then have "heap s1 = heap s" by (rule create(6))
    then have "reload_ok old s1" using assms(1) create(1) rest1(1) by (simp add: reload_ok_def)
    then show ?thesis using None c frame1 \<open>heap s1 = heap s\<close> rest1(1)
      by (simp add: configuration_load_daemon_def)
  next
    case (Some p)
    define d0 where "d0 = \<lparr>d_state = DAEMON_STOPPED, d_name = name, d_pid = 0, d_conf = daemon_conf_init\<rparr>"
    from create(7) [OF Some] have p: "heap s p = None" "p \<noteq> rc_frame"
      and h1: "heap s1 = (heap s)(p \<mapsto> d0)" by (auto simp: d0_def)
    define d where "d = d0\<lparr>d_conf := conf\<rparr>"
    define s2 where "s2 = s1\<lparr>heap := (heap s1)(p \<mapsto> d)\<rparr>"
    have "heap s1 p = Some d0" using h1 by simp
    from procs_ok_upd [OF create(1) this, of d] have ok2: "procs_ok s2" by (simp add: s2_def d_def)
    have s2: "heap s2 = (heap s)(p \<mapsto> d)" "daemons s2 = daemons s" "heap s2 p = Some d"
      using h1 rest1(1) by (simp_all add: s2_def)
    have frame2: "store_frame s s2" using frame1 by (simp add: s2_def store_frame_def)
    have start: "configuration_load_daemon lc below name file s =
        (if status \<noteq> 0 then daemon_destroy p s2
         else rbind (tree_insert (daemons_compare (heap s2)) (daemons s2) p) (\<lambda>root.
           if start_load conf then daemon_start p (s2\<lparr>daemons := root\<rparr>) else Inr (s2\<lparr>daemons := root\<rparr>)))"
      using c Some h1 parse
      by (simp add: configuration_load_daemon_def s2_def d_def d0_def Let_def cong: if_cong)
    show ?thesis
    proof (cases "status = 0")
      case False
      have "d_state d = DAEMON_STOPPED" by (simp add: d_def d0_def)
      then have "daemon_destroy p s2 = Inr (s2\<lparr>heap := (heap s2)(p := None)\<rparr>)"
        using s2(3) by (simp add: daemon_destroy_def)
      moreover have "(heap s2)(p := None) = heap s" using s2(1) p(1) by auto
      moreover have "\<exists>root. procs_ok (s2\<lparr>spawns := root, heap := (heap s2)(p := None)\<rparr>)
          \<and> daemon_destroy p s2 = Inr (s2\<lparr>spawns := root, heap := (heap s2)(p := None)\<rparr>)"
        using daemon_destroy_ok [OF ok2 s2(3)] by blast
      ultimately have s3: "daemon_destroy p s2 = Inr (s2\<lparr>heap := heap s\<rparr>)"
        "procs_ok (s2\<lparr>heap := heap s\<rparr>)" by auto
      have "reload_ok old (s2\<lparr>heap := heap s\<rparr>)"
        using assms(1) s3(2) s2(2) by (simp add: reload_ok_def)
      then show ?thesis using start s3(1) False frame2 s2(2) by (simp add: store_frame_def)
    next
      case True
      have named: "named_ok (heap s) (daemons s)" using assms(1) by (simp add: reload_ok_def)
      have "same_name (heap s) (heap s2) q" if "q \<in> set_tree_node (daemons s)" for q
        using named_ok_dom [OF named that] p(1) s2(1) by (intro same_name_refl) auto
      from named_ok_cong [OF named this] have named2: "named_ok (heap s2) (daemons s2)"
        and by2: "by_name (heap s2) (daemons s2) = by_name (heap s) (daemons s)"
        unfolding s2(2) by auto
      have d: "d_name d = name" "d_conf d = conf" "d_state d = DAEMON_STOPPED"
        by (simp_all add: d_def d0_def)
      have "c_string (d_name d)" "by_name (heap s2) (daemons s2) (d_name d) = None"
        using assms(2,3) by (simp_all add: d by2)
      from daemons_insert_ok [OF named2 s2(3) this] obtain root where
        root: "tree_insert (daemons_compare (heap s2)) (daemons s2) p = Inr root"
          "named_ok (heap s2) root" "by_name (heap s2) root = (by_name (heap s) (daemons s))(name \<mapsto> p)"
          "set_tree_node root = insert p (set_tree_node (daemons s))"
        unfolding d s2(2) by2 [unfolded s2(2)] by blast
      define s3 where "s3 = s2\<lparr>daemons := root\<rparr>"
      have s3: "procs_ok s3" "heap s3 p = Some d" "store_frame s s3"
        using ok2 s2(3) frame2 by (simp_all add: s3_def store_frame_def)
      define started where "started = (\<lambda>s4 d4. procs_ok s4 \<and> only_at p s3 s4 \<and> heap s4 p = Some d4
        \<and> (d4 = d \<or> start_load conf \<and> started_from d d4))"
      have "\<exists>s4 d4. (if start_load conf then daemon_start p s3 else Inr s3) = Inr s4 \<and> started s4 d4"
        using daemon_start_only [OF s3(1,2)] s3 by (auto simp: started_def)
      moreover have "configuration_load_daemon lc below name file s =
          (if start_load conf then daemon_start p s3 else Inr s3)"
        using start root(1) True by (simp add: s3_def cong: if_cong)
      ultimately obtain s4 d4 where
        s4: "configuration_load_daemon lc below name file s = Inr s4" "started s4 d4" by metis
      then have s4': "procs_ok s4" "only_at p s3 s4" "heap s4 p = Some d4"
        and d4: "d_name d4 = name" "d_conf d4 = conf"
          "d_state d4 = DAEMON_STOPPED \<or> d_state d4 = DAEMON_STARTED \<and> start_load conf"
        using d by (auto simp: started_def started_from_def)
      have others: "\<forall>q. q \<noteq> p \<longrightarrow> heap s4 q = heap s q"
        using s4'(2) s2(1) by (auto simp: only_at_def s3_def)
      have daemons4: "daemons s4 = root"
        using s4'(2) store_rest(1) [of s4 s3] by (simp add: only_at_def s3_def)
      have "same_name (heap s2) (heap s4) q" for q
        using others s2 s4'(3) d4(1) d(1) by (cases "q = p") (auto simp: same_name_def)
      from named_ok_cong [OF root(2) this] have named4: "named_ok (heap s4) (daemons s4)"
        "by_name (heap s4) (daemons s4) = (by_name (heap s) (daemons s))(d_name d4 \<mapsto> p)"
        unfolding daemons4 root(3) d4(1) by auto
      have frame4: "store_frame s s4" using store_frame_trans [OF s3(3) only_at_frame [OF s4'(2)]] .
      have new: "set_tree_node (daemons s4) = insert p (set_tree_node (daemons s))"
        by (simp add: daemons4 root(4))
      have old: "by_name (heap s) old (d_name d4) = None" using assms(4) by (simp add: d4(1))
      have "loads name conf s s4" unfolding loads_def
        using p others s4'(3) d4 named4(2) new by blast
      then show ?thesis
        using s4(1) True frame4 reload_ok_new [OF assms(1) s4'(1) p(1) others s4'(3) named4 new old]
        by blast
    qed
  qed
qed

section \<open>Reloading keeps the store\<close>

definition reloads ::
  "string \<Rightarrow> ptr \<Rightarrow> int \<Rightarrow> daemon_conf \<Rightarrow> 'z store_scheme \<Rightarrow> 'z store_scheme \<Rightarrow> bool" where
  "reloads name p status conf s s' \<longleftrightarrow>
     (\<exists>d d'. heap s p = Some d \<and> heap s' p = Some d' \<and> (\<forall>q. q \<noteq> p \<longrightarrow> heap s' q = heap s q)
        \<and> (if status = 0
           then started_from (d\<lparr>d_conf := conf\<rparr>) d' \<and> (\<not> start_reload conf \<longrightarrow> d' = d\<lparr>d_conf := conf\<rparr>)
           else d' = d)
        \<and> by_name (heap s') (daemons s') = (by_name (heap s) (daemons s))(name \<mapsto> p)
        \<and> set_tree_node (daemons s') = insert p (set_tree_node (daemons s)))"

lemma set_by_name: "named_ok h t \<Longrightarrow> set_tree_node t = ran (by_name h t)"
  unfolding named_ok_def by_name_def by (rule tree_map_set)

lemma started_from_name: "started_from d d' \<Longrightarrow> d_name d' = d_name d"
  by (auto simp: started_from_def)

text \<open>The new configuration and the start, for a daemon taken out of the old tree.\<close>

lemma reload_conf_start:
  assumes "procs_ok s" "heap s p = Some d"
  shows "\<exists>s' d'. (if status = 0 then
        let s = s\<lparr>heap := (heap s)(p \<mapsto> d\<lparr>d_conf := conf\<rparr>)\<rparr>
        in if start_reload conf then daemon_start p s else Inr s
      else Inr s) = Inr s' \<and> procs_ok s' \<and> only_at p s s' \<and> heap s' p = Some d'
    \<and> (if status = 0
       then started_from (d\<lparr>d_conf := conf\<rparr>) d' \<and> (\<not> start_reload conf \<longrightarrow> d' = d\<lparr>d_conf := conf\<rparr>)
       else d' = d)"
proof (cases "status = 0")
  case False
  then show ?thesis using assms by simp
next
  case True
  define s1 where "s1 = s\<lparr>heap := (heap s)(p \<mapsto> d\<lparr>d_conf := conf\<rparr>)\<rparr>"
  have s1: "procs_ok s1" "heap s1 p = Some (d\<lparr>d_conf := conf\<rparr>)" "only_at p s s1"
    using procs_ok_upd [OF assms, of "d\<lparr>d_conf := conf\<rparr>"] by (simp_all add: s1_def only_at_def)
  show ?thesis
  proof (cases "start_reload conf")
    case False
    then show ?thesis using True s1 by (simp add: started_from_def flip: s1_def)
  next
    case start: True
    from daemon_start_only [OF s1(1,2)] obtain s' d' where s': "daemon_start p s1 = Inr s'"
      "procs_ok s'" "only_at p s1 s'" "heap s' p = Some d'" "started_from (d\<lparr>d_conf := conf\<rparr>) d'"
      by blast
    have "only_at p s s'" by (rule only_at_trans [OF s1(3) s'(3)])
    with s' show ?thesis using True start by (simp flip: s1_def)
  qed
qed

lemma configuration_reload_daemon_ok:
  assumes "reload_ok old s" "c_string name" "by_name (heap s) (daemons s) name = None"
    and parse: "daemon_conf_parse lc below daemon_conf_init file = Inr (status, conf)"
  shows "\<exists>old' s'. configuration_reload_daemon lc below name file old s = Inr (old', s')
    \<and> reload_ok old' s' \<and> store_frame s s'
    \<and> by_name (heap s') old' = (by_name (heap s) old)(name := None)
    \<and> (case by_name (heap s) old name of
         None \<Rightarrow> daemons s' = daemons s \<and> heap s' = heap s \<or> status = 0 \<and> loads name conf s s'
       | Some p \<Rightarrow> reloads name p status conf s s')"
proof -
  have ok: "procs_ok s" and named: "named_ok (heap s) (daemons s)" and old: "named_ok (heap s) old"
    and dom: "dom (heap s) = set_tree_node (daemons s) \<union> set_tree_node old"
    and disj: "dom (by_name (heap s) (daemons s)) \<inter> dom (by_name (heap s) old) = {}"
    using assms(1) by (auto simp: reload_ok_def)
  have frame: "heap s key_frame = None" using ok by (simp add: procs_but_def)
  from daemons_remove_ok [OF old frame assms(2)] obtain old' where
    old': "daemons_remove_element (heap s) old name = Inr (old', by_name (heap s) old name)"
      "named_ok (heap s) old'" "by_name (heap s) old' = (by_name (heap s) old)(name := None)" by blast
  show ?thesis
  proof (cases "by_name (heap s) old name")
    case None
    then have same: "by_name (heap s) old' = by_name (heap s) old" using old'(3) by auto
    then have "set_tree_node old' = set_tree_node old"
      by (simp add: set_by_name [OF old] set_by_name [OF old'(2)])
    then have "reload_ok old' s" using assms(1) old'(2) same by (simp add: reload_ok_def)
    from configuration_load_daemon_ok [OF this assms(2,3) _ parse] None same obtain s' where
      "configuration_load_daemon lc below name file s = Inr s'" "reload_ok old' s'" "store_frame s s'"
      "by_name (heap s') old' = by_name (heap s) old'"
      "daemons s' = daemons s \<and> heap s' = heap s \<or> status = 0 \<and> loads name conf s s'" by auto
    then show ?thesis using old' None by (simp add: configuration_reload_daemon_def)
  next
    case (Some p)
    then have p: "p \<in> set_tree_node old" "name_of (heap s) p = name"
      by (simp_all add: by_name_iff [OF old])
    then obtain d where d: "heap s p = Some d" "d_name d = name"
      using named_ok_dom [OF old p(1)] by (auto simp: name_of_def)
    have set': "set_tree_node old' = set_tree_node old - {p}"
    proof -
      have "x \<in> set_tree_node old' \<longleftrightarrow> x \<in> set_tree_node old \<and> name_of (heap s) x \<noteq> name" for x
        using by_name_iff [OF old'(2), of "name_of (heap s) x" x]
          by_name_iff [OF old, of "name_of (heap s) x" x]
        by (cases "name_of (heap s) x = name") (simp_all add: old'(3))
      moreover have "name_of (heap s) x = name \<and> x \<in> set_tree_node old \<longleftrightarrow> x = p" for x
        using by_name_iff [OF old, of name x] Some by auto
      ultimately show ?thesis by blast
    qed
    have out: "p \<notin> set_tree_node (daemons s)"
      using disj Some p by_name_self [OF named, of p] by auto
    from reload_conf_start [OF ok d(1), of status conf] obtain s1 d1 where
      s1: "(if status = 0 then
          let s = s\<lparr>heap := (heap s)(p \<mapsto> d\<lparr>d_conf := conf\<rparr>)\<rparr>
          in if start_reload conf then daemon_start p s else Inr s
        else Inr s) = Inr s1" "procs_ok s1" "only_at p s s1" "heap s1 p = Some d1"
      "if status = 0
       then started_from (d\<lparr>d_conf := conf\<rparr>) d1 \<and> (\<not> start_reload conf \<longrightarrow> d1 = d\<lparr>d_conf := conf\<rparr>)
       else d1 = d" by blast
    have d1: "d_name d1 = name" using s1(5) d(2) by (auto split: if_splits dest: started_from_name)
    have others: "\<forall>q. q \<noteq> p \<longrightarrow> heap s1 q = heap s q" using s1(3) by (simp add: only_at_def)
    have daemons1: "daemons s1 = daemons s"
      using s1(3) store_rest(1) [of s1 s] by (simp add: only_at_def)
    have "same_name (heap s) (heap s1) q" for q
      using others s1(4) d d1 by (cases "q = p") (auto simp: same_name_def)
    then have named1: "named_ok (heap s1) (daemons s)"
      "by_name (heap s1) (daemons s) = by_name (heap s) (daemons s)"
      "named_ok (heap s1) old'" "by_name (heap s1) old' = by_name (heap s) old'"
      using named_ok_cong [OF named, of "heap s1"] named_ok_cong [OF old'(2), of "heap s1"] by auto
    have "c_string (d_name d1)" "by_name (heap s1) (daemons s) (d_name d1) = None"
      using assms(2,3) by (simp_all add: d1 named1(2))
    from daemons_insert_ok [OF named1(1) s1(4) this] obtain root where
      root: "tree_insert (daemons_compare (heap s1)) (daemons s) p = Inr root"
        "named_ok (heap s1) root" "by_name (heap s1) root = (by_name (heap s) (daemons s))(name \<mapsto> p)"
        "set_tree_node root = insert p (set_tree_node (daemons s))"
      unfolding d1 named1(2) by blast
    define s2 where "s2 = s1\<lparr>daemons := root\<rparr>"
    have "configuration_reload_daemon lc below name file old s = Inr (old', s2)"
      using old'(1) Some parse d(1) s1(1) root(1)
      by (simp add: configuration_reload_daemon_def s2_def daemons1)
    moreover have "dom (heap s1) = insert p (dom (heap s))"
      using others s1(4) by (auto simp: dom_def)
    then have "dom (heap s1) = set_tree_node root \<union> set_tree_node old'"
      using dom set' p(1) root(4) by auto
    then have "reload_ok old' s2"
      using s1(2) root(2,3) named1(3,4) old'(3) disj Some by (auto simp: reload_ok_def s2_def)
    moreover have "store_frame s s2"
      using only_at_frame [OF s1(3)] by (simp add: s2_def store_frame_def)
    moreover have "by_name (heap s2) old' = (by_name (heap s) old)(name := None)"
      by (simp add: s2_def named1(4) old'(3))
    moreover have "reloads name p status conf s s2"
      unfolding reloads_def s2_def using d(1) s1(4,5) others root(3,4) by auto
    ultimately show ?thesis using Some by auto
  qed
qed

section \<open>The loop over a directory\<close>

definition visible :: "string \<Rightarrow> bool" where
  "visible name \<longleftrightarrow> \<not> (name \<noteq> [] \<and> hd name = CHR ''.'')"

definition listed :: "entry list \<Rightarrow> string \<Rightarrow> string list \<Rightarrow> bool" where
  "listed entries name file \<longleftrightarrow> visible name \<and> (name, Some file) \<in> set entries"

text \<open>
  A directory has each name once, the names are strings of C, and the files are parsed without
  a fault.
\<close>

definition entries_ok :: "libc \<Rightarrow> char result \<Rightarrow> entry list \<Rightarrow> bool" where
  "entries_ok lc below entries \<longleftrightarrow> distinct (map fst entries) \<and> list_all (\<lambda>e. c_string (fst e)) entries
     \<and> (\<forall>name file. listed entries name file \<longrightarrow>
          (\<exists>r. daemon_conf_parse lc below daemon_conf_init file = Inr r))"

text \<open>
  What becomes of an entry, from the state before the reload, with its old tree, to the state
  after: a known daemon keeps its address, and while it is active its state and pid; it gets
  the new configuration when the file gives one. An unknown one is loaded, or is not.
\<close>

definition reloaded :: "int \<Rightarrow> daemon_conf \<Rightarrow> daemon \<Rightarrow> daemon \<Rightarrow> bool" where
  "reloaded status conf d d' \<longleftrightarrow>
     (if status = 0
      then started_from (d\<lparr>d_conf := conf\<rparr>) d' \<and> (\<not> start_reload conf \<longrightarrow> d' = d\<lparr>d_conf := conf\<rparr>)
      else d' = d)"

definition entry_outcome ::
  "libc \<Rightarrow> char result \<Rightarrow> (string \<rightharpoonup> ptr) \<Rightarrow> (ptr \<rightharpoonup> daemon) \<Rightarrow> 'z store_scheme \<Rightarrow> string \<Rightarrow> string list \<Rightarrow>
     bool" where
  "entry_outcome lc below olds h s' name file \<longleftrightarrow>
     (\<exists>status conf. daemon_conf_parse lc below daemon_conf_init file = Inr (status, conf)
       \<and> (case olds name of
            Some p \<Rightarrow> by_name (heap s') (daemons s') name = Some p
              \<and> (\<exists>d d'. h p = Some d \<and> heap s' p = Some d' \<and> reloaded status conf d d')
          | None \<Rightarrow> by_name (heap s') (daemons s') name = None
              \<or> status = 0 \<and> (\<exists>p d. by_name (heap s') (daemons s') name = Some p \<and> h p = None
                 \<and> p \<noteq> rc_frame \<and> heap s' p = Some d \<and> d_name d = name \<and> d_conf d = conf
                 \<and> (d_state d = DAEMON_STOPPED \<or> d_state d = DAEMON_STARTED \<and> start_load conf))))"

text \<open>What one step of the loop leaves alone.\<close>

definition entry_step ::
  "string \<Rightarrow> ptr tree_node \<Rightarrow> 'z store_scheme \<Rightarrow> 'z store_scheme \<Rightarrow> bool" where
  "entry_step name old s s' \<longleftrightarrow>
     (\<forall>n. n \<noteq> name \<longrightarrow> by_name (heap s') (daemons s') n = by_name (heap s) (daemons s) n)
     \<and> (\<forall>q \<in> dom (heap s). by_name (heap s) old name \<noteq> Some q \<longrightarrow> heap s' q = heap s q)
     \<and> dom (heap s) \<subseteq> dom (heap s')"

lemma reload_daemon_step:
  assumes "reload_ok old s" "c_string name" "by_name (heap s) (daemons s) name = None"
    and parse: "daemon_conf_parse lc below daemon_conf_init file = Inr (status, conf)"
  shows "\<exists>old' s'. configuration_reload_daemon lc below name file old s = Inr (old', s')
    \<and> reload_ok old' s' \<and> store_frame s s'
    \<and> by_name (heap s') old' = (by_name (heap s) old)(name := None)
    \<and> entry_step name old s s'
    \<and> entry_outcome lc below (by_name (heap s) old) (heap s) s' name file"
proof -
  from configuration_reload_daemon_ok [OF assms] obtain old' s' where
    r: "configuration_reload_daemon lc below name file old s = Inr (old', s')" "reload_ok old' s'"
      "store_frame s s'" "by_name (heap s') old' = (by_name (heap s) old)(name := None)"
      "case by_name (heap s) old name of
         None \<Rightarrow> daemons s' = daemons s \<and> heap s' = heap s \<or> status = 0 \<and> loads name conf s s'
       | Some p \<Rightarrow> reloads name p status conf s s'" by blast
  have "entry_step name old s s' \<and> entry_outcome lc below (by_name (heap s) old) (heap s) s' name file"
  proof (cases "by_name (heap s) old name")
    case (Some p)
    with r(5) obtain d d' where re: "heap s p = Some d" "heap s' p = Some d'"
      "\<forall>q. q \<noteq> p \<longrightarrow> heap s' q = heap s q" "reloaded status conf d d'"
      "by_name (heap s') (daemons s') = (by_name (heap s) (daemons s))(name \<mapsto> p)"
      unfolding reloads_def reloaded_def by auto
    have "entry_step name old s s'" unfolding entry_step_def using re Some by (auto simp: dom_def)
    then show ?thesis using parse re(1,2,4,5) Some unfolding entry_outcome_def by auto
  next
    case None
    then consider (same) "daemons s' = daemons s" "heap s' = heap s"
      | (new) "status = 0" "loads name conf s s'" using r(5) by auto
    then show ?thesis
    proof cases
      case same
      then have "entry_step name old s s'" by (simp add: entry_step_def)
      then show ?thesis using parse same assms(3) None unfolding entry_outcome_def by auto
    next
      case new
      then obtain p d where l: "heap s p = None" "p \<noteq> rc_frame" "\<forall>q. q \<noteq> p \<longrightarrow> heap s' q = heap s q"
        "heap s' p = Some d" "d_name d = name" "d_conf d = conf"
        "d_state d = DAEMON_STOPPED \<or> d_state d = DAEMON_STARTED \<and> start_load conf"
        "by_name (heap s') (daemons s') = (by_name (heap s) (daemons s))(name \<mapsto> p)"
        unfolding loads_def by blast
      have keep: "heap s' q = heap s q" if "q \<in> dom (heap s)" for q
        using that l(1,3) by (cases "q = p") auto
      then have "dom (heap s) \<subseteq> dom (heap s')" by (metis domIff subsetI)
      with keep have "entry_step name old s s'" unfolding entry_step_def by (simp add: l(8))
      moreover have "by_name (heap s') (daemons s') name = Some p" by (simp add: l(8))
      ultimately show ?thesis using parse l(1,2,4-7) None new(1) unfolding entry_outcome_def by auto
    qed
  qed
  with r show ?thesis by blast
qed

lemma entries_ok_Cons:
  assumes "entries_ok lc below ((name, file) # entries)"
  shows "entries_ok lc below entries" "c_string name" "name \<notin> fst ` set entries"
    "visible name \<Longrightarrow> file = Some lines \<Longrightarrow>
      \<exists>status conf. daemon_conf_parse lc below daemon_conf_init lines = Inr (status, conf)"
  using assms by (auto simp: entries_ok_def listed_def)

lemma listed_Cons:
  "listed ((name, file) # entries) n lines \<longleftrightarrow>
     visible n \<and> n = name \<and> file = Some lines \<or> listed entries n lines"
  by (auto simp: listed_def)

lemma listed_name: "listed entries n lines \<Longrightarrow> n \<in> fst ` set entries"
  by (force simp: listed_def)

definition listed_names :: "entry list \<Rightarrow> string set" where
  "listed_names entries = {name. \<exists>file. listed entries name file}"

lemma names_Cons:
  "(\<forall>n \<in> fst ` set ((name, file) # entries) - A. P n) \<longleftrightarrow>
     (name \<notin> A \<longrightarrow> P name) \<and> (\<forall>n \<in> fst ` set entries - A. P n)"
  by auto

lemma entry_outcome_after:
  assumes "entry_outcome lc below olds h s1 name file" "reload_ok old1 s1"
    "by_name (heap s') (daemons s') name = by_name (heap s1) (daemons s1) name"
    "\<forall>q \<in> dom (heap s1). q \<notin> ran (by_name (heap s1) old1 |` names) \<longrightarrow> heap s' q = heap s1 q"
    "name \<notin> names"
  shows "entry_outcome lc below olds h s' name file"
proof -
  have named: "named_ok (heap s1) (daemons s1)" "named_ok (heap s1) old1"
    using assms(2) by (simp_all add: reload_ok_def)
  have "heap s' q = heap s1 q" if "by_name (heap s1) (daemons s1) name = Some q" for q
  proof -
    from that have q: "q \<in> set_tree_node (daemons s1)" "name_of (heap s1) q = name"
      by (simp_all add: by_name_iff [OF named(1)])
    then have "q \<notin> ran (by_name (heap s1) old1 |` names)"
      using by_name_iff [OF named(2), of _ q] assms(5)
      by (auto simp: ran_def restrict_map_def split: if_splits)
    then show ?thesis using assms(4) named_ok_dom [OF named(1) q(1)] by blast
  qed
  with assms(1,3) show ?thesis
    by (cases "olds name") (auto simp: entry_outcome_def)
qed

lemma entry_outcome_before:
  assumes "entry_outcome lc below (by_name (heap s1) old1) (heap s1) s' n file" "named_ok (heap s) old"
    "entry_step name old s s1" "by_name (heap s1) old1 = (by_name (heap s) old)(name := None)" "n \<noteq> name"
  shows "entry_outcome lc below (by_name (heap s) old) (heap s) s' n file"
proof -
  have olds: "by_name (heap s1) old1 n = by_name (heap s) old n" using assms(4,5) by simp
  have "heap s1 p = heap s p" if "by_name (heap s) old n = Some p" for p
  proof -
    from that have "p \<in> set_tree_node old" "name_of (heap s) p = n"
      by (simp_all add: by_name_iff [OF assms(2)])
    moreover from this have "by_name (heap s) old name \<noteq> Some p"
      using assms(5) by (auto simp: by_name_iff [OF assms(2)])
    ultimately show ?thesis using assms(3) named_ok_dom [OF assms(2)] unfolding entry_step_def by blast
  qed
  moreover have "heap s p = None" if "heap s1 p = None" for p
    using that assms(3) unfolding entry_step_def by blast
  ultimately show ?thesis using assms(1) olds
    by (cases "by_name (heap s) old n") (auto simp: entry_outcome_def)
qed

lemma reload_entries_ok:
  assumes "reload_ok old s" "entries_ok lc below entries"
    "\<forall>n \<in> fst ` set entries. by_name (heap s) (daemons s) n = None"
  shows "\<exists>old' s'. reload_entries lc below entries (old, s) = Inr (old', s')
    \<and> reload_ok old' s' \<and> store_frame s s'
    \<and> by_name (heap s') old' = by_name (heap s) old |` (- listed_names entries)
    \<and> (\<forall>n. n \<notin> fst ` set entries \<longrightarrow>
          by_name (heap s') (daemons s') n = by_name (heap s) (daemons s) n)
    \<and> (\<forall>n \<in> fst ` set entries - listed_names entries. by_name (heap s') (daemons s') n = None)
    \<and> (\<forall>q \<in> dom (heap s). q \<notin> ran (by_name (heap s) old |` listed_names entries) \<longrightarrow>
          heap s' q = heap s q)
    \<and> dom (heap s) \<subseteq> dom (heap s')
    \<and> (\<forall>n file. listed entries n file \<longrightarrow>
          entry_outcome lc below (by_name (heap s) old) (heap s) s' n file)"
  using assms
proof (induction entries arbitrary: old s)
  case Nil
  then show ?case by (simp add: listed_def listed_names_def restrict_map_def)
next
  case (Cons e entries)
  obtain name f where e: "e = (name, f)" by fastforce
  note ok = entries_ok_Cons [OF Cons.prems(2) [unfolded e]]
  show ?case
  proof (cases "visible name \<and> f \<noteq> None")
    case False
    have same: "listed (e # entries) = listed entries"
      using False by (auto simp: e listed_Cons fun_eq_iff)
    then have names: "listed_names (e # entries) = listed_names entries"
      by (simp add: listed_names_def)
    have skip: "reload_entries lc below (e # entries) (old, s) = reload_entries lc below entries (old, s)"
      using False by (auto simp: e visible_def split: option.splits)
    have none: "by_name (heap s) (daemons s) name = None"
      "\<forall>n \<in> fst ` set entries. by_name (heap s) (daemons s) n = None"
      using Cons.prems(3) e by simp_all
    from Cons.IH [OF Cons.prems(1) ok(1) none(2)] obtain old' s' where
      s': "reload_entries lc below entries (old, s) = Inr (old', s')" "reload_ok old' s'"
        "store_frame s s'" "by_name (heap s') old' = by_name (heap s) old |` (- listed_names entries)"
        "\<forall>n. n \<notin> fst ` set entries \<longrightarrow>
          by_name (heap s') (daemons s') n = by_name (heap s) (daemons s) n"
        "\<forall>n \<in> fst ` set entries - listed_names entries. by_name (heap s') (daemons s') n = None"
        "\<forall>q \<in> dom (heap s). q \<notin> ran (by_name (heap s) old |` listed_names entries) \<longrightarrow>
          heap s' q = heap s q"
        "dom (heap s) \<subseteq> dom (heap s')"
        "\<forall>n file. listed entries n file \<longrightarrow>
          entry_outcome lc below (by_name (heap s) old) (heap s) s' n file" by blast
    have "by_name (heap s') (daemons s') name = None" using s'(5) none(1) ok(3) by simp
    then have "\<forall>n \<in> fst ` set (e # entries) - listed_names entries. by_name (heap s') (daemons s') n = None"
      using s'(6) unfolding e names_Cons by simp
    moreover have "\<forall>n. n \<notin> fst ` set (e # entries) \<longrightarrow>
        by_name (heap s') (daemons s') n = by_name (heap s) (daemons s) n"
      using s'(5) by simp
    ultimately show ?thesis unfolding same names skip using s'(1-4,7-9) by blast
  next
    case True
    then obtain lines where lines: "f = Some lines" by auto
    obtain status conf where parse:
      "daemon_conf_parse lc below daemon_conf_init lines = Inr (status, conf)"
      using ok(4) [OF _ lines] True by blast
    have none: "by_name (heap s) (daemons s) name = None" using Cons.prems(3) e by simp
    from reload_daemon_step [OF Cons.prems(1) ok(2) none parse] obtain old1 s1 where
      s1: "configuration_reload_daemon lc below name lines old s = Inr (old1, s1)" "reload_ok old1 s1"
        "store_frame s s1" "by_name (heap s1) old1 = (by_name (heap s) old)(name := None)"
        "entry_step name old s s1"
        "entry_outcome lc below (by_name (heap s) old) (heap s) s1 name lines" by blast
    have rest: "\<forall>n \<in> fst ` set entries. by_name (heap s1) (daemons s1) n = None"
    proof
      fix n assume n: "n \<in> fst ` set entries"
      then have "n \<noteq> name" using ok(3) by blast
      moreover have "by_name (heap s) (daemons s) n = None" using Cons.prems(3) n by auto
      ultimately show "by_name (heap s1) (daemons s1) n = None" using s1(5) unfolding entry_step_def by simp
    qed
    from Cons.IH [OF s1(2) ok(1) rest] obtain old' s' where
      s': "reload_entries lc below entries (old1, s1) = Inr (old', s')" "reload_ok old' s'"
        "store_frame s1 s'" "by_name (heap s') old' = by_name (heap s1) old1 |` (- listed_names entries)"
        "\<forall>n. n \<notin> fst ` set entries \<longrightarrow>
          by_name (heap s') (daemons s') n = by_name (heap s1) (daemons s1) n"
        "\<forall>n \<in> fst ` set entries - listed_names entries. by_name (heap s') (daemons s') n = None"
        "\<forall>q \<in> dom (heap s1). q \<notin> ran (by_name (heap s1) old1 |` listed_names entries) \<longrightarrow>
          heap s' q = heap s1 q"
        "dom (heap s1) \<subseteq> dom (heap s')"
        "\<forall>n file. listed entries n file \<longrightarrow>
          entry_outcome lc below (by_name (heap s1) old1) (heap s1) s' n file" by blast
    have names: "listed_names (e # entries) = insert name (listed_names entries)"
      using True lines by (auto simp: e listed_names_def listed_Cons)
    have fresh: "name \<notin> listed_names entries"
      using ok(3) listed_name by (auto simp: listed_names_def)
    have old: "named_ok (heap s) old" using Cons.prems(1) by (simp add: reload_ok_def)
    have "reload_entries lc below (e # entries) (old, s) = Inr (old', s')"
      using True lines s1(1) s'(1) by (auto simp: e visible_def)
    moreover have "by_name (heap s') old' = by_name (heap s) old |` (- listed_names (e # entries))"
      unfolding s'(4) s1(4) names by (auto simp: restrict_map_def fun_eq_iff)
    moreover have "\<forall>n. n \<notin> fst ` set (e # entries) \<longrightarrow>
        by_name (heap s') (daemons s') n = by_name (heap s) (daemons s) n"
      using s'(5) s1(5) by (simp add: e entry_step_def)
    moreover have "\<forall>n \<in> fst ` set (e # entries) - listed_names (e # entries).
        by_name (heap s') (daemons s') n = None"
      using s'(6) unfolding names unfolding e names_Cons by simp
    moreover have "\<forall>q \<in> dom (heap s). q \<notin> ran (by_name (heap s) old |` listed_names (e # entries)) \<longrightarrow>
        heap s' q = heap s q"
    proof (intro ballI impI)
      fix q assume q: "q \<in> dom (heap s)"
        "q \<notin> ran (by_name (heap s) old |` listed_names (e # entries))"
      then have "by_name (heap s) old name \<noteq> Some q"
        unfolding names by (metis insertI1 ranI restrict_in)
      then have "heap s1 q = heap s q" using s1(5) q(1) by (simp add: entry_step_def)
      moreover have "q \<notin> ran (by_name (heap s1) old1 |` listed_names entries)"
        using q(2) unfolding names s1(4) by (auto simp: ran_def restrict_map_def split: if_splits)
      ultimately show "heap s' q = heap s q" using s'(7) q(1) by (simp add: domIff)
    qed
    moreover have "dom (heap s) \<subseteq> dom (heap s')"
      using s1(5) s'(8) unfolding entry_step_def by blast
    moreover have "entry_outcome lc below (by_name (heap s) old) (heap s) s' n fl"
      if "listed (e # entries) n fl" for n fl
    proof (cases "listed entries n fl")
      case True
      then have "n \<noteq> name" using ok(3) listed_name by blast
      moreover have "entry_outcome lc below (by_name (heap s1) old1) (heap s1) s' n fl"
        using s'(9) True by blast
      ultimately show ?thesis by (intro entry_outcome_before [OF _ old s1(5,4)])
    next
      case False
      with that have n: "n = name" "fl = lines" using lines by (auto simp: e listed_Cons)
      have "by_name (heap s') (daemons s') name = by_name (heap s1) (daemons s1) name"
        using s'(5) ok(3) by blast
      then show ?thesis
        unfolding n by (rule entry_outcome_after [OF s1(6,2) _ s'(7) fresh])
    qed
    ultimately show ?thesis using s'(2) store_frame_trans [OF s1(3) s'(3)] by blast
  qed
qed

section \<open>The whole reload\<close>

lemma destroy_list_ok:
  assumes "procs_ok s" "distinct ps" "set ps \<subseteq> dom (heap s)"
  shows "\<exists>s'. rfold daemons_destroy_element ps s = Inr s' \<and> procs_ok s'
    \<and> heap s' = heap s |` (- set ps) \<and> procs.more s' = procs.more s
    \<and> sent s' = sent s \<and> children s' = children s \<and> forks s' = forks s"
  using assms
proof (induction ps arbitrary: s)
  case Nil
  then show ?case by simp
next
  case (Cons p ps)
  then obtain d where d: "heap s p = Some d" by auto
  from daemon_destroy_ok [OF Cons.prems(1) d] obtain root where
    root: "daemon_destroy p s = Inr (s\<lparr>spawns := root, heap := (heap s)(p := None)\<rparr>)"
      "procs_ok (s\<lparr>spawns := root, heap := (heap s)(p := None)\<rparr>)" by blast
  define s1 where "s1 = s\<lparr>spawns := root, heap := (heap s)(p := None)\<rparr>"
  have "set ps \<subseteq> dom (heap s1)" using Cons.prems(2,3) by (auto simp: s1_def)
  from Cons.IH [OF root(2) [folded s1_def] _ this] Cons.prems(2) obtain s' where
    s': "rfold daemons_destroy_element ps s1 = Inr s'" "procs_ok s'"
      "heap s' = heap s1 |` (- set ps)" "procs.more s' = procs.more s1"
      "sent s' = sent s1" "children s' = children s1" "forks s' = forks s1" by auto
  have "rfold daemons_destroy_element (p # ps) s = Inr s'"
    using root(1) s'(1) by (simp add: daemons_destroy_element_def s1_def)
  moreover have "heap s' = heap s |` (- set (p # ps))"
    unfolding s'(3) by (auto simp: s1_def restrict_map_def fun_eq_iff)
  ultimately show ?case using s'(2,4-7) by (simp add: s1_def)
qed

lemma destroy_tree_ok:
  fixes s :: "'z store_scheme"
  assumes "procs_ok s" "named_ok (heap s) t"
  shows "\<exists>s'. tree_node_preorder_mutate daemons_destroy_element t s = Inr s' \<and> procs_ok s'
    \<and> heap s' = heap s |` (- set_tree_node t) \<and> daemons s' = daemons s
    \<and> configuration_path s' = configuration_path s \<and> store.more s' = store.more s
    \<and> sent s' = sent s \<and> children s' = children s \<and> forks s' = forks s"
proof -
  have "distinct (tree_preorder t)"
    using assms(2) distinct_preorder unfolding named_ok_def tree_ok_def by blast
  moreover have "set (tree_preorder t) \<subseteq> dom (heap s)"
    using named_ok_dom [OF assms(2)] by (auto simp: set_tree_preorder)
  ultimately obtain s' where s': "rfold daemons_destroy_element (tree_preorder t) s = Inr s'"
    "procs_ok s'" "heap s' = heap s |` (- set (tree_preorder t))" "procs.more s' = procs.more s"
    "sent s' = sent s" "children s' = children s" "forks s' = forks s"
    using destroy_list_ok [OF assms(1)] by blast
  then show ?thesis using store_rest [OF s'(4)]
    by (simp add: preorder_mutate_rfold set_tree_preorder)
qed

text \<open>
  After the reload: what the entries of the directory became, and the daemons that are not
  listed any more are gone, with their address free, and no process was signalled.
\<close>

definition reloaded_store ::
  "libc \<Rightarrow> char result \<Rightarrow> entry list \<Rightarrow> 'z store_scheme \<Rightarrow> 'z store_scheme \<Rightarrow> bool" where
  "reloaded_store lc below entries s s' \<longleftrightarrow>
     (\<forall>name file. listed entries name file \<longrightarrow>
        entry_outcome lc below (by_name (heap s) (daemons s)) (heap s) s' name file)
     \<and> (\<forall>name. name \<notin> listed_names entries \<longrightarrow> by_name (heap s') (daemons s') name = None)
     \<and> (\<forall>name p. name \<notin> listed_names entries \<longrightarrow> by_name (heap s) (daemons s) name = Some p \<longrightarrow>
          heap s' p = None)"

lemma configuration_reload_ok:
  assumes "store_ok s" "fs (configuration_path s) = Some entries" "entries_ok lc below entries"
  shows "\<exists>s'. configuration_reload lc below fs s = Inr s' \<and> store_ok s' \<and> store_frame s s'
    \<and> reloaded_store lc below entries s s'"
proof -
  define old where "old = daemons s"
  define s0 where "s0 = s\<lparr>daemons := NULL\<rparr>"
  have s0: "reload_ok old s0" "heap s0 = heap s" "\<forall>n. by_name (heap s0) (daemons s0) n = None"
    using assms(1) by (auto simp: reload_ok_def s0_def old_def)
  have "\<forall>n \<in> fst ` set entries. by_name (heap s0) (daemons s0) n = None" using s0(3) by simp
  from reload_entries_ok [OF s0(1) assms(3) this] obtain old' s1 where
    s1: "reload_entries lc below entries (old, s0) = Inr (old', s1)" "reload_ok old' s1"
      "store_frame s0 s1" "by_name (heap s1) old' = by_name (heap s0) old |` (- listed_names entries)"
      "\<forall>n. n \<notin> fst ` set entries \<longrightarrow>
        by_name (heap s1) (daemons s1) n = by_name (heap s0) (daemons s0) n"
      "\<forall>n \<in> fst ` set entries - listed_names entries. by_name (heap s1) (daemons s1) n = None"
      "\<forall>n file. listed entries n file \<longrightarrow>
        entry_outcome lc below (by_name (heap s0) old) (heap s0) s1 n file" by blast
  have named1: "named_ok (heap s1) (daemons s1)" "named_ok (heap s1) old'" "procs_ok s1"
    "dom (heap s1) = set_tree_node (daemons s1) \<union> set_tree_node old'"
    "dom (by_name (heap s1) (daemons s1)) \<inter> dom (by_name (heap s1) old') = {}"
    using s1(2) by (auto simp: reload_ok_def)
  from destroy_tree_ok [OF named1(3,2)] obtain s2 where
    s2: "tree_node_preorder_mutate daemons_destroy_element old' s1 = Inr s2" "procs_ok s2"
      "heap s2 = heap s1 |` (- set_tree_node old')" "daemons s2 = daemons s1"
      "configuration_path s2 = configuration_path s1" "store.more s2 = store.more s1"
      "sent s2 = sent s1" "children s2 = children s1" by blast
  have apart: "p \<notin> set_tree_node old'" if "p \<in> set_tree_node (daemons s1)" for p
    using that by_name_self [OF named1(1) that] by_name_self [OF named1(2), of p] named1(5) by blast
  have keep: "heap s2 p = heap s1 p" if "p \<in> set_tree_node (daemons s1)" for p
    using apart [OF that] by (simp add: s2(3))
  from named_ok_cong [OF named1(1), of "heap s2"] keep
  have named2: "named_ok (heap s2) (daemons s2)" "by_name (heap s2) (daemons s2) = by_name (heap s1) (daemons s1)"
    unfolding s2(4) by auto
  have run: "configuration_reload lc below fs s = Inr s2"
    using assms(2) s1(1) s2(1) by (simp add: configuration_reload_def old_def s0_def)
  have "dom (heap s2) = set_tree_node (daemons s2)"
    unfolding s2(3,4) using named1(4) apart by auto
  then have "store_ok s2" using s2(2) named2(1) by (simp add: reload_ok_def)
  moreover have "store_frame s s2"
    using s1(3) s2(5-8) by (simp add: store_frame_def s0_def)
  moreover have "entry_outcome lc below (by_name (heap s) (daemons s)) (heap s) s2 name fl"
    if "listed entries name fl" for name fl
  proof -
    have o1: "entry_outcome lc below (by_name (heap s) (daemons s)) (heap s) s1 name fl"
      using s1(7) that unfolding s0(2) old_def by blast
    have "heap s2 p = heap s1 p" if "by_name (heap s1) (daemons s1) name = Some p" for p
      using that keep by (simp add: by_name_iff [OF named1(1)])
    with o1 show ?thesis
      by (cases "by_name (heap s) (daemons s) name") (auto simp: entry_outcome_def named2(2))
  qed
  moreover have "by_name (heap s2) (daemons s2) name = None" if "name \<notin> listed_names entries" for name
    unfolding named2(2) using s1(5,6) s0(3) that by (cases "name \<in> fst ` set entries") auto
  moreover have "heap s2 p = None"
    if "name \<notin> listed_names entries" "by_name (heap s) (daemons s) name = Some p" for name p
  proof -
    have "by_name (heap s1) old' name = Some p" unfolding s1(4) s0(2) using that by (simp add: old_def)
    then have "p \<in> set_tree_node old'" by (simp add: by_name_iff [OF named1(2)])
    then show ?thesis by (simp add: s2(3))
  qed
  ultimately show ?thesis using run unfolding reloaded_store_def by blast
qed

section \<open>The initial load\<close>

text \<open>Loading is reloading with an empty old tree.\<close>

lemma load_entries_reload:
  "reload_entries lc below entries (NULL, s) = rbind (load_entries lc below entries s) (\<lambda>s. Inr (NULL, s))"
proof (induction entries arbitrary: s)
  case (Cons e entries)
  obtain name f where e: "e = (name, f)" by fastforce
  have "configuration_reload_daemon lc below name lines NULL s
      = rbind (configuration_load_daemon lc below name lines s) (\<lambda>s. Inr (NULL, s))" for lines
    by (simp add: configuration_reload_daemon_def daemons_remove_element_def tree_remove_def)
  with Cons show ?case
    by (cases f) (simp_all add: e rbind_assoc cong: rbind_cong)
qed simp

lemma configuration_load_ok:
  assumes "store_ok s" "daemons s = NULL" "fs path = Some entries" "entries_ok lc below entries"
  shows "\<exists>s'. configuration_load lc below fs path s = Inr s' \<and> store_ok s'
    \<and> configuration_path s' = path \<and> store.more s' = store.more s \<and> sent s' = sent s
    \<and> (\<forall>name. name \<notin> listed_names entries \<longrightarrow> by_name (heap s') (daemons s') name = None)
    \<and> (\<forall>name file. listed entries name file \<longrightarrow>
          entry_outcome lc below Map.empty (heap s) s' name file)"
proof -
  define s0 where "s0 = s\<lparr>configuration_path := path\<rparr>"
  have s0: "store_ok s0" "daemons s0 = NULL" "heap s0 = heap s"
    using assms(1,2) by (simp_all add: reload_ok_def s0_def)
  have "\<forall>n \<in> fst ` set entries. by_name (heap s0) (daemons s0) n = None" by (simp add: s0(2))
  from reload_entries_ok [OF s0(1) assms(4) this] obtain old' s' where
    s': "reload_entries lc below entries (NULL, s0) = Inr (old', s')" "reload_ok old' s'"
      "store_frame s0 s'"
      "\<forall>n. n \<notin> fst ` set entries \<longrightarrow>
        by_name (heap s') (daemons s') n = by_name (heap s0) (daemons s0) n"
      "\<forall>n \<in> fst ` set entries - listed_names entries. by_name (heap s') (daemons s') n = None"
      "\<forall>n file. listed entries n file \<longrightarrow>
        entry_outcome lc below (by_name (heap s0) NULL) (heap s0) s' n file" by blast
  from s'(1) have load: "load_entries lc below entries s0 = Inr s'" "old' = NULL"
    unfolding load_entries_reload by (cases "load_entries lc below entries s0"; simp)+
  have "configuration_load lc below fs path s = Inr s'"
    using assms(3) load(1) by (simp add: configuration_load_def s0_def)
  moreover have "by_name (heap s') (daemons s') name = None" if "name \<notin> listed_names entries" for name
    using s'(4,5) that by (cases "name \<in> fst ` set entries") (auto simp: s0(2))
  moreover have "configuration_path s' = path" "store.more s' = store.more s" "sent s' = sent s"
    using s'(3) by (simp_all add: store_frame_def s0_def)
  ultimately show ?thesis using s'(2,6) load(2) s0(3) by auto
qed

text \<open>An action of a client keeps the store: it changes no name and no tree of daemons.\<close>

lemma store_ok_steady:
  assumes "store_ok s" "procs_ok s'" "steady s s'"
  shows "store_ok s'" "by_name (heap s') (daemons s') = by_name (heap s) (daemons s)"
proof -
  have rest: "daemons s' = daemons s"
    using assms(3) store_rest(1) [of s' s] by (simp add: steady_def)
  have "named_ok (heap s) (daemons s)" "dom (heap s) = set_tree_node (daemons s)"
    using assms(1) by (simp_all add: reload_ok_def)
  moreover have "same_name (heap s) (heap s') p" for p
    using assms(3) by (simp add: steady_def same_name_def)
  ultimately show "store_ok s'" "by_name (heap s') (daemons s') = by_name (heap s) (daemons s)"
    using named_ok_cong [of "heap s" "daemons s" "heap s'"] assms(2) steady_dom [OF assms(3)]
    by (simp_all add: reload_ok_def rest)
qed

end
