(* ===== verification/Signals.thy ===== *)
theory Signals
  imports Configuration
begin

text \<open>
  The signals of \<^verbatim>\<open>src/cyberd/signals.c\<close>: the flags the handlers set, the masks and the
  handlers in place. The main loop polls the flags.
\<close>

section \<open>State\<close>

datatype handler = SIGTERM_HANDLER | SIGCHLD_HANDLER | SIGHUP_HANDLER | SIGALRM_HANDLER

text \<open>
  The static flags, and the kernel's part: the mask of the process, the handlers, the alarm, and
  the information of a pending \<^verbatim>\<open>SIGTERM\<close>, its code and its value. A standard signal that is
  pending already is not queued again.
\<close>

record control = store +
  sigreboot :: int
  sigchld :: bool
  sighup :: bool
  sigalrm :: bool
  procmask :: "int set"
  handlers :: "int \<rightharpoonup> handler"
  alarm :: "nat option"
  pending_sigterm :: "(int \<times> int) option"

definition SIGALRM :: int where "SIGALRM = 14"
definition SIGCHLD :: int where "SIGCHLD = 17"
definition SI_USER :: int where "SI_USER = 0"
definition SI_QUEUE :: int where "SI_QUEUE = - 1"

text \<open>The values of \<^verbatim>\<open>sys/reboot.h\<close> as the \<^verbatim>\<open>int\<close>s the handler compares.\<close>

definition RB_AUTOBOOT :: int where "RB_AUTOBOOT = 0x01234567"
definition RB_HALT_SYSTEM :: int where "RB_HALT_SYSTEM = 0xcdef0123 - 2 ^ 32"
definition RB_POWER_OFF :: int where "RB_POWER_OFF = 0x4321fedc"
definition RB_SW_SUSPEND :: int where "RB_SW_SUSPEND = 0xd000fce2 - 2 ^ 32"

section \<open>Handlers\<close>

definition sigterm_handler :: "int \<times> int \<Rightarrow> 'z control_scheme \<Rightarrow> 'z control_scheme" where
  "sigterm_handler siginfo s =
     (let (code, value) = siginfo
      in if code = SI_QUEUE then
           if value = RB_AUTOBOOT \<or> value = RB_HALT_SYSTEM \<or> value = RB_POWER_OFF
           then s\<lparr>sigreboot := value\<rparr>
           else if value = RB_SW_SUSPEND then s
           else s
         else s\<lparr>sigreboot := RB_POWER_OFF\<rparr>)"

definition sigchld_handler :: "'z control_scheme \<Rightarrow> 'z control_scheme" where
  "sigchld_handler s = s\<lparr>sigchld := True\<rparr>"

definition sighup_handler :: "'z control_scheme \<Rightarrow> 'z control_scheme" where
  "sighup_handler s = s\<lparr>sighup := True\<rparr>"

definition sigalrm_handler :: "'z control_scheme \<Rightarrow> 'z control_scheme" where
  "sigalrm_handler s = s\<lparr>sigalrm := True\<rparr>"

section \<open>Setup\<close>

text \<open>Both return the mask of the calls that wait for signals.\<close>

definition signals_setup :: "'z control_scheme \<Rightarrow> int set \<times> 'z control_scheme" where
  "signals_setup s =
     ({}, s\<lparr>procmask := {SIGTERM, SIGCHLD, SIGHUP},
        handlers := (handlers s)(SIGTERM \<mapsto> SIGTERM_HANDLER, SIGCHLD \<mapsto> SIGCHLD_HANDLER,
          SIGHUP \<mapsto> SIGHUP_HANDLER)\<rparr>)"

definition signals_alarm :: "nat \<Rightarrow> 'z control_scheme \<Rightarrow> int set \<times> 'z control_scheme" where
  "signals_alarm seconds s =
     (let oldmask = procmask s
      in (oldmask - {SIGCHLD},
          s\<lparr>procmask := procmask s \<union> {SIGALRM},
            handlers := (handlers s)(SIGALRM \<mapsto> SIGALRM_HANDLER), alarm := Some seconds\<rparr>))"

section \<open>Delivery\<close>

text \<open>
  What the kernel does with a signal: one that is masked stays pending, one with a handler runs
  it, with the code and value of the pending \<^verbatim>\<open>SIGTERM\<close>. Signals without a handler are not
  received by the init process.
\<close>

definition deliver :: "int set \<Rightarrow> int \<Rightarrow> 'z control_scheme \<Rightarrow> 'z control_scheme" where
  "deliver blocked signo s =
     (if signo \<in> blocked then s
      else case handlers s signo of
             None \<Rightarrow> s
           | Some SIGTERM_HANDLER \<Rightarrow>
               (case pending_sigterm s of
                  None \<Rightarrow> sigterm_handler (SI_USER, 0) s
                | Some info \<Rightarrow> sigterm_handler info (s\<lparr>pending_sigterm := None\<rparr>))
           | Some SIGCHLD_HANDLER \<Rightarrow> sigchld_handler s
           | Some SIGHUP_HANDLER \<Rightarrow> sighup_handler s
           | Some SIGALRM_HANDLER \<Rightarrow> sigalrm_handler s)"

definition sigqueue_sigterm :: "int \<Rightarrow> 'z control_scheme \<Rightarrow> 'z control_scheme" where
  "sigqueue_sigterm value s =
     (case pending_sigterm s of
        None \<Rightarrow> s\<lparr>pending_sigterm := Some (SI_QUEUE, value)\<rparr>
      | Some info \<Rightarrow> s)"

section \<open>What the masks do\<close>

definition reboot_value :: "int \<Rightarrow> bool" where
  "reboot_value v \<longleftrightarrow> v \<in> {0, RB_AUTOBOOT, RB_HALT_SYSTEM, RB_POWER_OFF}"

text \<open>A delivery changes the flags and the pending signal only, and never stores another value.\<close>

lemma deliver_store:
  "heap (deliver blocked signo s) = heap s" "spawns (deliver blocked signo s) = spawns s"
  "children (deliver blocked signo s) = children s" "daemons (deliver blocked signo s) = daemons s"
  "sent (deliver blocked signo s) = sent s" "forks (deliver blocked signo s) = forks s"
  "handlers (deliver blocked signo s) = handlers s" "procmask (deliver blocked signo s) = procmask s"
  "configuration_path (deliver blocked signo s) = configuration_path s"
  by (auto simp: deliver_def sigterm_handler_def sigchld_handler_def sighup_handler_def
      sigalrm_handler_def Let_def split: option.splits handler.splits prod.splits)

lemma deliver_reboot_value:
  "reboot_value (sigreboot s) \<Longrightarrow> reboot_value (sigreboot (deliver blocked signo s))"
  by (auto simp: deliver_def sigterm_handler_def sigchld_handler_def sighup_handler_def
      sigalrm_handler_def reboot_value_def Let_def split: option.splits handler.splits prod.splits)

end
