(* ===== verification/Sockets.thy ===== *)
theory Sockets
  imports Signals
begin

unbundle bit_operations_syntax

text \<open>
  The socket nodes and the switch that owns them: \<^verbatim>\<open>src/cyberd/socket_node.c\<close>,
  \<^verbatim>\<open>socket_endpoint_node.c\<close>, \<^verbatim>\<open>socket_switch.c\<close>, the creation and the end of the nodes of
  \<^verbatim>\<open>socket_connection_node.c\<close>, and \<^verbatim>\<open>capabilities.h\<close>. What runs when a descriptor is ready
  is in the theories \<^verbatim>\<open>Connection\<close> and \<^verbatim>\<open>Switch_Loop\<close>.
\<close>

section \<open>Capabilities\<close>

type_synonym capset = uint32

definition CAPABILITY_ENDPOINT_CREATE :: capset where "CAPABILITY_ENDPOINT_CREATE = push_bit 0 1"
definition CAPABILITY_DAEMON_START :: capset where "CAPABILITY_DAEMON_START = push_bit 1 1"
definition CAPABILITY_DAEMON_STOP :: capset where "CAPABILITY_DAEMON_STOP = push_bit 2 1"
definition CAPABILITY_DAEMON_RELOAD :: capset where "CAPABILITY_DAEMON_RELOAD = push_bit 3 1"
definition CAPABILITY_DAEMON_END :: capset where "CAPABILITY_DAEMON_END = push_bit 4 1"
definition CAPABILITY_SYSTEM_POWEROFF :: capset where "CAPABILITY_SYSTEM_POWEROFF = push_bit 5 1"
definition CAPABILITY_SYSTEM_HALT :: capset where "CAPABILITY_SYSTEM_HALT = push_bit 6 1"
definition CAPABILITY_SYSTEM_REBOOT :: capset where "CAPABILITY_SYSTEM_REBOOT = push_bit 7 1"
definition CAPABILITY_SYSTEM_SUSPEND :: capset where "CAPABILITY_SYSTEM_SUSPEND = push_bit 8 1"

definition CAPSET_ALL :: capset where
  "CAPSET_ALL = push_bit 1 CAPABILITY_SYSTEM_SUSPEND - 1"

definition CAPSET_HAS :: "capset \<Rightarrow> capset \<Rightarrow> bool" where
  "CAPSET_HAS capset capability \<longleftrightarrow> capset AND capability \<noteq> 0"

section \<open>Nodes\<close>

text \<open>
  The parser of a connection. Which member of the union is in use follows from the state, so
  the members are the arguments of the states: the word and the number of its bytes, the
  capabilities and the name of an endpoint, the name of a daemon. A name is the part of
  \<^verbatim>\<open>buf\<close> that is written, so its length is \<^verbatim>\<open>len\<close>.
\<close>

datatype parser_state =
    PARSER_STATE_COMMAND
  | PARSER_STATE_ENDPOINT_CREATE_CAPABILITIES uint32 nat
  | PARSER_STATE_ENDPOINT_CREATE_NAME capset "char list"
  | PARSER_STATE_DAEMON_START_NAME "char list"
  | PARSER_STATE_DAEMON_STOP_NAME "char list"
  | PARSER_STATE_DAEMON_RELOAD_NAME "char list"
  | PARSER_STATE_DAEMON_END_NAME "char list"
  | PARSER_STATE_INVALID

record parser =
  capabilities :: capset
  parser_state :: parser_state

text \<open>A node of one of the two classes, with its file descriptor.\<close>

datatype socket_node =
    Endpoint_node (node_fd: int) (endpoint_capabilities: capset)
  | Connection_node (node_fd: int) (connection_parser: parser)

type_synonym node_ptr = nat

text \<open>
  The static variables of the switch and of the endpoints; then the kernel's part: the open
  descriptors, the path each bound socket has, and the sockets in the file system. What the
  environment decides is a script again: the addresses of the next allocations, the next new
  descriptors, the answers of the calls that succeed or fail, and what the next reads return,
  with the bytes left in the local buffer behind what was read.
\<close>

record net = control +
  nodes :: "node_ptr \<rightharpoonup> socket_node"
  snodes :: "node_ptr tree_node"
  activeset :: "int set"
  readset :: "int set"
  socket_endpoints_path :: string
  open_fds :: "int set"
  bound :: "int \<rightharpoonup> string"
  files :: "string set"
  node_allocations :: "node_ptr list"
  new_fds :: "int list"
  answers :: "bool list"
  reads :: "(char list option \<times> char list) list"

definition node_deref :: "(node_ptr \<rightharpoonup> socket_node) \<Rightarrow> node_ptr \<Rightarrow> socket_node result" where
  "node_deref h p = (case h p of None \<Rightarrow> Inl Use_after_free | Some n \<Rightarrow> Inr n)"

lemma node_deref_Some [simp]: "h p = Some n \<Longrightarrow> node_deref h p = Inr n"
  by (simp add: node_deref_def)

definition socket_nodes_compare :: "(node_ptr \<rightharpoonup> socket_node) \<Rightarrow> node_ptr compare" where
  "socket_nodes_compare h l r =
     rbind (node_deref h l) (\<lambda>lsnode. rbind (node_deref h r) (\<lambda>rsnode.
       int_sub (node_fd lsnode) (node_fd rsnode)))"

section \<open>The kernel\<close>

definition FD_SETSIZE :: int where
  "FD_SETSIZE = 1024"

text \<open>\<^verbatim>\<open>FD_SET\<close> and \<^verbatim>\<open>FD_CLR\<close> have no check of their own: other descriptors are outside the array.\<close>

definition FD_SET :: "int \<Rightarrow> int set \<Rightarrow> int set result" where
  "FD_SET fd fds = (if 0 \<le> fd \<and> fd < FD_SETSIZE then Inr (insert fd fds) else Inl Out_of_bounds)"

definition FD_CLR :: "int \<Rightarrow> int set \<Rightarrow> int set result" where
  "FD_CLR fd fds = (if 0 \<le> fd \<and> fd < FD_SETSIZE then Inr (fds - {fd}) else Inl Out_of_bounds)"

definition node_malloc :: "'z net_scheme \<Rightarrow> node_ptr option \<times> 'z net_scheme" where
  "node_malloc s =
     (case node_allocations s of
        [] \<Rightarrow> (None, s)
      | p # rest \<Rightarrow>
          if p \<noteq> key_frame \<and> nodes s p = None then (Some p, s\<lparr>node_allocations := rest\<rparr>)
          else (None, s\<lparr>node_allocations := rest\<rparr>))"

text \<open>A call that makes a descriptor fails with -1, or returns one that is not open.\<close>

definition new_fd :: "'z net_scheme \<Rightarrow> int \<times> 'z net_scheme" where
  "new_fd s =
     (case new_fds s of
        [] \<Rightarrow> (- 1, s)
      | fd # rest \<Rightarrow>
          if 0 \<le> fd \<and> fd < 2 ^ 31 \<and> fd \<notin> open_fds s
          then (fd, s\<lparr>new_fds := rest, open_fds := insert fd (open_fds s)\<rparr>)
          else (- 1, s\<lparr>new_fds := rest\<rparr>))"

definition succeeds :: "'z net_scheme \<Rightarrow> bool \<times> 'z net_scheme" where
  "succeeds s =
     (case answers s of [] \<Rightarrow> (True, s) | a # rest \<Rightarrow> (a, s\<lparr>answers := rest\<rparr>))"

definition close_fd :: "int \<Rightarrow> 'z net_scheme \<Rightarrow> 'z net_scheme" where
  "close_fd fd s = s\<lparr>open_fds := open_fds s - {fd}, bound := (bound s)(fd := None)\<rparr>"

definition unlink :: "string \<Rightarrow> 'z net_scheme \<Rightarrow> 'z net_scheme" where
  "unlink path s = s\<lparr>files := files s - {path}\<rparr>"

text \<open>Binding to a path that exists fails.\<close>

definition bind_fd :: "int \<Rightarrow> string \<Rightarrow> 'z net_scheme \<Rightarrow> bool \<times> 'z net_scheme" where
  "bind_fd fd path s =
     (if path \<in> files s then (False, s)
      else let (ok, s) = succeeds s
           in if ok then (True, s\<lparr>files := insert path (files s), bound := (bound s)(fd \<mapsto> path)\<rparr>)
              else (False, s))"

section \<open>Endpoints\<close>

definition SOCKADDR_UN_MAXLEN :: nat where
  "SOCKADDR_UN_MAXLEN = 108"

definition socket_endpoint_node_create ::
  "string \<Rightarrow> capset \<Rightarrow> 'z net_scheme \<Rightarrow> node_ptr option \<times> 'z net_scheme" where
  "socket_endpoint_node_create name caps s =
     (let (endpoint, s) = node_malloc s
      in case endpoint of
           None \<Rightarrow> (None, s)
         | Some p \<Rightarrow>
             (let (fd, s) = new_fd s
              in if fd < 0 then (None, s)
                 else let sun_path = socket_endpoints_path s @ ''/'' @ name
                      in if SOCKADDR_UN_MAXLEN \<le> length sun_path then (None, close_fd fd s)
                         else let (bind_ok, s) = bind_fd fd sun_path s
                              in if \<not> bind_ok then (None, close_fd fd (unlink sun_path s))
                                 else let (listen_ok, s) = succeeds s
                                      in if \<not> listen_ok then (None, close_fd fd (unlink sun_path s))
                                         else (Some p, s\<lparr>nodes := (nodes s)(p \<mapsto> Endpoint_node fd caps)\<rparr>)))"

definition socket_endpoint_node_destroy :: "node_ptr \<Rightarrow> 'z net_scheme \<Rightarrow> 'z net_scheme result" where
  "socket_endpoint_node_destroy p s =
     rbind (node_deref (nodes s) p) (\<lambda>snode.
       let s = (case bound s (node_fd snode) of Some path \<Rightarrow> unlink path s | None \<Rightarrow> s);
           s = close_fd (node_fd snode) s
       in Inr (s\<lparr>nodes := (nodes s)(p := None)\<rparr>))"

section \<open>Connections: creation and end\<close>

definition socket_connection_node_create ::
  "int \<Rightarrow> capset \<Rightarrow> 'z net_scheme \<Rightarrow> node_ptr option \<times> 'z net_scheme" where
  "socket_connection_node_create fd caps s =
     (let (connection, s) = node_malloc s
      in case connection of
           None \<Rightarrow> (None, s)
         | Some p \<Rightarrow> (Some p, s\<lparr>nodes := (nodes s)(p \<mapsto> Connection_node fd
             \<lparr>capabilities = caps, parser_state = PARSER_STATE_COMMAND\<rparr>)\<rparr>))"

definition socket_connection_node_destroy :: "node_ptr \<Rightarrow> 'z net_scheme \<Rightarrow> 'z net_scheme result" where
  "socket_connection_node_destroy p s =
     rbind (node_deref (nodes s) p) (\<lambda>snode.
       let s = close_fd (node_fd snode) s
       in Inr (s\<lparr>nodes := (nodes s)(p := None)\<rparr>))"

section \<open>The switch\<close>

definition socket_switch_insert :: "node_ptr \<Rightarrow> 'z net_scheme \<Rightarrow> 'z net_scheme result" where
  "socket_switch_insert p s =
     rbind (node_deref (nodes s) p) (\<lambda>snode.
     rbind (FD_SET (node_fd snode) (activeset s)) (\<lambda>active.
     rbind (tree_insert (socket_nodes_compare (nodes s)) (snodes s) p) (\<lambda>root.
     Inr (s\<lparr>activeset := active, snodes := root\<rparr>))))"

text \<open>The call \<^verbatim>\<open>snode->class->destroy(snode)\<close>.\<close>

definition socket_switch_destroy_element :: "node_ptr \<Rightarrow> 'z net_scheme \<Rightarrow> 'z net_scheme result" where
  "socket_switch_destroy_element p s =
     rbind (node_deref (nodes s) p) (\<lambda>snode.
       case snode of
         Endpoint_node fd caps \<Rightarrow> socket_endpoint_node_destroy p s
       | Connection_node fd parser \<Rightarrow> socket_connection_node_destroy p s)"

definition socket_switch_remove :: "node_ptr \<Rightarrow> 'z net_scheme \<Rightarrow> 'z net_scheme result" where
  "socket_switch_remove p s =
     rbind (tree_remove (socket_nodes_compare (nodes s)) (snodes s) p) (\<lambda>(root, removed).
       if removed \<noteq> Some p then Inl Assert_failed
       else rbind (node_deref (nodes s) p) (\<lambda>snode.
            rbind (FD_CLR (node_fd snode) (activeset s)) (\<lambda>active.
            socket_switch_destroy_element p (s\<lparr>snodes := root, activeset := active\<rparr>))))"

text \<open>The return value, which \<^verbatim>\<open>pselect(2)\<close> takes as its first argument.\<close>

definition socket_switch_prepare :: "'z net_scheme \<Rightarrow> (int \<times> 'z net_scheme) result" where
  "socket_switch_prepare s =
     (let s = s\<lparr>readset := activeset s\<rparr>
      in case tree_last (snodes s) of
           None \<Rightarrow> Inr (0, s)
         | Some p \<Rightarrow> rbind (node_deref (nodes s) p) (\<lambda>snode. Inr (node_fd snode + 1, s)))"

definition socket_switch_find :: "int \<Rightarrow> 'z net_scheme \<Rightarrow> node_ptr option result" where
  "socket_switch_find fd s =
     tree_find (socket_nodes_compare ((nodes s)(key_frame \<mapsto> Endpoint_node fd 0))) (snodes s) key_frame"

definition socket_switch_teardown :: "'z net_scheme \<Rightarrow> 'z net_scheme result" where
  "socket_switch_teardown s =
     tree_mutate (snodes s) socket_switch_destroy_element s"

text \<open>\<^verbatim>\<open>mkdir_ok\<close>: the directory was made or exists.\<close>

definition socket_switch_setup ::
  "bool \<Rightarrow> string \<Rightarrow> string \<Rightarrow> 'z net_scheme \<Rightarrow> 'z net_scheme result" where
  "socket_switch_setup mkdir_ok path root s =
     (let s = s\<lparr>socket_endpoints_path := path\<rparr>
      in if \<not> mkdir_ok then Inr s
         else let (snode, s) = socket_endpoint_node_create root CAPSET_ALL s
              in case snode of None \<Rightarrow> Inr s | Some p \<Rightarrow> socket_switch_insert p s)"

end
