(* ===== verification/Connection.thy ===== *)
theory Connection
  imports Sockets
begin

text \<open>
  The parser and executor of the messages of a connection,
  \<^verbatim>\<open>src/cyberd/socket_connection_node.c\<close>. The local buffer the bytes are read into is a list
  with checked accesses; \<open>i\<close> is the position of the pointer in it and \<open>cnt\<close> the count
  the code keeps next to it.
\<close>

section \<open>Bytes\<close>

definition NAME_MAX :: nat where
  "NAME_MAX = 255"

text \<open>\<^verbatim>\<open>ntohl(3)\<close> on a little endian machine: the four bytes in the other order.\<close>

definition ntohl :: "uint32 \<Rightarrow> uint32" where
  "ntohl w = push_bit 24 (w AND 0xff) OR push_bit 8 (w AND 0xff00)
     OR drop_bit 8 (w AND 0xff0000) OR drop_bit 24 w"

lemma byte_masks:
  "(0xff :: uint32) = mask 8" "(0xff00 :: uint32) = push_bit 8 (mask 8)"
  "(0xff0000 :: uint32) = push_bit 16 (mask 8)"
  by (simp_all add: mask_eq_exp_minus_1 push_bit_eq_mult)

lemma bit_ntohl:
  assumes "n < 8"
  shows "bit (ntohl w) n = bit w (24 + n)" "bit (ntohl w) (8 + n) = bit w (16 + n)"
    "bit (ntohl w) (16 + n) = bit w (8 + n)" "bit (ntohl w) (24 + n) = bit w n"
  using assms unfolding ntohl_def byte_masks by (auto simp: bit_simps dest: bit_imp_le_length)

text \<open>\<^verbatim>\<open>memchr(3)\<close> from a position: the characters are read in order, up to the match.\<close>

fun memchr :: "char list \<Rightarrow> nat \<Rightarrow> char \<Rightarrow> nat \<Rightarrow> nat option result" where
  "memchr buf i c 0 = Inr None"
| "memchr buf i c (Suc n) =
     rbind (buf_read buf i) (\<lambda>d. if d = c then Inr (Some i) else memchr buf (i + 1) c n)"

text \<open>
  \<^verbatim>\<open>name_fill\<close>: \<open>None\<close> is the return of -1; otherwise the new position, the new count and
  the name so far. The count grows by the length of the part, as in the code.
\<close>

definition name_fill ::
  "char list \<Rightarrow> nat \<Rightarrow> nat \<Rightarrow> char list \<Rightarrow> (nat \<times> nat \<times> char list) option result" where
  "name_fill buf i cnt out =
     rbind (memchr buf i NUL cnt) (\<lambda>nul.
     let len = (case nul of Some j \<Rightarrow> j - i + 1 | None \<Rightarrow> cnt);
         outlen = length out + len
     in rbind (if outlen > NAME_MAX + 1 then Inr True
               else rbind (memchr buf i (CHR ''/'') len) (\<lambda>slash. Inr (slash \<noteq> None))) (\<lambda>invalid.
        if invalid then Inr None
        else Inr (Some (i + len, cnt + len, out @ take len (drop i buf)))))"

section \<open>Commands\<close>

definition queue_reboot :: "int \<Rightarrow> 'z control_scheme \<Rightarrow> 'z control_scheme" where
  "queue_reboot howto s = sigqueue_sigterm howto s"

definition parser_feed_command ::
  "parser \<Rightarrow> capset \<Rightarrow> 'z control_scheme \<Rightarrow> (parser \<times> 'z control_scheme) result" where
  "parser_feed_command parser capability s =
     (if CAPSET_HAS (capabilities parser) capability then
        if capability = CAPABILITY_ENDPOINT_CREATE then
          Inr (parser\<lparr>parser_state := PARSER_STATE_ENDPOINT_CREATE_CAPABILITIES 0 0\<rparr>, s)
        else if capability = CAPABILITY_DAEMON_START then
          Inr (parser\<lparr>parser_state := PARSER_STATE_DAEMON_START_NAME []\<rparr>, s)
        else if capability = CAPABILITY_DAEMON_STOP then
          Inr (parser\<lparr>parser_state := PARSER_STATE_DAEMON_STOP_NAME []\<rparr>, s)
        else if capability = CAPABILITY_DAEMON_RELOAD then
          Inr (parser\<lparr>parser_state := PARSER_STATE_DAEMON_RELOAD_NAME []\<rparr>, s)
        else if capability = CAPABILITY_DAEMON_END then
          Inr (parser\<lparr>parser_state := PARSER_STATE_DAEMON_END_NAME []\<rparr>, s)
        else if capability = CAPABILITY_SYSTEM_POWEROFF then
          Inr (parser, queue_reboot RB_POWER_OFF s)
        else if capability = CAPABILITY_SYSTEM_HALT then
          Inr (parser, queue_reboot RB_HALT_SYSTEM s)
        else if capability = CAPABILITY_SYSTEM_REBOOT then
          Inr (parser, queue_reboot RB_AUTOBOOT s)
        else if capability = CAPABILITY_SYSTEM_SUSPEND then
          Inr (parser, queue_reboot RB_SW_SUSPEND s)
        else Inl Abort
      else Inr (parser\<lparr>parser_state := PARSER_STATE_INVALID\<rparr>, s))"

section \<open>Names\<close>

text \<open>The results: the parser, the position, the count and the state.\<close>

definition create_endpoint :: "string \<Rightarrow> capset \<Rightarrow> 'z net_scheme \<Rightarrow> 'z net_scheme result" where
  "create_endpoint name caps s =
     (let (snode, s) = socket_endpoint_node_create name caps s
      in case snode of None \<Rightarrow> Inr s | Some p \<Rightarrow> socket_switch_insert p s)"

definition parser_feed_endpoint_create_name ::
  "char list \<Rightarrow> nat \<Rightarrow> nat \<Rightarrow> parser \<Rightarrow> capset \<Rightarrow> char list \<Rightarrow> 'z net_scheme \<Rightarrow>
     (parser \<times> nat \<times> nat \<times> 'z net_scheme) result" where
  "parser_feed_endpoint_create_name buf i cnt parser caps out s =
     rbind (name_fill buf i cnt out) (\<lambda>filled.
       case filled of
         None \<Rightarrow> Inr (parser\<lparr>parser_state := PARSER_STATE_INVALID\<rparr>, i, cnt, s)
       | Some (i, cnt, out) \<Rightarrow>
           if last out = NUL then
             let granted = capabilities parser AND caps
             in rbind (if granted \<noteq> 0 \<and> hd out \<noteq> NUL \<and> hd out \<noteq> CHR ''.'' then
                         rbind (buf_string out 0) (\<lambda>name. create_endpoint name granted s)
                       else Inr s) (\<lambda>s.
                Inr (parser\<lparr>parser_state := PARSER_STATE_COMMAND\<rparr>, i, cnt, s))
           else Inr (parser\<lparr>parser_state := PARSER_STATE_ENDPOINT_CREATE_NAME caps out\<rparr>, i, cnt, s))"

text \<open>\<open>state\<close> is the state the parser is in, as a function of its name.\<close>

definition parser_feed_daemon_name ::
  "char list \<Rightarrow> nat \<Rightarrow> nat \<Rightarrow> parser \<Rightarrow> (char list \<Rightarrow> parser_state) \<Rightarrow> char list \<Rightarrow>
     (ptr \<Rightarrow> 'z net_scheme \<Rightarrow> 'z net_scheme result) \<Rightarrow> 'z net_scheme \<Rightarrow>
     (parser \<times> nat \<times> nat \<times> 'z net_scheme) result" where
  "parser_feed_daemon_name buf i cnt parser state out action s =
     rbind (name_fill buf i cnt out) (\<lambda>filled.
       case filled of
         None \<Rightarrow> Inr (parser\<lparr>parser_state := PARSER_STATE_INVALID\<rparr>, i, cnt, s)
       | Some (i, cnt, out) \<Rightarrow>
           if last out = NUL then
             rbind (buf_string out 0) (\<lambda>name.
             rbind (configuration_find name s) (\<lambda>daemon.
             rbind (case daemon of None \<Rightarrow> Inr s | Some p \<Rightarrow> action p s) (\<lambda>s.
             Inr (parser\<lparr>parser_state := PARSER_STATE_COMMAND\<rparr>, i, cnt, s))))
           else Inr (parser\<lparr>parser_state := state out\<rparr>, i, cnt, s))"

section \<open>The loop\<close>

text \<open>
  One iteration. The shift of a command is undefined from 32 on; a \<^verbatim>\<open>char\<close> below zero becomes
  an even larger unsigned number.
\<close>

definition parser_step ::
  "char list \<Rightarrow> nat \<Rightarrow> nat \<Rightarrow> parser \<Rightarrow> 'z net_scheme \<Rightarrow> (parser \<times> nat \<times> nat \<times> 'z net_scheme) result" where
  "parser_step buf i cnt parser s =
     (case parser_state parser of
        PARSER_STATE_COMMAND \<Rightarrow>
          rbind (buf_read buf i) (\<lambda>c.
          if byte c \<ge> 32 then Inl Shift_overflow
          else rbind (parser_feed_command parser (push_bit (nat (byte c)) 1) s) (\<lambda>(parser, s).
               Inr (parser, i + 1, cnt - 1, s)))
      | PARSER_STATE_ENDPOINT_CREATE_CAPABILITIES word got \<Rightarrow>
          rbind (buf_read buf i) (\<lambda>c.
          let word = push_bit 8 word OR of_int (byte c); got = got + 1
          in Inr (parser\<lparr>parser_state :=
                 if got = 4 then PARSER_STATE_ENDPOINT_CREATE_NAME (ntohl word) []
                 else PARSER_STATE_ENDPOINT_CREATE_CAPABILITIES word got\<rparr>, i + 1, cnt - 1, s))
      | PARSER_STATE_ENDPOINT_CREATE_NAME caps out \<Rightarrow>
          parser_feed_endpoint_create_name buf i cnt parser caps out s
      | PARSER_STATE_DAEMON_START_NAME out \<Rightarrow>
          parser_feed_daemon_name buf i cnt parser PARSER_STATE_DAEMON_START_NAME out daemon_start s
      | PARSER_STATE_DAEMON_STOP_NAME out \<Rightarrow>
          parser_feed_daemon_name buf i cnt parser PARSER_STATE_DAEMON_STOP_NAME out daemon_stop s
      | PARSER_STATE_DAEMON_RELOAD_NAME out \<Rightarrow>
          parser_feed_daemon_name buf i cnt parser PARSER_STATE_DAEMON_RELOAD_NAME out daemon_reload s
      | PARSER_STATE_DAEMON_END_NAME out \<Rightarrow>
          parser_feed_daemon_name buf i cnt parser PARSER_STATE_DAEMON_END_NAME out daemon_end s
      | PARSER_STATE_INVALID \<Rightarrow> Inr (parser, i + cnt, 0, s))"

lemma memchr_reads: "memchr buf i c n = Inr r \<Longrightarrow> n \<noteq> 0 \<Longrightarrow> i < length buf"
  by (cases n) (auto simp: result_iff)

lemma memchr_Some: "memchr buf i c n = Inr (Some j) \<Longrightarrow> i \<le> j \<and> j < i + n \<and> j < length buf \<and> buf ! j = c"
  by (induction buf i c n rule: memchr.induct) (force simp: result_iff split: if_splits)+

lemma name_fill_progress:
  assumes "name_fill buf i cnt out = Inr (Some (i', cnt', out'))" "cnt \<noteq> 0"
  shows "i < i'" "i < length buf"
proof -
  from assms(1) obtain nul where nul: "memchr buf i NUL cnt = Inr nul"
    "i' = i + (case nul of Some j \<Rightarrow> j - i + 1 | None \<Rightarrow> cnt)"
    by (auto simp: name_fill_def result_iff Let_def split: if_splits)
  show "i < length buf" by (rule memchr_reads [OF nul(1) assms(2)])
  show "i < i'" using nul(2) assms(2) by (cases nul) auto
qed

lemma daemon_name_cases:
  assumes "parser_feed_daemon_name buf i cnt parser state out action s = Inr (parser', i', cnt', s')"
  obtains (invalid) "parser_state parser' = PARSER_STATE_INVALID" "i' = i"
  | (filled) out' where "name_fill buf i cnt out = Inr (Some (i', cnt', out'))"
proof -
  from assms obtain filled where f: "name_fill buf i cnt out = Inr filled"
    by (auto simp: parser_feed_daemon_name_def result_iff)
  show ?thesis
  proof (cases filled)
    case None
    with f assms invalid show ?thesis by (auto simp: parser_feed_daemon_name_def)
  next
    case (Some r)
    obtain i1 cnt1 out1 where r: "r = (i1, cnt1, out1)" by (cases r)
    have "i' = i1 \<and> cnt' = cnt1"
      using assms f Some r
      by (cases "last out1 = NUL") (auto simp: parser_feed_daemon_name_def result_iff)
    with f Some r filled show ?thesis by auto
  qed
qed

lemma endpoint_name_cases:
  assumes "parser_feed_endpoint_create_name buf i cnt parser caps out s = Inr (parser', i', cnt', s')"
  obtains (invalid) "parser_state parser' = PARSER_STATE_INVALID" "i' = i"
  | (filled) out' where "name_fill buf i cnt out = Inr (Some (i', cnt', out'))"
proof -
  from assms obtain filled where f: "name_fill buf i cnt out = Inr filled"
    by (auto simp: parser_feed_endpoint_create_name_def result_iff)
  show ?thesis
  proof (cases filled)
    case None
    with f assms invalid show ?thesis by (auto simp: parser_feed_endpoint_create_name_def)
  next
    case (Some r)
    obtain i1 cnt1 out1 where r: "r = (i1, cnt1, out1)" by (cases r)
    have "i' = i1 \<and> cnt' = cnt1"
      using assms f Some r
      by (cases "last out1 = NUL")
        (auto simp: parser_feed_endpoint_create_name_def result_iff Let_def)
    with f Some r filled show ?thesis by auto
  qed
qed

definition parser_measure :: "char list \<Rightarrow> nat \<Rightarrow> nat \<Rightarrow> parser \<Rightarrow> nat" where
  "parser_measure buf i cnt parser =
     (if cnt = 0 then 0
      else 1 + 2 * (length buf - i) + (if parser_state parser = PARSER_STATE_INVALID then 0 else 1))"

lemma parser_step_measure:
  assumes "parser_step buf i cnt parser s = Inr (parser', i', cnt', s')" "cnt \<noteq> 0"
  shows "parser_measure buf i' cnt' parser' < parser_measure buf i cnt parser"
proof -
  have further: "parser_measure buf i' cnt' parser' < parser_measure buf i cnt parser"
    if "i < i'" "i < length buf" "parser_state parser \<noteq> PARSER_STATE_INVALID"
    using that assms(2) by (auto simp: parser_measure_def)
  have stops: "parser_measure buf i' cnt' parser' < parser_measure buf i cnt parser"
    if "parser_state parser' = PARSER_STATE_INVALID" "parser_state parser \<noteq> PARSER_STATE_INVALID" "i' = i"
    using that assms(2) by (auto simp: parser_measure_def)
  have name: "parser_measure buf i' cnt' parser' < parser_measure buf i cnt parser"
    if "parser_feed_daemon_name buf i cnt parser state out action s = Inr (parser', i', cnt', s')"
      "parser_state parser \<noteq> PARSER_STATE_INVALID" for state out action
  proof (cases rule: daemon_name_cases [OF that(1)])
    case 1
    then show ?thesis by (intro stops that(2))
  next
    case (2 out')
    from name_fill_progress [OF this assms(2)] show ?thesis by (intro further that(2))
  qed
  have endpoint: "parser_measure buf i' cnt' parser' < parser_measure buf i cnt parser"
    if "parser_feed_endpoint_create_name buf i cnt parser caps out s = Inr (parser', i', cnt', s')"
      "parser_state parser \<noteq> PARSER_STATE_INVALID" for caps out
  proof (cases rule: endpoint_name_cases [OF that(1)])
    case 1
    then show ?thesis by (intro stops that(2))
  next
    case (2 out')
    from name_fill_progress [OF this assms(2)] show ?thesis by (intro further that(2))
  qed
  show ?thesis
  proof (cases "parser_state parser")
    case PARSER_STATE_COMMAND
    with assms(1) show ?thesis
      by (intro further) (auto simp: parser_step_def result_iff split: if_splits)
  next
    case (PARSER_STATE_ENDPOINT_CREATE_CAPABILITIES word got)
    with assms(1) show ?thesis
      by (intro further) (auto simp: parser_step_def result_iff Let_def split: if_splits)
  next
    case PARSER_STATE_INVALID
    with assms show ?thesis by (auto simp: parser_step_def parser_measure_def)
  next
    case (PARSER_STATE_ENDPOINT_CREATE_NAME caps out)
    with assms(1) show ?thesis by (intro endpoint [of caps out]) (simp_all add: parser_step_def)
  next
    case (PARSER_STATE_DAEMON_START_NAME out)
    with assms(1) show ?thesis
      by (intro name [of PARSER_STATE_DAEMON_START_NAME out daemon_start]) (simp_all add: parser_step_def)
  next
    case (PARSER_STATE_DAEMON_STOP_NAME out)
    with assms(1) show ?thesis
      by (intro name [of PARSER_STATE_DAEMON_STOP_NAME out daemon_stop]) (simp_all add: parser_step_def)
  next
    case (PARSER_STATE_DAEMON_RELOAD_NAME out)
    with assms(1) show ?thesis
      by (intro name [of PARSER_STATE_DAEMON_RELOAD_NAME out daemon_reload]) (simp_all add: parser_step_def)
  next
    case (PARSER_STATE_DAEMON_END_NAME out)
    with assms(1) show ?thesis
      by (intro name [of PARSER_STATE_DAEMON_END_NAME out daemon_end]) (simp_all add: parser_step_def)
  qed
qed

function parser_feed ::
  "char list \<Rightarrow> nat \<Rightarrow> nat \<Rightarrow> parser \<Rightarrow> 'z net_scheme \<Rightarrow> (parser \<times> 'z net_scheme) result" where
  "parser_feed buf i cnt parser s =
     (if cnt = 0 then Inr (parser, s)
      else rbind (parser_step buf i cnt parser s) (\<lambda>(parser, i, cnt, s).
           parser_feed buf i cnt parser s))"
  by pat_completeness auto
termination
  by (relation "measure (\<lambda>(buf, i, cnt, parser, s). parser_measure buf i cnt parser)")
    (auto intro: parser_step_measure)

declare parser_feed.simps [simp del]

end
