(* ===== verification/Switch_Loop.thy ===== *)
theory Switch_Loop
  imports Connection
begin

text \<open>
  What runs when a descriptor is ready: the operations of the two classes of nodes
  (\<^verbatim>\<open>socket_endpoint_node_operate\<close>, \<^verbatim>\<open>socket_connection_node_operate\<close>) and the loop of
  \<^verbatim>\<open>socket_switch_operate\<close>.
\<close>

section \<open>Operations of the nodes\<close>

text \<open>A node reached through the table of another class would be read as the wrong structure.\<close>

definition socket_endpoint_node_operate :: "node_ptr \<Rightarrow> 'z net_scheme \<Rightarrow> 'z net_scheme result" where
  "socket_endpoint_node_operate p s =
     rbind (node_deref (nodes s) p) (\<lambda>snode.
       case snode of
         Connection_node _ _ \<Rightarrow> Inl Bad_union
       | Endpoint_node _ caps \<Rightarrow>
           (let (fd, s) = new_fd s
            in if fd < 0 then Inr s
               else let (fcntl_ok, s) = succeeds s
                    in if \<not> fcntl_ok then Inr (close_fd fd s)
                       else let (connection, s) = socket_connection_node_create fd caps s
                            in case connection of
                                 None \<Rightarrow> Inr (close_fd fd s)
                               | Some q \<Rightarrow> socket_switch_insert q s))"

definition CONFIG_SOCKET_CONNECTIONS_BUFFER_SIZE :: nat where
  "CONFIG_SOCKET_CONNECTIONS_BUFFER_SIZE = 512"

text \<open>
  \<^verbatim>\<open>read(2)\<close> into the local buffer: an error, or at most as many bytes as fit, in front of
  what the stack held before.
\<close>

definition read_fd :: "'z net_scheme \<Rightarrow> (char list option \<times> char list) \<times> 'z net_scheme" where
  "read_fd s =
     (case reads s of
        [] \<Rightarrow> ((None, []), s)
      | (got, stale) # rest \<Rightarrow>
          let n = CONFIG_SOCKET_CONNECTIONS_BUFFER_SIZE; got = map_option (take n) got;
              buf = take n ((case got of None \<Rightarrow> [] | Some bytes \<Rightarrow> bytes) @ stale @ replicate n NUL)
          in ((got, buf), s\<lparr>reads := rest\<rparr>))"

definition socket_connection_node_operate :: "node_ptr \<Rightarrow> 'z net_scheme \<Rightarrow> 'z net_scheme result" where
  "socket_connection_node_operate p s =
     rbind (node_deref (nodes s) p) (\<lambda>snode.
       case snode of
         Endpoint_node _ _ \<Rightarrow> Inl Bad_union
       | Connection_node fd parser \<Rightarrow>
           (let ((got, buffer), s) = read_fd s
            in case got of
                 None \<Rightarrow> socket_switch_remove p s
               | Some bytes \<Rightarrow>
                   if bytes = [] then socket_switch_remove p s
                   else rbind (parser_feed buffer 0 (length bytes) parser s) (\<lambda>(parser, s).
                        Inr (s\<lparr>nodes := (nodes s)(p \<mapsto> Connection_node fd parser)\<rparr>))))"

text \<open>The call \<^verbatim>\<open>snode->class->operate(snode)\<close>.\<close>

definition node_operate :: "node_ptr \<Rightarrow> 'z net_scheme \<Rightarrow> 'z net_scheme result" where
  "node_operate p s =
     rbind (node_deref (nodes s) p) (\<lambda>snode.
       case snode of
         Endpoint_node _ _ \<Rightarrow> socket_endpoint_node_operate p s
       | Connection_node _ _ \<Rightarrow> socket_connection_node_operate p s)"

section \<open>The loop\<close>

fun operate_fds :: "int list \<Rightarrow> int \<Rightarrow> 'z net_scheme \<Rightarrow> 'z net_scheme result" where
  "operate_fds [] nfds s = Inr s"
| "operate_fds (fd # fds) nfds s =
     (if nfds = 0 then Inr s
      else if fd \<notin> readset s then operate_fds fds nfds s
      else rbind (socket_switch_find fd s) (\<lambda>snode.
             case snode of
               None \<Rightarrow> Inl Null_deref
             | Some p \<Rightarrow> rbind (node_operate p s) (operate_fds fds (nfds - 1))))"

definition socket_switch_operate :: "int \<Rightarrow> 'z net_scheme \<Rightarrow> 'z net_scheme result" where
  "socket_switch_operate nfds s = operate_fds [0..FD_SETSIZE - 1] nfds s"

end
