(* ===== verification/Init.thy ===== *)
theory Init
  imports Reap Switch_Loop
begin

text \<open>
  The main program, \<^verbatim>\<open>src/cyberd/main.c\<close>: the setup of the subsystems, the main loop around
  \<^verbatim>\<open>pselect(2)\<close>, and the teardown up to the call of \<^verbatim>\<open>reboot(2)\<close>.
\<close>

section \<open>The build configuration\<close>

text \<open>
  \<^verbatim>\<open>CONFIG_RC_PATH\<close> need not be defined, \<open>None\<close>: then there are no run commands. Without
  \<^verbatim>\<open>NDEBUG\<close> the memory is freed at the end.
\<close>

record build =
  CONFIG_CONFIGURATION_PATH :: string
  CONFIG_SOCKET_ENDPOINTS_PATH :: string
  CONFIG_SOCKET_ENDPOINTS_ROOT :: string
  CONFIG_REBOOT_TIMEOUT :: nat
  CONFIG_RC_PATH :: "string option"
  NDEBUG :: bool

section \<open>Setup\<close>

text \<open>
  The run commands with the marker they clear; the process may still wait for them when the
  reported children are used up.
\<close>

definition run_commands :: "siginfo list list \<Rightarrow> 'z net_scheme \<Rightarrow> 'z net_scheme option result" where
  "run_commands batches s =
     rbind (rc batches s) (\<lambda>r.
     Inr (map_option (\<lambda>s'. if fst (fork s) = - 1 then s' else s'\<lparr>sigchld := False\<rparr>) r))"

definition main_setup ::
  "build \<Rightarrow> libc \<Rightarrow> char result \<Rightarrow> directories \<Rightarrow> bool \<Rightarrow> siginfo list list \<Rightarrow> 'z net_scheme \<Rightarrow>
     (int set \<times> 'z net_scheme) option result" where
  "main_setup b lc below fs mkdir_ok batches s =
     (let (sigmask, s) = signals_setup s
      in rbind (socket_switch_setup mkdir_ok (CONFIG_SOCKET_ENDPOINTS_PATH b)
                  (CONFIG_SOCKET_ENDPOINTS_ROOT b) s) (\<lambda>s.
         rbind (case CONFIG_RC_PATH b of None \<Rightarrow> Inr (Some s) | Some path \<Rightarrow> run_commands batches s) (\<lambda>r.
           case r of
             None \<Rightarrow> Inr None
           | Some s \<Rightarrow>
               rbind (configuration_load lc below fs (CONFIG_CONFIGURATION_PATH b) s) (\<lambda>s.
               Inr (Some (sigmask, s))))))"

section \<open>The main loop\<close>

text \<open>
  How \<^verbatim>\<open>pselect(2)\<close> returns: with descriptors that are ready; with \<^verbatim>\<open>EINTR\<close> after signals
  were delivered, and then the children that have terminated and the directories as they are at
  that time; or with another error.
\<close>

datatype wakeup =
    Ready "int set"
  | Interrupted "int list" "siginfo list" directories
  | Select_error

definition deliver_all :: "int set \<Rightarrow> int list \<Rightarrow> 'z control_scheme \<Rightarrow> 'z control_scheme" where
  "deliver_all sigmask signos s = fold (deliver sigmask) signos s"

text \<open>The branch of the signals.\<close>

definition handle_signals ::
  "libc \<Rightarrow> char result \<Rightarrow> siginfo list \<Rightarrow> directories \<Rightarrow> 'z net_scheme \<Rightarrow> 'z net_scheme result" where
  "handle_signals lc below infos fs s =
     rbind (if sighup s
            then rbind (configuration_reload lc below fs s) (\<lambda>s. Inr (s\<lparr>sighup := False\<rparr>))
            else Inr s) (\<lambda>s.
     if sigchld s
     then rbind (reap_children infos s) (\<lambda>(_, s). Inr (s\<lparr>sigchld := False\<rparr>))
     else Inr s)"

definition main_iteration ::
  "libc \<Rightarrow> char result \<Rightarrow> int set \<Rightarrow> wakeup \<Rightarrow> 'z net_scheme \<Rightarrow> 'z net_scheme result" where
  "main_iteration lc below sigmask w s =
     rbind (socket_switch_prepare s) (\<lambda>(nfds, s).
       case w of
         Ready fds \<Rightarrow>
           (let ready = {fd \<in> readset s. fd \<in> fds \<and> fd < nfds}
            in socket_switch_operate (int (card ready)) (s\<lparr>readset := ready\<rparr>))
       | Interrupted signos infos fs \<Rightarrow>
           handle_signals lc below infos fs (deliver_all sigmask signos s)
       | Select_error \<Rightarrow> Inr s)"

text \<open>The loop over the next wakeups; the flag says whether it ended, with a reboot asked for.\<close>

fun main_loop ::
  "libc \<Rightarrow> char result \<Rightarrow> int set \<Rightarrow> wakeup list \<Rightarrow> 'z net_scheme \<Rightarrow> (bool \<times> 'z net_scheme) result" where
  "main_loop lc below sigmask [] s = Inr (False, s)"
| "main_loop lc below sigmask (w # ws) s =
     rbind (main_iteration lc below sigmask w s) (\<lambda>s.
       if sigreboot s = 0 then main_loop lc below sigmask ws s else Inr (True, s))"

section \<open>Teardown\<close>

text \<open>
  The loop that waits for the daemons: at each turn the signals delivered in
  \<^verbatim>\<open>sigsuspend(2)\<close> and the children reaped. The result is the flag \<^verbatim>\<open>children\<close>, here \<open>left\<close>, or \<open>None\<close>
  while the process still waits.
\<close>

fun teardown_wait ::
  "int set \<Rightarrow> (int list \<times> siginfo list) list \<Rightarrow> 'z control_scheme \<Rightarrow> (bool \<times> 'z control_scheme) option result" where
  "teardown_wait sigmask [] s = Inr None"
| "teardown_wait sigmask ((signos, infos) # ws) s =
     rbind (reap_children infos (deliver_all sigmask signos s)) (\<lambda>(status, s).
       let left = (status = 0)
       in if left \<and> \<not> sigalrm s \<and> \<not> spawns_empty s then teardown_wait sigmask ws s
          else Inr (Some (left, s)))"

text \<open>Up to the end of the last child; \<open>rest\<close> holds the children the last, blocking call reaps.\<close>

definition stop_everything ::
  "build \<Rightarrow> (int list \<times> siginfo list) list \<Rightarrow> siginfo list \<Rightarrow> 'z net_scheme \<Rightarrow> 'z net_scheme option result" where
  "stop_everything b ws rest s =
     rbind (spawns_stop s) (\<lambda>s.
     rbind (socket_switch_teardown s) (\<lambda>s.
     let (sigmask, s) = signals_alarm (CONFIG_REBOOT_TIMEOUT b) s
     in rbind (teardown_wait sigmask ws s) (\<lambda>r.
          case r of
            None \<Rightarrow> Inr None
          | Some (left, s) \<Rightarrow>
              rbind (if left then
                       rbind (reap_children rest (kill (- 1) SIGKILL s)) (\<lambda>(_, s). Inr s)
                     else Inr s) (\<lambda>s.
              Inr (Some s)))))"

text \<open>What builds with assertions free: the daemons, and then the nodes of the storage of the processes.\<close>

definition cleanup :: "'z store_scheme \<Rightarrow> 'z store_scheme result" where
  "cleanup s =
     rbind (configuration_cleanup s) (\<lambda>s.
     let freed = spawns_cleanup s in Inr s)"

text \<open>The result is the argument of \<^verbatim>\<open>reboot(2)\<close> and the state it is called in.\<close>

definition teardown ::
  "build \<Rightarrow> (int list \<times> siginfo list) list \<Rightarrow> siginfo list \<Rightarrow> 'z net_scheme \<Rightarrow>
     (int \<times> 'z net_scheme) option result" where
  "teardown b ws rest s =
     rbind (stop_everything b ws rest s) (\<lambda>r.
       case r of
         None \<Rightarrow> Inr None
       | Some s \<Rightarrow> rbind (if NDEBUG b then Inr s else cleanup s) (\<lambda>s. Inr (Some (sigreboot s, s))))"

section \<open>The program\<close>

text \<open>
  \<^verbatim>\<open>main\<close>: the result is the argument of \<^verbatim>\<open>reboot(2)\<close>, or \<open>None\<close> while the process still
  waits at one of its calls.
\<close>

definition main_program ::
  "build \<Rightarrow> libc \<Rightarrow> char result \<Rightarrow> directories \<Rightarrow> bool \<Rightarrow> siginfo list list \<Rightarrow> wakeup list \<Rightarrow>
     (int list \<times> siginfo list) list \<Rightarrow> siginfo list \<Rightarrow> 'z net_scheme \<Rightarrow>
     (int \<times> 'z net_scheme) option result" where
  "main_program b lc below fs mkdir_ok batches wakeups waits rest s =
     rbind (main_setup b lc below fs mkdir_ok batches s) (\<lambda>r.
       case r of
         None \<Rightarrow> Inr None
       | Some (sigmask, s) \<Rightarrow>
           rbind (main_loop lc below sigmask wakeups s) (\<lambda>(stop, s).
             if stop then teardown b waits rest s else Inr None))"

end
