(* ===== verification/Net_Invariant.thy ===== *)
theory Net_Invariant
  imports Switch_Loop
begin

unbundle bit_operations_syntax

text \<open>
  The invariant of the socket switch and of the parsers of its connections, and the lemmas that
  every operation on the sockets keeps it.
\<close>

section \<open>The invariant\<close>

definition fd_of :: "(node_ptr \<rightharpoonup> socket_node) \<Rightarrow> node_ptr \<Rightarrow> int" where
  "fd_of h p = node_fd (the (h p))"

definition fd_carrier :: "(node_ptr \<rightharpoonup> socket_node) \<Rightarrow> node_ptr set" where
  "fd_carrier h = {p. \<exists>n. h p = Some n \<and> 0 \<le> node_fd n \<and> node_fd n < FD_SETSIZE}"

interpretation switched: compare_order "socket_nodes_compare h" "fd_of h" "fd_carrier h" for h
  by unfold_locales
    (auto simp: socket_nodes_compare_def fd_of_def fd_carrier_def FD_SETSIZE_def int_sub_def)

definition within :: "capset \<Rightarrow> capset \<Rightarrow> bool" where
  "within a b \<longleftrightarrow> a AND b = a"

lemma within_refl [simp]: "within a a"
  by (simp add: within_def)

lemma within_and: "within a c \<Longrightarrow> within (a AND b) c"
  unfolding within_def by (metis and.assoc and.commute)

lemma within_and_left: "within (a AND b) a"
  unfolding within_def by (metis and.assoc and.commute and.idem)

lemma within_trans: "within a b \<Longrightarrow> within b c \<Longrightarrow> within a c"
  unfolding within_def by (metis and.assoc)

text \<open>A name in progress: it fits, and has no nul and no slash yet.\<close>

definition name_ok :: "char list \<Rightarrow> bool" where
  "name_ok out \<longleftrightarrow> length out \<le> NAME_MAX + 1 \<and> NUL \<notin> set out \<and> CHR ''/'' \<notin> set out"

text \<open>
  A parser waits for a name only where its connection has the capability of the command.
\<close>

definition parser_ok :: "parser \<Rightarrow> bool" where
  "parser_ok parser \<longleftrightarrow> within (capabilities parser) CAPSET_ALL
     \<and> (case parser_state parser of
          PARSER_STATE_COMMAND \<Rightarrow> True
        | PARSER_STATE_ENDPOINT_CREATE_CAPABILITIES word got \<Rightarrow>
            got < 4 \<and> CAPSET_HAS (capabilities parser) CAPABILITY_ENDPOINT_CREATE
        | PARSER_STATE_ENDPOINT_CREATE_NAME caps out \<Rightarrow>
            name_ok out \<and> CAPSET_HAS (capabilities parser) CAPABILITY_ENDPOINT_CREATE
        | PARSER_STATE_DAEMON_START_NAME out \<Rightarrow>
            name_ok out \<and> CAPSET_HAS (capabilities parser) CAPABILITY_DAEMON_START
        | PARSER_STATE_DAEMON_STOP_NAME out \<Rightarrow>
            name_ok out \<and> CAPSET_HAS (capabilities parser) CAPABILITY_DAEMON_STOP
        | PARSER_STATE_DAEMON_RELOAD_NAME out \<Rightarrow>
            name_ok out \<and> CAPSET_HAS (capabilities parser) CAPABILITY_DAEMON_RELOAD
        | PARSER_STATE_DAEMON_END_NAME out \<Rightarrow>
            name_ok out \<and> CAPSET_HAS (capabilities parser) CAPABILITY_DAEMON_END
        | PARSER_STATE_INVALID \<Rightarrow> True)"

definition node_ok :: "socket_node \<Rightarrow> bool" where
  "node_ok n \<longleftrightarrow> 0 \<le> node_fd n \<and> node_fd n < FD_SETSIZE
     \<and> (case n of Endpoint_node fd caps \<Rightarrow> within caps CAPSET_ALL
        | Connection_node fd parser \<Rightarrow> parser_ok parser)"

definition node_capabilities :: "socket_node \<Rightarrow> capset" where
  "node_capabilities n =
     (case n of Endpoint_node fd caps \<Rightarrow> caps | Connection_node fd parser \<Rightarrow> capabilities parser)"

text \<open>
  Every node is in the tree, under its descriptor, which is open; the active set is the set of
  these descriptors. The next descriptors the kernel gives are below the size of an
  \<^verbatim>\<open>fd_set\<close>, as the default limit of open files provides: the sources rely on it.
\<close>

definition net_ok :: "'z net_scheme \<Rightarrow> bool" where
  "net_ok s \<longleftrightarrow>
     tree_ok (fd_of (nodes s)) (fd_carrier (nodes s)) (snodes s)
     \<and> set_tree_node (snodes s) = dom (nodes s)
     \<and> nodes s key_frame = None
     \<and> (\<forall>p n. nodes s p = Some n \<longrightarrow> node_ok n)
     \<and> activeset s = fd_of (nodes s) ` dom (nodes s)
     \<and> activeset s \<subseteq> open_fds s
     \<and> (\<forall>fd \<in> set (new_fds s). fd < FD_SETSIZE)"

text \<open>The parts of the state the sockets are not.\<close>

definition same_control :: "'z net_scheme \<Rightarrow> 'z net_scheme \<Rightarrow> bool" where
  "same_control s s' \<longleftrightarrow> control.truncate s' = control.truncate s"

lemma same_control_refl [simp]: "same_control s s"
  by (simp add: same_control_def)

lemma same_control_trans: "same_control s1 s2 \<Longrightarrow> same_control s2 s3 \<Longrightarrow> same_control s1 s3"
  by (simp add: same_control_def)

lemma same_control_fields:
  assumes "same_control s s'"
  shows "heap s' = heap s" "spawns s' = spawns s" "children s' = children s" "sent s' = sent s"
    "forks s' = forks s" "allocations s' = allocations s" "daemons s' = daemons s"
    "configuration_path s' = configuration_path s" "sigreboot s' = sigreboot s"
    "sigchld s' = sigchld s" "sighup s' = sighup s" "sigalrm s' = sigalrm s"
    "procmask s' = procmask s" "handlers s' = handlers s" "pending_sigterm s' = pending_sigterm s"
  using assms by (auto simp: same_control_def control.defs)

lemma same_control_store: "same_control s s' \<Longrightarrow> reload_ok old s' = reload_ok old s"
  by (simp add: reload_ok_def procs_but_def same_control_fields)

text \<open>
  What an operation on nodes may touch: the nodes in \<open>P\<close>; new nodes have capabilities within
  \<open>caps\<close> only.
\<close>

definition touches :: "node_ptr set \<Rightarrow> capset \<Rightarrow> 'z net_scheme \<Rightarrow> 'z net_scheme \<Rightarrow> bool" where
  "touches P caps s s' \<longleftrightarrow> readset s' = readset s
     \<and> socket_endpoints_path s' = socket_endpoints_path s
     \<and> (\<forall>q \<in> dom (nodes s) - P. nodes s' q = nodes s q)
     \<and> (\<forall>q n. nodes s q = None \<longrightarrow> nodes s' q = Some n \<longrightarrow> within (node_capabilities n) caps)"

lemma touches_refl [simp]: "touches P caps s s"
  by (simp add: touches_def)

lemma touches_trans:
  assumes "touches P caps s1 s2" "touches P caps s2 s3" "P \<subseteq> dom (nodes s1)"
  shows "touches P caps s1 s3"
proof -
  have "nodes s3 q = nodes s1 q" if "q \<in> dom (nodes s1) - P" for q
  proof -
    from that assms(1) have "nodes s2 q = nodes s1 q" by (simp add: touches_def)
    moreover from this that have "q \<in> dom (nodes s2) - P" by (auto simp: dom_def)
    ultimately show ?thesis using assms(2) by (simp add: touches_def)
  qed
  moreover have "within (node_capabilities n) caps" if "nodes s1 q = None" "nodes s3 q = Some n" for q n
  proof (cases "nodes s2 q")
    case None
    with that assms(2) show ?thesis by (simp add: touches_def)
  next
    case (Some m)
    then have "within (node_capabilities m) caps" using that assms(1) by (simp add: touches_def)
    moreover have "q \<in> dom (nodes s2) - P" using Some that(1) assms(3) by auto
    then have "nodes s3 q = nodes s2 q" using assms(2) by (simp add: touches_def)
    ultimately show ?thesis using Some that by simp
  qed
  ultimately show ?thesis using assms(1,2) by (simp add: touches_def)
qed

lemma touches_mono: "touches P caps s s' \<Longrightarrow> P \<subseteq> Q \<Longrightarrow> touches Q caps s s'"
  by (auto simp: touches_def)

section \<open>Trees of nodes\<close>

lemma fd_tree_cong:
  assumes "tree_ok (fd_of h) (fd_carrier h) t"
    and "\<And>x. x \<in> set_tree_node t \<Longrightarrow> map_option node_fd (h' x) = map_option node_fd (h x)"
  shows "tree_ok (fd_of h') (fd_carrier h') t" "tree_map (fd_of h') t = tree_map (fd_of h) t"
proof -
  have same: "fd_of h' x = fd_of h x \<and> x \<in> fd_carrier h'" if "x \<in> set_tree_node t" for x
  proof -
    from tree_ok_carrier [OF assms(1) that] obtain n where n: "h x = Some n" "0 \<le> node_fd n"
      "node_fd n < FD_SETSIZE" by (auto simp: fd_carrier_def)
    moreover have "map_option node_fd (h' x) = map_option node_fd (h x)" by (rule assms(2) [OF that])
    ultimately obtain m where "h' x = Some m" "node_fd m = node_fd n" by auto
    with n show ?thesis by (simp add: fd_of_def fd_carrier_def)
  qed
  show "tree_ok (fd_of h') (fd_carrier h') t" by (rule tree_ok_cong [OF assms(1)]) (rule same)
  show "tree_map (fd_of h') t = tree_map (fd_of h) t" by (rule tree_map_cong) (use same in blast)
qed

lemma net_ok_node: "net_ok s \<Longrightarrow> nodes s p = Some n \<Longrightarrow> node_ok n"
  by (simp add: net_ok_def)

lemma node_fd_inj:
  assumes "net_ok s" "nodes s p = Some n" "nodes s q = Some m" "node_fd n = node_fd m"
  shows "p = q"
proof -
  have ok: "tree_ok (fd_of (nodes s)) (fd_carrier (nodes s)) (snodes s)"
    and set: "set_tree_node (snodes s) = dom (nodes s)" using assms(1) by (auto simp: net_ok_def)
  have "tree_map (fd_of (nodes s)) (snodes s) (node_fd n) = Some p"
    "tree_map (fd_of (nodes s)) (snodes s) (node_fd n) = Some q"
    unfolding tree_ok_map [OF ok] set using assms(2-4) by (auto simp: fd_of_def)
  then show ?thesis by simp
qed

lemma socket_switch_find_ok:
  assumes "net_ok s" "0 \<le> fd" "fd < FD_SETSIZE"
  shows "socket_switch_find fd s = Inr (tree_map (fd_of (nodes s)) (snodes s) fd)"
proof -
  define h where "h = (nodes s)(key_frame \<mapsto> Endpoint_node fd 0)"
  have ok: "tree_ok (fd_of (nodes s)) (fd_carrier (nodes s)) (snodes s)"
    and set: "set_tree_node (snodes s) = dom (nodes s)" and frame: "nodes s key_frame = None"
    using assms(1) by (auto simp: net_ok_def)
  have "map_option node_fd (h x) = map_option node_fd (nodes s x)" if "x \<in> set_tree_node (snodes s)" for x
    using that set frame by (auto simp: h_def)
  from fd_tree_cong [OF ok this] have okh: "tree_ok (fd_of h) (fd_carrier h) (snodes s)"
    and map: "tree_map (fd_of h) (snodes s) = tree_map (fd_of (nodes s)) (snodes s)" by auto
  have key: "key_frame \<in> fd_carrier h" "fd_of h key_frame = fd"
    using assms(2,3) by (simp_all add: h_def fd_carrier_def fd_of_def)
  have "ordered_by (fd_of h) (fd_carrier h) (snodes s)" using okh by (simp add: tree_ok_def)
  from switched.tree_find_lookup [OF this key(1)] show ?thesis
    by (simp add: socket_switch_find_def key(2) map flip: h_def)
qed

lemma socket_switch_find_node:
  assumes "net_ok s" "fd \<in> activeset s"
  shows "\<exists>p n. socket_switch_find fd s = Inr (Some p) \<and> nodes s p = Some n \<and> node_fd n = fd"
proof -
  from assms obtain p n where p: "nodes s p = Some n" "node_fd n = fd"
    by (auto simp: net_ok_def fd_of_def)
  then have "0 \<le> fd" "fd < FD_SETSIZE" using net_ok_node [OF assms(1)] by (auto simp: node_ok_def)
  moreover have ok: "tree_ok (fd_of (nodes s)) (fd_carrier (nodes s)) (snodes s)"
    and set: "set_tree_node (snodes s) = dom (nodes s)" using assms(1) by (auto simp: net_ok_def)
  have "tree_map (fd_of (nodes s)) (snodes s) fd = Some p"
    unfolding tree_ok_map [OF ok] set using p by (auto simp: fd_of_def)
  ultimately show ?thesis using socket_switch_find_ok [OF assms(1)] p by simp
qed

section \<open>Inserting and removing a node\<close>

lemma socket_switch_insert_ok:
  assumes "net_ok s" "nodes s p = None" "p \<noteq> key_frame" "node_ok n" "node_fd n \<notin> activeset s"
    and s1: "nodes s1 = (nodes s)(p \<mapsto> n)" "snodes s1 = snodes s" "activeset s1 = activeset s"
      "insert (node_fd n) (activeset s) \<subseteq> open_fds s1" "set (new_fds s1) \<subseteq> set (new_fds s)"
  shows "\<exists>root. socket_switch_insert p s1
      = Inr (s1\<lparr>activeset := insert (node_fd n) (activeset s1), snodes := root\<rparr>)
    \<and> net_ok (s1\<lparr>activeset := insert (node_fd n) (activeset s1), snodes := root\<rparr>)"
proof -
  have ok: "tree_ok (fd_of (nodes s)) (fd_carrier (nodes s)) (snodes s)"
    and set: "set_tree_node (snodes s) = dom (nodes s)"
    and active: "activeset s = fd_of (nodes s) ` dom (nodes s)" using assms(1) by (auto simp: net_ok_def)
  have "map_option node_fd (nodes s1 x) = map_option node_fd (nodes s x)"
    if "x \<in> set_tree_node (snodes s)" for x using that set assms(2) by (auto simp: s1(1))
  from fd_tree_cong(1) [OF ok this]
  have ok1: "tree_ok (fd_of (nodes s1)) (fd_carrier (nodes s1)) (snodes s)" .
  have fd: "fd_of (nodes s1) p = node_fd n" by (simp add: s1(1) fd_of_def)
  have same: "fd_of (nodes s1) x = fd_of (nodes s) x" if "x \<in> dom (nodes s)" for x
    using that assms(2) by (auto simp: s1(1) fd_of_def)
  have p: "p \<in> fd_carrier (nodes s1)"
    using assms(4) by (simp add: s1(1) fd_carrier_def node_ok_def)
  have "tree_map (fd_of (nodes s1)) (snodes s) (node_fd n) \<noteq> Some x" for x
  proof
    assume "tree_map (fd_of (nodes s1)) (snodes s) (node_fd n) = Some x"
    then have "x \<in> dom (nodes s)" "fd_of (nodes s1) x = node_fd n"
      unfolding tree_ok_map [OF ok1] set by auto
    then have "node_fd n \<in> activeset s" using same active by (metis image_eqI)
    with assms(5) show False by simp
  qed
  then have "tree_map (fd_of (nodes s1)) (snodes s) (fd_of (nodes s1) p) = None"
    unfolding fd by (cases "tree_map (fd_of (nodes s1)) (snodes s) (node_fd n)") auto
  from switched.tree_insert_fresh [OF ok1 p this] obtain root where
    root: "tree_insert (socket_nodes_compare (nodes s1)) (snodes s) p = Inr root"
      "tree_ok (fd_of (nodes s1)) (fd_carrier (nodes s1)) root"
      "set_tree_node root = insert p (set_tree_node (snodes s))" by blast
  define s2 where "s2 = s1\<lparr>activeset := insert (node_fd n) (activeset s1), snodes := root\<rparr>"
  have "socket_switch_insert p s1 = Inr s2"
    using assms(4) root(1) s1(1,2) by (simp add: socket_switch_insert_def FD_SET_def node_ok_def s2_def)
  moreover have "net_ok s2" unfolding net_ok_def
  proof (intro conjI)
    show "tree_ok (fd_of (nodes s2)) (fd_carrier (nodes s2)) (snodes s2)"
      using root(2) by (simp add: s2_def)
    show "set_tree_node (snodes s2) = dom (nodes s2)"
      using root(3) set by (simp add: s2_def s1(1))
    show "nodes s2 key_frame = None" using assms(1,3) by (simp add: s2_def s1(1) net_ok_def)
    show "\<forall>q m. nodes s2 q = Some m \<longrightarrow> node_ok m"
      using assms(4) net_ok_node [OF assms(1)] by (auto simp: s2_def s1(1))
    have "fd_of (nodes s1) ` dom (nodes s) = fd_of (nodes s) ` dom (nodes s)"
      by (rule image_cong [OF refl]) (rule same)
    then show "activeset s2 = fd_of (nodes s2) ` dom (nodes s2)"
      using active fd by (simp add: s2_def s1(1,3))
    show "activeset s2 \<subseteq> open_fds s2" using s1(3,4) by (simp add: s2_def)
    show "\<forall>fd \<in> set (new_fds s2). fd < FD_SETSIZE"
      using assms(1) s1(5) by (auto simp: s2_def net_ok_def)
  qed
  ultimately show ?thesis unfolding s2_def by blast
qed

text \<open>Taking a node out of the switch, and out of the memory with its descriptor closed.\<close>

lemma net_ok_remove:
  assumes "net_ok s" "nodes s p = Some n"
    and tree: "tree_ok (fd_of (nodes s)) (fd_carrier (nodes s)) root"
      "set_tree_node root = dom (nodes s) - {p}"
    and s1: "nodes s1 = (nodes s)(p := None)" "snodes s1 = root"
      "activeset s1 = activeset s - {node_fd n}" "open_fds s1 = open_fds s - {node_fd n}"
      "new_fds s1 = new_fds s"
  shows "net_ok s1"
  unfolding net_ok_def
proof (intro conjI)
  have "map_option node_fd (nodes s1 x) = map_option node_fd (nodes s x)" if "x \<in> set_tree_node root" for x
    using that tree(2) by (auto simp: s1(1))
  from fd_tree_cong(1) [OF tree(1) this]
  show "tree_ok (fd_of (nodes s1)) (fd_carrier (nodes s1)) (snodes s1)" by (simp add: s1(2))
  show "set_tree_node (snodes s1) = dom (nodes s1)" by (simp add: s1(1,2) tree(2))
  show "nodes s1 key_frame = None" using assms(1) by (simp add: s1(1) net_ok_def)
  show "\<forall>q m. nodes s1 q = Some m \<longrightarrow> node_ok m"
    using net_ok_node [OF assms(1)] by (auto simp: s1(1) split: if_splits)
  have active: "activeset s = fd_of (nodes s) ` dom (nodes s)" using assms(1) by (simp add: net_ok_def)
  have "fd_of (nodes s1) ` dom (nodes s1) = fd_of (nodes s) ` (dom (nodes s) - {p})"
    by (rule image_cong) (auto simp: s1(1) fd_of_def)
  also have "\<dots> = activeset s - {node_fd n}"
  proof (rule set_eqI, rule iffI)
    fix fd assume "fd \<in> fd_of (nodes s) ` (dom (nodes s) - {p})"
    then obtain q where "q \<in> dom (nodes s)" and qp: "q \<noteq> p" "fd = fd_of (nodes s) q" by blast
    then obtain m where "nodes s q = Some m" "q \<noteq> p" "fd = node_fd m" by (auto simp: fd_of_def)
    then have "node_fd m \<noteq> node_fd n" using node_fd_inj [OF assms(1) _ assms(2), of q m] by auto
    moreover have "fd \<in> activeset s"
      unfolding active using \<open>nodes s q = Some m\<close> \<open>fd = node_fd m\<close> by (auto simp: fd_of_def intro!: image_eqI [of _ _ q])
    ultimately show "fd \<in> activeset s - {node_fd n}" using \<open>fd = node_fd m\<close> by simp
  next
    fix fd assume "fd \<in> activeset s - {node_fd n}"
    then obtain q where "q \<in> dom (nodes s)" "fd = fd_of (nodes s) q" "fd \<noteq> node_fd n"
      using active by auto
    then show "fd \<in> fd_of (nodes s) ` (dom (nodes s) - {p})"
      using assms(2) by (auto simp: fd_of_def)
  qed
  finally show "activeset s1 = fd_of (nodes s1) ` dom (nodes s1)" by (simp add: s1(3))
  have "activeset s \<subseteq> open_fds s" using assms(1) unfolding net_ok_def by blast
  then show "activeset s1 \<subseteq> open_fds s1" unfolding s1(3,4) by blast
  show "\<forall>fd \<in> set (new_fds s1). fd < FD_SETSIZE" using assms(1) by (simp add: s1(5) net_ok_def)
qed

lemma destroy_element:
  assumes "nodes s p = Some n"
  shows "\<exists>fs. socket_switch_destroy_element p s = Inr (s\<lparr>files := fs,
      open_fds := open_fds s - {node_fd n}, bound := (bound s)(node_fd n := None),
      nodes := (nodes s)(p := None)\<rparr>)"
proof (cases n)
  case (Connection_node fd parser)
  then show ?thesis using assms
    by (intro exI [of _ "files s"])
      (simp add: socket_switch_destroy_element_def socket_connection_node_destroy_def close_fd_def)
next
  case (Endpoint_node fd caps)
  then show ?thesis using assms
    by (cases "bound s fd")
      (auto simp: socket_switch_destroy_element_def socket_endpoint_node_destroy_def close_fd_def
        unlink_def intro: exI [of _ "files s"])
qed

lemma socket_switch_remove_ok:
  assumes "net_ok s" "nodes s p = Some n"
  shows "\<exists>s'. socket_switch_remove p s = Inr s' \<and> net_ok s' \<and> same_control s s'
    \<and> touches {p} caps s s' \<and> nodes s' p = None"
proof -
  have ok: "tree_ok (fd_of (nodes s)) (fd_carrier (nodes s)) (snodes s)"
    and set: "set_tree_node (snodes s) = dom (nodes s)" using assms(1) by (auto simp: net_ok_def)
  have n: "node_ok n" by (rule net_ok_node [OF assms])
  then have p: "p \<in> fd_carrier (nodes s)" using assms(2) by (simp add: fd_carrier_def node_ok_def)
  have found: "tree_map (fd_of (nodes s)) (snodes s) (fd_of (nodes s) p) = Some p"
    unfolding tree_ok_map [OF ok] set using assms(2) by auto
  from switched.tree_remove_lookup [OF ok p] found obtain root where
    root: "tree_remove (socket_nodes_compare (nodes s)) (snodes s) p = Inr (root, Some p)"
      "tree_ok (fd_of (nodes s)) (fd_carrier (nodes s)) root"
      "tree_map (fd_of (nodes s)) root = (tree_map (fd_of (nodes s)) (snodes s))(fd_of (nodes s) p := None)"
    by auto
  have "x \<in> set_tree_node root \<longleftrightarrow> x \<in> dom (nodes s) \<and> x \<noteq> p" for x
  proof -
    have "x \<in> set_tree_node root \<longleftrightarrow> tree_map (fd_of (nodes s)) root (fd_of (nodes s) x) = Some x"
      by (simp add: tree_ok_map [OF root(2)])
    also have "\<dots> \<longleftrightarrow> x \<in> dom (nodes s) \<and> fd_of (nodes s) x \<noteq> fd_of (nodes s) p"
      unfolding root(3) using tree_ok_map [OF ok, of "fd_of (nodes s) x" x] set by simp
    also have "\<dots> \<longleftrightarrow> x \<in> dom (nodes s) \<and> x \<noteq> p"
      using node_fd_inj [OF assms(1) _ assms(2), of x] assms(2) by (auto simp: fd_of_def)
    finally show ?thesis .
  qed
  then have set': "set_tree_node root = dom (nodes s) - {p}" by auto
  define s1 where "s1 = s\<lparr>snodes := root, activeset := activeset s - {node_fd n}\<rparr>"
  have "nodes s1 p = Some n" using assms(2) by (simp add: s1_def)
  from destroy_element [OF this] obtain fs where
    d: "socket_switch_destroy_element p s1 = Inr (s1\<lparr>files := fs,
      open_fds := open_fds s1 - {node_fd n}, bound := (bound s1)(node_fd n := None),
      nodes := (nodes s1)(p := None)\<rparr>)" by blast
  define s2 where "s2 = s1\<lparr>files := fs, open_fds := open_fds s1 - {node_fd n},
    bound := (bound s1)(node_fd n := None), nodes := (nodes s1)(p := None)\<rparr>"
  have "socket_switch_remove p s = Inr s2"
    using root(1) assms(2) d n
    by (simp add: socket_switch_remove_def FD_CLR_def node_ok_def s1_def s2_def)
  moreover have "net_ok s2"
    by (rule net_ok_remove [OF assms root(2) set']) (simp_all add: s2_def s1_def)
  moreover have "same_control s s2" by (simp add: same_control_def control.defs s2_def s1_def)
  moreover have "touches {p} caps s s2" using assms(2) by (auto simp: touches_def s2_def s1_def)
  moreover have "nodes s2 p = None" by (simp add: s2_def)
  ultimately show ?thesis by blast
qed

end
