(* ===== verification/Net_Operations.thy ===== *)
theory Net_Operations
  imports Net_Invariant
begin

unbundle bit_operations_syntax

text \<open>
  The operations of the socket switch keep its invariant: new endpoints and connections, the
  parser and the loop over the ready descriptors.
\<close>

section \<open>What the kernel's calls change\<close>

text \<open>
  \<open>quiet_net\<close>: the nodes, the tree and the sets are the same, and every active descriptor is
  still open.
\<close>

definition quiet_net :: "'z net_scheme \<Rightarrow> 'z net_scheme \<Rightarrow> bool" where
  "quiet_net s s' \<longleftrightarrow> control.truncate s' = control.truncate s
     \<and> nodes s' = nodes s \<and> snodes s' = snodes s \<and> activeset s' = activeset s
     \<and> readset s' = readset s \<and> socket_endpoints_path s' = socket_endpoints_path s
     \<and> activeset s' \<subseteq> open_fds s' \<and> set (new_fds s') \<subseteq> set (new_fds s)"

lemma quiet_net_trans: "quiet_net s1 s2 \<Longrightarrow> quiet_net s2 s3 \<Longrightarrow> quiet_net s1 s3"
  by (auto simp: quiet_net_def)

lemma net_ok_open:
  assumes "net_ok s"
  shows "activeset s \<subseteq> open_fds s" "fd \<in> set (new_fds s) \<Longrightarrow> fd < FD_SETSIZE"
    "fd \<in> activeset s \<Longrightarrow> fd \<in> open_fds s"
  using assms unfolding net_ok_def by blast+

lemma quiet_net_ok:
  assumes "net_ok s" "quiet_net s s'"
  shows "net_ok s'" "same_control s s'" "touches P caps s s'"
proof -
  note q = assms(2) [unfolded quiet_net_def]
  show "net_ok s'" unfolding net_ok_def
  proof (intro conjI)
    show "activeset s' \<subseteq> open_fds s'" using q by blast
    show "\<forall>fd \<in> set (new_fds s'). fd < FD_SETSIZE" using q net_ok_open(2) [OF assms(1)] by blast
  qed (use q assms(1) in \<open>simp_all add: net_ok_def\<close>)
  show "same_control s s'" "touches P caps s s'" using q by (simp_all add: same_control_def touches_def)
qed

lemma node_malloc_quiet:
  assumes "net_ok s"
  shows "quiet_net s (snd (node_malloc s))" "open_fds (snd (node_malloc s)) = open_fds s"
    "fst (node_malloc s) = Some p \<Longrightarrow> nodes s p = None \<and> p \<noteq> key_frame"
  using net_ok_open(1) [OF assms]
  by (simp_all add: node_malloc_def quiet_net_def control.defs split: list.splits if_splits)

lemma new_fd_quiet:
  assumes "net_ok s" "new_fd s = (fd, s')"
  shows "quiet_net s s'"
    and "\<not> fd < 0 \<Longrightarrow> fd < FD_SETSIZE \<and> fd \<notin> open_fds s \<and> open_fds s' = insert fd (open_fds s)"
proof -
  note o = net_ok_open(1) [OF assms(1)]
  have s': "\<exists>fds x. s' = s\<lparr>new_fds := fds, open_fds := x\<rparr> \<and> set fds \<subseteq> set (new_fds s)
      \<and> open_fds s \<subseteq> x \<and> (\<not> fd < 0 \<longrightarrow> fd \<in> set (new_fds s) \<and> fd \<notin> open_fds s \<and> x = insert fd (open_fds s))"
  proof (cases "new_fds s")
    case Nil
    then show ?thesis using assms(2)
      by (intro exI [of _ "[]"] exI [of _ "open_fds s"]) (auto simp: new_fd_def)
  next
    case (Cons f rest)
    show ?thesis
    proof (cases "0 \<le> f \<and> f < 2 ^ 31 \<and> f \<notin> open_fds s")
      case True
      then show ?thesis using assms(2) Cons
        by (intro exI [of _ rest] exI [of _ "insert f (open_fds s)"]) (auto simp: new_fd_def)
    next
      case False
      then have "new_fd s = (- 1, s\<lparr>new_fds := rest\<rparr>)" using Cons unfolding new_fd_def by auto
      then show ?thesis using assms(2) Cons
        by (intro exI [of _ rest] exI [of _ "open_fds s"]) auto
    qed
  qed
  then obtain fds x where x: "s' = s\<lparr>new_fds := fds, open_fds := x\<rparr>" "set fds \<subseteq> set (new_fds s)"
    "open_fds s \<subseteq> x" by blast
  then show "quiet_net s s'" using subset_trans [OF o x(3)] by (simp add: quiet_net_def control.defs)
  from s' show "\<not> fd < 0 \<Longrightarrow>
      fd < FD_SETSIZE \<and> fd \<notin> open_fds s \<and> open_fds s' = insert fd (open_fds s)"
    using net_ok_open(2) [OF assms(1)] by auto
qed

lemma succeeds_quiet:
  assumes "net_ok s"
  shows "quiet_net s (snd (succeeds s))" "open_fds (snd (succeeds s)) = open_fds s"
  using net_ok_open(1) [OF assms]
  by (simp_all add: succeeds_def quiet_net_def control.defs split: list.splits)

lemma bind_fd_quiet:
  assumes "net_ok s"
  shows "quiet_net s (snd (bind_fd fd path s))" "open_fds (snd (bind_fd fd path s)) = open_fds s"
  using net_ok_open(1) [OF assms]
  by (cases "answers s"; simp add: bind_fd_def succeeds_def quiet_net_def control.defs)+

lemma close_fd_quiet:
  assumes "net_ok s" "fd \<notin> activeset s"
  shows "quiet_net s (close_fd fd s)"
  using net_ok_open(1) [OF assms(1)] assms(2) by (auto simp: close_fd_def quiet_net_def control.defs)

lemma unlink_quiet:
  assumes "net_ok s"
  shows "quiet_net s (unlink path s)"
  using net_ok_open(1) [OF assms] by (simp add: unlink_def quiet_net_def control.defs)

section \<open>New nodes\<close>

lemma insert_new:
  assumes "net_ok s" "quiet_net s s1" "nodes s p = None" "p \<noteq> key_frame" "node_ok n"
    "node_fd n \<notin> activeset s" "node_fd n \<in> open_fds s1" "within (node_capabilities n) caps"
  shows "\<exists>s'. socket_switch_insert p (s1\<lparr>nodes := (nodes s1)(p \<mapsto> n)\<rparr>) = Inr s' \<and> net_ok s'
    \<and> same_control s s' \<and> touches {} caps s s'"
proof -
  define s2 where "s2 = s1\<lparr>nodes := (nodes s1)(p \<mapsto> n)\<rparr>"
  have s2: "nodes s2 = (nodes s)(p \<mapsto> n)" "snodes s2 = snodes s" "activeset s2 = activeset s"
    "insert (node_fd n) (activeset s) \<subseteq> open_fds s2" "set (new_fds s2) \<subseteq> set (new_fds s)"
    using assms(2,7) by (auto simp: s2_def quiet_net_def)
  from socket_switch_insert_ok [OF assms(1,3-6) s2] obtain root where
    r: "socket_switch_insert p s2
        = Inr (s2\<lparr>activeset := insert (node_fd n) (activeset s2), snodes := root\<rparr>)"
      "net_ok (s2\<lparr>activeset := insert (node_fd n) (activeset s2), snodes := root\<rparr>)" by blast
  define s' where "s' = s2\<lparr>activeset := insert (node_fd n) (activeset s2), snodes := root\<rparr>"
  have "control.truncate s1 = control.truncate s" "readset s1 = readset s"
    "socket_endpoints_path s1 = socket_endpoints_path s" "nodes s1 = nodes s"
    using assms(2) by (auto simp: quiet_net_def)
  then have "same_control s s'" "touches {} caps s s'"
    using assms(3,8) by (auto simp: same_control_def touches_def s'_def s2_def control.defs)
  with r show ?thesis unfolding s'_def s2_def by blast
qed

definition new_node :: "node_ptr option \<Rightarrow> socket_node \<Rightarrow> 'z net_scheme \<Rightarrow> 'z net_scheme \<Rightarrow> bool" where
  "new_node r n s s' \<longleftrightarrow>
     (case r of
        None \<Rightarrow> quiet_net s s'
      | Some p \<Rightarrow> nodes s p = None \<and> p \<noteq> key_frame \<and> node_fd n \<notin> activeset s
          \<and> (\<exists>s1. quiet_net s s1 \<and> node_fd n \<in> open_fds s1 \<and> s' = s1\<lparr>nodes := (nodes s1)(p \<mapsto> n)\<rparr>))"

lemma socket_connection_node_create_new:
  assumes "net_ok s" "fd \<notin> activeset s" "fd \<in> open_fds s"
  shows "\<exists>r s'. socket_connection_node_create fd caps s = (r, s') \<and> open_fds s' = open_fds s
    \<and> new_node r (Connection_node fd \<lparr>capabilities = caps, parser_state = PARSER_STATE_COMMAND\<rparr>) s s'"
proof -
  obtain r s1 where m: "node_malloc s = (r, s1)" by fastforce
  have q: "quiet_net s s1" "open_fds s1 = open_fds s"
    using node_malloc_quiet(1,2) [OF assms(1)] m by simp_all
  have fresh: "nodes s p = None \<and> p \<noteq> key_frame" if "r = Some p" for p
    using node_malloc_quiet(3) [OF assms(1)] m that by simp
  show ?thesis
    using m q fresh assms(2,3)
    by (cases r) (auto simp: socket_connection_node_create_def new_node_def)
qed

lemma socket_endpoint_node_create_new:
  assumes "net_ok s"
  shows "\<exists>r s' fd. socket_endpoint_node_create name caps s = (r, s')
    \<and> (r \<noteq> None \<longrightarrow> 0 \<le> fd \<and> fd < FD_SETSIZE) \<and> new_node r (Endpoint_node fd caps) s s'"
proof -
  obtain r s1 where m: "node_malloc s = (r, s1)" by fastforce
  have q1: "quiet_net s s1" "open_fds s1 = open_fds s"
    using node_malloc_quiet(1,2) [OF assms(1)] m by simp_all
  have fresh: "nodes s p = None \<and> p \<noteq> key_frame" if "r = Some p" for p
    using node_malloc_quiet(3) [OF assms(1)] m that by simp
  show ?thesis
  proof (cases r)
    case None
    then show ?thesis using m q1 by (simp add: socket_endpoint_node_create_def new_node_def)
  next
    case (Some p)
    obtain fd s2 where f: "new_fd s1 = (fd, s2)" by fastforce
    note ok1 = quiet_net_ok(1) [OF assms q1(1)]
    note q2 = quiet_net_trans [OF q1(1) new_fd_quiet(1) [OF ok1 f]]
    show ?thesis
    proof (cases "fd < 0")
      case True
      then show ?thesis using m Some f q2
        by (simp add: socket_endpoint_node_create_def new_node_def)
    next
      case False
      from new_fd_quiet(2) [OF ok1 f False]
      have fd: "0 \<le> fd" "fd < FD_SETSIZE" "fd \<notin> open_fds s" "fd \<in> open_fds s2"
        using q1(2) False by auto
      then have idle: "fd \<notin> activeset s" using net_ok_open(3) [OF assms] by blast
      have closed: "quiet_net s (close_fd fd s3)" if "quiet_net s s3" for s3
        using that idle quiet_net_ok(1) [OF assms that]
        by (intro quiet_net_trans [OF that close_fd_quiet]) (auto simp: quiet_net_def)
      have unlinked: "quiet_net s (unlink path s3)" if "quiet_net s s3" for s3 path
        by (rule quiet_net_trans [OF that unlink_quiet [OF quiet_net_ok(1) [OF assms that]]])
      define path where "path = socket_endpoints_path s2 @ ''/'' @ name"
      obtain b s3 where b: "bind_fd fd path s2 = (b, s3)" by fastforce
      note ok2 = quiet_net_ok(1) [OF assms q2]
      have q3: "quiet_net s s3" "open_fds s3 = open_fds s2"
        using quiet_net_trans [OF q2 bind_fd_quiet(1) [OF ok2]] bind_fd_quiet(2) [OF ok2] b
        by (metis snd_conv)+
      obtain l s4 where l: "succeeds s3 = (l, s4)" by fastforce
      note ok3 = quiet_net_ok(1) [OF assms q3(1)]
      have q4: "quiet_net s s4" "open_fds s4 = open_fds s3"
        using quiet_net_trans [OF q3(1) succeeds_quiet(1) [OF ok3]] succeeds_quiet(2) [OF ok3] l
        by (metis snd_conv)+
      define res where "res = (if SOCKADDR_UN_MAXLEN \<le> length path then (None, close_fd fd s2)
        else if \<not> b then (None, close_fd fd (unlink path s3))
        else if \<not> l then (None, close_fd fd (unlink path s4))
        else (Some p, s4\<lparr>nodes := (nodes s4)(p \<mapsto> Endpoint_node fd caps)\<rparr>))"
      have run: "socket_endpoint_node_create name caps s = res"
        using m Some f False b l by (simp add: socket_endpoint_node_create_def path_def res_def)
      have "new_node (fst res) (Endpoint_node fd caps) s (snd res)"
        using closed unlinked q2 q3 q4 fd idle fresh [OF Some]
        by (auto simp: res_def new_node_def)
      with run fd(1,2) show ?thesis by (metis prod.collapse)
    qed
  qed
qed

lemma create_endpoint_ok:
  assumes "net_ok s" "within caps CAPSET_ALL"
  shows "\<exists>s'. create_endpoint name caps s = Inr s' \<and> net_ok s' \<and> same_control s s'
    \<and> touches {} caps s s'"
proof -
  from socket_endpoint_node_create_new [OF assms(1)] obtain r s1 fd where
    r: "socket_endpoint_node_create name caps s = (r, s1)" "r \<noteq> None \<longrightarrow> 0 \<le> fd \<and> fd < FD_SETSIZE"
      "new_node r (Endpoint_node fd caps) s s1" by blast
  show ?thesis
  proof (cases r)
    case None
    then have "quiet_net s s1" using r(3) by (simp add: new_node_def)
    from quiet_net_ok [OF assms(1) this] r(1) None show ?thesis by (auto simp: create_endpoint_def)
  next
    case (Some p)
    then obtain s0 where s0: "quiet_net s s0" "nodes s p = None" "p \<noteq> key_frame"
      "fd \<notin> activeset s" "fd \<in> open_fds s0" "s1 = s0\<lparr>nodes := (nodes s0)(p \<mapsto> Endpoint_node fd caps)\<rparr>"
      using r(3) by (auto simp: new_node_def)
    have "node_ok (Endpoint_node fd caps)" using r(2) Some assms(2) by (simp add: node_ok_def)
    from insert_new [OF assms(1) s0(1-3) this] s0(4-6) r(1) Some
    show ?thesis by (auto simp: create_endpoint_def node_capabilities_def)
  qed
qed

end
