(* ===== verification/Parser_Invariant.thy ===== *)
theory Parser_Invariant
  imports Net_Operations
begin

unbundle bit_operations_syntax

text \<open>
  What a connection can do: the parser of its messages keeps the invariants of the whole program,
  and its effects stay within the capabilities of the connection. The only faults are the reads
  beyond the buffer and the shifts of large commands.
\<close>

section \<open>Names\<close>

lemma memchr_None:
  "memchr buf i c n = Inr None \<Longrightarrow> c \<notin> set (take n (drop i buf)) \<and> (n \<noteq> 0 \<longrightarrow> i + n \<le> length buf)"
proof (induction buf i c n rule: memchr.induct)
  case (2 buf i c n)
  then have i: "i < length buf" "buf ! i \<noteq> c" "memchr buf (i + 1) c n = Inr None"
    by (auto simp: result_iff split: if_splits)
  then have "drop i buf = buf ! i # drop (i + 1) buf" by (simp add: Cons_nth_drop_Suc)
  moreover have "c \<notin> set (take n (drop (i + 1) buf)) \<and> (n \<noteq> 0 \<longrightarrow> i + 1 + n \<le> length buf)"
    by (rule "2.IH" [OF _ i(2,3)]) (simp add: buf_read_def i(1))
  ultimately show ?case using i by (cases n) auto
qed simp

lemma memchr_first:
  "memchr buf i c n = Inr (Some j) \<Longrightarrow>
     i \<le> j \<and> j < length buf \<and> j < i + n \<and> c \<notin> set (take (j - i) (drop i buf)) \<and> buf ! j = c"
proof (induction buf i c n rule: memchr.induct)
  case (2 buf i c n)
  then have i: "i < length buf" by (auto simp: result_iff)
  show ?case
  proof (cases "buf ! i = c")
    case True
    with 2 i show ?thesis by (auto simp: result_iff)
  next
    case False
    with 2 i have j: "memchr buf (i + 1) c n = Inr (Some j)" by (auto simp: result_iff)
    with 2 False have IH: "i + 1 \<le> j" "j < length buf" "j < i + 1 + n"
      "c \<notin> set (take (j - (i + 1)) (drop (i + 1) buf))" "buf ! j = c"
      using i by (auto simp: buf_read_def)
    have "drop i buf = buf ! i # drop (i + 1) buf" "j - i = Suc (j - (i + 1))"
      using i IH(1) by (simp_all add: Cons_nth_drop_Suc)
    with IH False show ?thesis by simp
  qed
qed simp

lemma memchr_fault: "memchr buf i c n = Inl e \<Longrightarrow> e = Out_of_bounds"
  by (induction buf i c n rule: memchr.induct) (auto simp: result_iff buf_read_def split: if_splits)

lemma name_fill_fault: "name_fill buf i cnt out = Inl e \<Longrightarrow> e = Out_of_bounds"
  by (auto simp: name_fill_def result_iff Let_def split: if_splits dest: memchr_fault)

lemma take_Suc_drop_last:
  "j < length xs \<Longrightarrow> i \<le> j \<Longrightarrow> take (j - i + 1) (drop i xs) = take (j - i) (drop i xs) @ [xs ! j]"
  by (simp add: take_Suc_conv_app_nth)

lemma name_fill_name:
  assumes "name_fill buf i cnt out = Inr (Some (i', cnt', out'))" "cnt \<noteq> 0" "name_ok out"
  obtains (complete) name where "out' = name @ [NUL]" "c_string name" "CHR ''/'' \<notin> set name"
      "length name \<le> NAME_MAX"
  | (partial) "out' \<noteq> []" "last out' \<noteq> NUL" "name_ok out'"
proof -
  from assms(1) obtain nul where nul: "memchr buf i NUL cnt = Inr nul" by (auto simp: name_fill_def result_iff)
  define len where "len = (case nul of Some j \<Rightarrow> j - i + 1 | None \<Rightarrow> cnt)"
  from assms(1) nul have fill: "length out + len \<le> NAME_MAX + 1" "memchr buf i (CHR ''/'') len = Inr None"
    "out' = out @ take len (drop i buf)"
    by (auto simp: name_fill_def result_iff Let_def len_def split: if_splits option.splits)
  then have slash: "CHR ''/'' \<notin> set out'" using memchr_None assms(3) by (auto simp: name_ok_def)
  show ?thesis
  proof (cases nul)
    case None
    then have "len = cnt" by (simp add: len_def)
    with None nul memchr_None [of buf i NUL cnt] assms(2)
    have part: "NUL \<notin> set (take len (drop i buf))" "i + len \<le> length buf" "len \<noteq> 0" by auto
    then have "name_ok out'" "out' \<noteq> []" using slash fill(1,3) assms(3) by (auto simp: name_ok_def)
    then show ?thesis by (intro partial) (auto simp: name_ok_def dest: last_in_set)
  next
    case (Some j)
    with nul memchr_first [of buf i NUL cnt j]
    have j: "i \<le> j" "j < length buf" "NUL \<notin> set (take (j - i) (drop i buf))" "buf ! j = NUL" by auto
    have len: "len = j - i + 1" using Some by (simp add: len_def)
    have out': "out' = (out @ take (j - i) (drop i buf)) @ [NUL]"
      using fill(3) len take_Suc_drop_last [OF j(2,1)] j(4) by simp
    have "length (out @ take (j - i) (drop i buf)) \<le> NAME_MAX" using fill(1) len j(1,2) by simp
    then show ?thesis using j(3) slash assms(3) out'
      by (intro complete [OF out']) (auto simp: c_string_def name_ok_def)
  qed
qed

lemma buf_string_name: "c_string name \<Longrightarrow> buf_string (name @ [NUL]) 0 = Inr name"
  using buf_string_NUL [of 0 "name @ [NUL]" name "[]"] by simp

section \<open>What the capabilities allow\<close>

text \<open>The values a connection can have queued for the reboot.\<close>

definition system_values :: "capset \<Rightarrow> int set" where
  "system_values caps =
     (if CAPSET_HAS caps CAPABILITY_SYSTEM_POWEROFF then {RB_POWER_OFF} else {})
     \<union> (if CAPSET_HAS caps CAPABILITY_SYSTEM_HALT then {RB_HALT_SYSTEM} else {})
     \<union> (if CAPSET_HAS caps CAPABILITY_SYSTEM_REBOOT then {RB_AUTOBOOT} else {})
     \<union> (if CAPSET_HAS caps CAPABILITY_SYSTEM_SUSPEND then {RB_SW_SUSPEND} else {})"

text \<open>What is sent goes to children, and only a connection with one of the three rights sends.\<close>

definition sends :: "capset \<Rightarrow> 'z procs_scheme \<Rightarrow> 'z procs_scheme \<Rightarrow> bool" where
  "sends caps s s' \<longleftrightarrow> set (children s) \<subseteq> set (children s')
     \<and> (\<not> CAPSET_HAS caps CAPABILITY_DAEMON_START \<longrightarrow> children s' = children s)
     \<and> (\<exists>new. sent s' = sent s @ new \<and> fst ` set new \<subseteq> set (children s')
          \<and> (\<not> (CAPSET_HAS caps CAPABILITY_DAEMON_STOP \<or> CAPSET_HAS caps CAPABILITY_DAEMON_RELOAD
                \<or> CAPSET_HAS caps CAPABILITY_DAEMON_END) \<longrightarrow> new = []))"

text \<open>The daemons keep their names and configurations.\<close>

definition same_daemons :: "'z procs_scheme \<Rightarrow> 'z procs_scheme \<Rightarrow> bool" where
  "same_daemons s s' \<longleftrightarrow>
     (\<forall>p. map_option (\<lambda>d. (d_name d, d_conf d)) (heap s' p)
        = map_option (\<lambda>d. (d_name d, d_conf d)) (heap s p))"

lemma same_daemons_heap [simp]: "heap s' = heap s \<Longrightarrow> same_daemons s s'"
  by (simp add: same_daemons_def)

definition queues :: "capset \<Rightarrow> 'z control_scheme \<Rightarrow> 'z control_scheme \<Rightarrow> bool" where
  "queues caps s s' \<longleftrightarrow> pending_sigterm s' = pending_sigterm s
     \<or> pending_sigterm s = None
       \<and> (\<exists>v \<in> system_values caps. pending_sigterm s' = Some (SI_QUEUE, v))"

definition same_rest :: "'z control_scheme \<Rightarrow> 'z control_scheme \<Rightarrow> bool" where
  "same_rest s s' \<longleftrightarrow> daemons s' = daemons s \<and> configuration_path s' = configuration_path s
     \<and> sigreboot s' = sigreboot s \<and> sigchld s' = sigchld s \<and> sighup s' = sighup s
     \<and> sigalrm s' = sigalrm s \<and> procmask s' = procmask s \<and> handlers s' = handlers s"

lemma sends_trans:
  assumes "sends caps s1 s2" "sends caps s2 s3"
  shows "sends caps s1 s3"
proof -
  define quiet where "quiet \<longleftrightarrow> \<not> (CAPSET_HAS caps CAPABILITY_DAEMON_STOP
    \<or> CAPSET_HAS caps CAPABILITY_DAEMON_RELOAD \<or> CAPSET_HAS caps CAPABILITY_DAEMON_END)"
  note a = assms [unfolded sends_def, folded quiet_def]
  obtain n1 where n1: "sent s2 = sent s1 @ n1" "fst ` set n1 \<subseteq> set (children s2)" "quiet \<longrightarrow> n1 = []"
    using a(1) by blast
  obtain n2 where n2: "sent s3 = sent s2 @ n2" "fst ` set n2 \<subseteq> set (children s3)" "quiet \<longrightarrow> n2 = []"
    using a(2) by blast
  have c: "set (children s2) \<subseteq> set (children s3)" "set (children s1) \<subseteq> set (children s2)"
    using a by blast+
  have "sent s3 = sent s1 @ (n1 @ n2)" "quiet \<longrightarrow> n1 @ n2 = []" using n1 n2 by simp_all
  moreover have "fst ` set (n1 @ n2) \<subseteq> set (children s3)" using n1(2) n2(2) c by auto
  ultimately have "\<exists>new. sent s3 = sent s1 @ new \<and> fst ` set new \<subseteq> set (children s3)
    \<and> (quiet \<longrightarrow> new = [])" by blast
  moreover have "\<not> CAPSET_HAS caps CAPABILITY_DAEMON_START \<longrightarrow> children s3 = children s1" using a by simp
  ultimately show ?thesis
    unfolding sends_def quiet_def [symmetric] using subset_trans [OF c(2,1)] by blast
qed

lemma sends_same [simp]: "children s' = children s \<Longrightarrow> sent s' = sent s \<Longrightarrow> sends caps s s'"
  by (simp add: sends_def)

lemma queues_trans: "queues caps s1 s2 \<Longrightarrow> queues caps s2 s3 \<Longrightarrow> queues caps s1 s3"
  unfolding queues_def by metis

lemma queues_same [simp]: "pending_sigterm s' = pending_sigterm s \<Longrightarrow> queues caps s s'"
  by (simp add: queues_def)

text \<open>
  The effect of a connection with the capabilities \<open>caps\<close>: new endpoints only with
  capabilities of its own, and only with the right to create them; no process without the right to
  start daemons; no signal without the rights to stop, reload or end them, and then only to
  children; no reboot without the right for it. Nothing else of the program changes.
\<close>

definition allowed :: "capset \<Rightarrow> 'z net_scheme \<Rightarrow> 'z net_scheme \<Rightarrow> bool" where
  "allowed caps s s' \<longleftrightarrow> touches {} caps s s'
     \<and> (\<not> CAPSET_HAS caps CAPABILITY_ENDPOINT_CREATE \<longrightarrow> nodes s' = nodes s)
     \<and> sends caps s s' \<and> same_daemons s s' \<and> queues caps s s' \<and> same_rest s s'"

lemma allowed_refl [simp]: "allowed caps s s"
  by (simp add: allowed_def same_rest_def)

lemma allowed_trans: "allowed caps s1 s2 \<Longrightarrow> allowed caps s2 s3 \<Longrightarrow> allowed caps s1 s3"
  unfolding allowed_def same_rest_def same_daemons_def
  using touches_trans [of "{}" caps s1 s2 s3] sends_trans [of caps s1 s2 s3]
    queues_trans [of caps s1 s2 s3] by simp

section \<open>The actions of a client\<close>

lemma touches_within: "touches P c1 s s' \<Longrightarrow> within c1 c2 \<Longrightarrow> touches P c2 s s'"
  unfolding touches_def using within_trans by blast

lemma same_control_allowed:
  assumes "same_control s s'" "touches {} caps s s'"
    "\<not> CAPSET_HAS caps CAPABILITY_ENDPOINT_CREATE \<longrightarrow> nodes s' = nodes s"
  shows "allowed caps s s'"
  using assms by (simp add: allowed_def same_rest_def same_control_fields)

lemma net_rest:
  fixes s s' :: "'z net_scheme"
  assumes "procs.more s' = procs.more s"
  shows "nodes s' = nodes s" "net_ok s' = net_ok s" "touches P caps s s'" "queues caps s s'" "same_rest s s'"
  using assms by (cases s; cases s'; simp add: net_ok_def touches_def queues_def same_rest_def)+

locale client_action = daemon_action action
  for action :: "ptr \<Rightarrow> 'z net_scheme \<Rightarrow> 'z net_scheme result" +
  fixes right :: capset
  assumes action_sends: "procs_ok s \<Longrightarrow> p \<in> dom (heap s) \<Longrightarrow> action p s = Inr s' \<Longrightarrow>
    CAPSET_HAS caps right \<Longrightarrow> sends caps s s' \<and> same_daemons s s'"
begin

lemma action_allowed:
  assumes "store_ok s" "net_ok s" "p \<in> dom (heap s)" "CAPSET_HAS caps right"
  shows "\<exists>s'. action p s = Inr s' \<and> store_ok s' \<and> net_ok s' \<and> allowed caps s s'"
proof -
  have procs: "procs_ok s" using assms(1) by (simp add: reload_ok_def)
  from action_ok [OF procs assms(3)] obtain s' where
    s': "action p s = Inr s'" "procs_ok s'" "steady s s'" by blast
  have "procs.more s' = procs.more s" using s'(3) by (simp add: steady_def)
  note rest = net_rest [OF this]
  moreover from action_sends [OF procs assms(3) s'(1) assms(4)] have "sends caps s s'" "same_daemons s s'"
    by simp_all
  ultimately show ?thesis
    using store_ok_steady(1) [OF assms(1) s'(2,3)] s'(1) assms(2) by (auto simp: allowed_def)
qed

end

interpretation client_start: client_action daemon_start CAPABILITY_DAEMON_START
proof (unfold_locales, goal_cases)
  case (1 s p s' caps)
  from 1(2) obtain d where d: "heap s p = Some d" by blast
  show ?case
  proof (cases rule: daemon_start_ok [OF 1(1) d])
    case (3 s1)
    then have "s1 = s'" using 1(3) by simp
    obtain pid root fs where "s1 = s\<lparr>forks := fs, children := pid # children s,
        heap := (heap s)(p \<mapsto> d\<lparr>d_pid := pid, d_state := DAEMON_STARTED\<rparr>), spawns := root\<rparr>"
      using 3(4) unfolding spawn_done_def by blast
    then show ?thesis using 1(4) d unfolding \<open>s1 = s'\<close> by (auto simp: sends_def same_daemons_def)
  qed (use 1(3) in auto)
qed

interpretation client_stop: client_action daemon_stop CAPABILITY_DAEMON_STOP
proof (unfold_locales, goal_cases)
  case (1 s p s' caps)
  from 1(2) obtain d where d: "heap s p = Some d" by blast
  show ?case
    using 1(3,4) d spawned_pid [OF 1(1) d]
    by (cases "d_state d") (auto simp: daemon_stop_def kill_def sends_def same_daemons_def)
qed

interpretation client_reload: client_action daemon_reload CAPABILITY_DAEMON_RELOAD
proof (unfold_locales, goal_cases)
  case (1 s p s' caps)
  from 1(2) obtain d where d: "heap s p = Some d" by blast
  show ?case
    using 1(3,4) d spawned_pid [OF 1(1) d]
    by (cases "d_state d") (auto simp: daemon_reload_def kill_def sends_def)
qed

interpretation client_end: client_action daemon_end CAPABILITY_DAEMON_END
proof (unfold_locales, goal_cases)
  case (1 s p s' caps)
  from 1(2) obtain d where d: "heap s p = Some d" by blast
  show ?case
    using 1(3,4) d spawned_pid [OF 1(1) d]
    by (cases "d_state d") (auto simp: daemon_end_def kill_def sends_def)
qed

section \<open>One step of the parser\<close>

definition feeds :: "parser \<Rightarrow> 'z net_scheme \<Rightarrow> parser \<Rightarrow> 'z net_scheme \<Rightarrow> bool" where
  "feeds parser s parser' s' \<longleftrightarrow> capabilities parser' = capabilities parser \<and> parser_ok parser'
     \<and> store_ok s' \<and> net_ok s' \<and> allowed (capabilities parser) s s'"

definition step_ok :: "parser \<Rightarrow> 'z net_scheme \<Rightarrow> (parser \<times> nat \<times> nat \<times> 'z net_scheme) result \<Rightarrow> bool" where
  "step_ok parser s r \<longleftrightarrow> r = Inl Out_of_bounds \<or> r = Inl Shift_overflow
     \<or> (\<exists>parser' i' cnt' s'. r = Inr (parser', i', cnt', s') \<and> feeds parser s parser' s')"

lemma step_okI: "feeds parser s parser' s' \<Longrightarrow> step_ok parser s (Inr (parser', i', cnt', s'))"
  by (simp add: step_ok_def)

lemma feeds_state:
  assumes "parser_ok parser" "store_ok s" "net_ok s"
  shows "feeds parser s (parser\<lparr>parser_state := PARSER_STATE_INVALID\<rparr>) s"
    "feeds parser s (parser\<lparr>parser_state := PARSER_STATE_COMMAND\<rparr>) s"
    "feeds parser s parser s"
  using assms by (auto simp: feeds_def parser_ok_def)

context client_action
begin

lemma daemon_name_step_ok:
  assumes "parser_ok parser" "store_ok s" "net_ok s" "cnt \<noteq> 0" "name_ok out"
    "CAPSET_HAS (capabilities parser) right"
    and state: "\<And>out'. name_ok out' \<Longrightarrow> parser_ok (parser\<lparr>parser_state := state out'\<rparr>)"
  shows "step_ok parser s (parser_feed_daemon_name buf i cnt parser state out action s)"
proof (cases "name_fill buf i cnt out")
  case (Inl e)
  then show ?thesis using name_fill_fault [OF Inl]
    by (simp add: parser_feed_daemon_name_def step_ok_def)
next
  case (Inr filled)
  note start = feeds_state [OF assms(1-3)]
  show ?thesis
  proof (cases filled)
    case None
    with Inr start(1) show ?thesis by (simp add: parser_feed_daemon_name_def step_okI)
  next
    case (Some r)
    obtain i' cnt' out' where r: "r = (i', cnt', out')" by (cases r)
    note filled = Inr [unfolded Some r]
    show ?thesis
    proof (cases rule: name_fill_name [OF filled assms(4,5)])
      case (1 name)
      have names: "named_ok (heap s) (daemons s)" "heap s key_frame = None" "procs_ok s"
        using assms(2) by (auto simp: reload_ok_def procs_but_def)
      have find: "configuration_find name s = Inr (by_name (heap s) (daemons s) name)"
        by (rule configuration_find_lookup [OF names(1,2) 1(2)])
      show ?thesis
      proof (cases "by_name (heap s) (daemons s) name")
        case None
        then show ?thesis using filled 1 find start(2)
          by (simp add: parser_feed_daemon_name_def buf_string_name step_okI)
      next
        case (Some p)
        then have "p \<in> dom (heap s)" using by_name_iff [OF names(1)] named_ok_dom [OF names(1)] by simp
        from action_allowed [OF assms(2,3) this assms(6)] obtain s' where
          s': "action p s = Inr s'" "store_ok s'" "net_ok s'" "allowed (capabilities parser) s s'" by blast
        then have "feeds parser s (parser\<lparr>parser_state := PARSER_STATE_COMMAND\<rparr>) s'"
          using start(2) by (simp add: feeds_def)
        then show ?thesis using filled 1 find Some s'(1)
          by (simp add: parser_feed_daemon_name_def buf_string_name step_okI)
      qed
    next
      case 2
      then have "feeds parser s (parser\<lparr>parser_state := state out'\<rparr>) s"
        using start(3) state by (simp add: feeds_def)
      then show ?thesis using filled 2 by (simp add: parser_feed_daemon_name_def step_okI)
    qed
  qed
qed

end

section \<open>Commands\<close>

lemma CAPSET_HAS_bit: "CAPSET_HAS caps (push_bit n 1) \<longleftrightarrow> bit caps n" for caps :: capset
  unfolding CAPSET_HAS_def bit_iff_and_push_bit_not_eq_0 ..

lemma CAPSET_ALL_mask: "CAPSET_ALL = mask 9"
  by (simp add: CAPSET_ALL_def CAPABILITY_SYSTEM_SUSPEND_def mask_eq_exp_minus_1)

lemma capability_bound:
  assumes "within caps CAPSET_ALL" "CAPSET_HAS caps (push_bit n 1)"
  shows "n \<in> {0, 1, 2, 3, 4, 5, 6, 7, 8}"
proof -
  have "bit (caps AND mask 9) n" 
    using assms unfolding within_def CAPSET_ALL_mask CAPSET_HAS_bit by simp
  then have "n < 9" by (simp add: bit_simps)
  then show ?thesis by auto
qed

lemmas capability_defs = CAPABILITY_ENDPOINT_CREATE_def CAPABILITY_DAEMON_START_def
  CAPABILITY_DAEMON_STOP_def CAPABILITY_DAEMON_RELOAD_def CAPABILITY_DAEMON_END_def
  CAPABILITY_SYSTEM_POWEROFF_def CAPABILITY_SYSTEM_HALT_def CAPABILITY_SYSTEM_REBOOT_def
  CAPABILITY_SYSTEM_SUSPEND_def

text \<open>The command of a number, and the value of the reboot it queues if it is one of the system's.\<close>

definition command_value :: "nat \<Rightarrow> int option" where
  "command_value n = (if n = 5 then Some RB_POWER_OFF else if n = 6 then Some RB_HALT_SYSTEM
     else if n = 7 then Some RB_AUTOBOOT else if n = 8 then Some RB_SW_SUSPEND else None)"

definition command_state :: "nat \<Rightarrow> parser_state" where
  "command_state n = (if n = 0 then PARSER_STATE_ENDPOINT_CREATE_CAPABILITIES 0 0
     else if n = 1 then PARSER_STATE_DAEMON_START_NAME []
     else if n = 2 then PARSER_STATE_DAEMON_STOP_NAME []
     else if n = 3 then PARSER_STATE_DAEMON_RELOAD_NAME []
     else PARSER_STATE_DAEMON_END_NAME [])"

lemma parser_feed_command_cases:
  assumes "within (capabilities parser) CAPSET_ALL"
  shows "parser_feed_command parser (push_bit n 1) s =
    (if \<not> CAPSET_HAS (capabilities parser) (push_bit n 1)
     then Inr (parser\<lparr>parser_state := PARSER_STATE_INVALID\<rparr>, s)
     else case command_value n of
            None \<Rightarrow> Inr (parser\<lparr>parser_state := command_state n\<rparr>, s)
          | Some v \<Rightarrow> Inr (parser, sigqueue_sigterm v s))"
proof (cases "CAPSET_HAS (capabilities parser) (push_bit n 1)")
  case True
  from capability_bound [OF assms True] consider "n = 0" | "n = 1" | "n = 2" | "n = 3" | "n = 4"
    | "n = 5" | "n = 6" | "n = 7" | "n = 8" by auto
  then show ?thesis
    by cases (use True in \<open>simp_all add: parser_feed_command_def capability_defs command_value_def
      command_state_def queue_reboot_def\<close>)
qed (simp add: parser_feed_command_def)

lemma command_value_system:
  assumes "CAPSET_HAS caps (push_bit n 1)" "command_value n = Some v"
  shows "v \<in> system_values caps"
  using assms by (auto simp: command_value_def system_values_def capability_defs split: if_splits)

lemma sigqueue_allowed:
  assumes "v \<in> system_values caps"
  shows "allowed caps s (sigqueue_sigterm v s)" "net_ok (sigqueue_sigterm v s) = net_ok s"
    "store_ok (sigqueue_sigterm v s) = store_ok s"
proof -
  have "queues caps s (sigqueue_sigterm v s)"
    using assms by (auto simp: queues_def sigqueue_sigterm_def split: option.splits)
  then show "allowed caps s (sigqueue_sigterm v s)"
    by (simp add: allowed_def same_rest_def touches_def sigqueue_sigterm_def split: option.splits)
  show "net_ok (sigqueue_sigterm v s) = net_ok s" "store_ok (sigqueue_sigterm v s) = store_ok s"
    by (simp_all add: sigqueue_sigterm_def net_ok_def reload_ok_def procs_but_def split: option.splits)
qed

lemma command_step_ok:
  assumes "parser_ok parser" "store_ok s" "net_ok s"
  shows "\<exists>parser' s'. parser_feed_command parser (push_bit n 1) s = Inr (parser', s')
    \<and> feeds parser s parser' s'"
proof -
  have caps: "within (capabilities parser) CAPSET_ALL" using assms(1) by (simp add: parser_ok_def)
  note start = feeds_state [OF assms]
  show ?thesis
  proof (cases "CAPSET_HAS (capabilities parser) (push_bit n 1)")
    case False
    then show ?thesis using start(1) unfolding parser_feed_command_cases [OF caps] by auto
  next
    case True
    show ?thesis
    proof (cases "command_value n")
      case None
      have "parser_ok (parser\<lparr>parser_state := command_state n\<rparr>)"
        using capability_bound [OF caps True] True None assms(1)
        by (auto simp: parser_ok_def command_state_def command_value_def name_ok_def capability_defs)
      then have "feeds parser s (parser\<lparr>parser_state := command_state n\<rparr>) s"
        using start(3) by (simp add: feeds_def)
      then show ?thesis using True None unfolding parser_feed_command_cases [OF caps] by auto
    next
      case (Some v)
      note q = sigqueue_allowed [OF command_value_system [OF True Some], of s]
      have "feeds parser s parser (sigqueue_sigterm v s)" using start(3) q by (simp add: feeds_def)
      then show ?thesis using True Some unfolding parser_feed_command_cases [OF caps] by auto
    qed
  qed
qed

section \<open>New endpoints\<close>

lemma endpoint_name_step_ok:
  assumes "parser_ok parser" "store_ok s" "net_ok s" "cnt \<noteq> 0" "name_ok out"
    "CAPSET_HAS (capabilities parser) CAPABILITY_ENDPOINT_CREATE"
  shows "step_ok parser s (parser_feed_endpoint_create_name buf i cnt parser caps out s)"
proof (cases "name_fill buf i cnt out")
  case (Inl e)
  then show ?thesis using name_fill_fault [OF Inl]
    by (simp add: parser_feed_endpoint_create_name_def step_ok_def)
next
  case (Inr filled)
  note start = feeds_state [OF assms(1-3)]
  show ?thesis
  proof (cases filled)
    case None
    with Inr start(1) show ?thesis by (simp add: parser_feed_endpoint_create_name_def step_okI)
  next
    case (Some r)
    obtain i' cnt' out' where r: "r = (i', cnt', out')" by (cases r)
    note filled = Inr [unfolded Some r]
    show ?thesis
    proof (cases rule: name_fill_name [OF filled assms(4,5)])
      case (1 name)
      define granted where "granted = capabilities parser AND caps"
      have "within granted CAPSET_ALL" "within granted (capabilities parser)"
        using assms(1) by (auto simp: granted_def parser_ok_def within_and within_and_left)
      from create_endpoint_ok [OF assms(3) this(1), of name] this(2) obtain s1 where
        s1: "create_endpoint name granted s = Inr s1" "net_ok s1" "same_control s s1"
          "touches {} (capabilities parser) s s1" by (auto intro: touches_within)
      define s' where "s' = (if granted \<noteq> 0 \<and> hd out' \<noteq> NUL \<and> hd out' \<noteq> CHR ''.'' then s1 else s)"
      have "allowed (capabilities parser) s s1"
        using s1(3,4) assms(6) by (intro same_control_allowed) auto
      then have "feeds parser s (parser\<lparr>parser_state := PARSER_STATE_COMMAND\<rparr>) s'"
        using start(2) s1(2) assms(2,3) same_control_store [OF s1(3)] by (auto simp: feeds_def s'_def)
      moreover have "parser_feed_endpoint_create_name buf i cnt parser caps out s
          = Inr (parser\<lparr>parser_state := PARSER_STATE_COMMAND\<rparr>, i', cnt', s')"
        using filled 1(1) s1(1) buf_string_name [OF 1(2)]
        by (simp add: parser_feed_endpoint_create_name_def Let_def s'_def flip: granted_def)
      ultimately show ?thesis by (simp add: step_okI)
    next
      case 2
      then have "feeds parser s (parser\<lparr>parser_state := PARSER_STATE_ENDPOINT_CREATE_NAME caps out'\<rparr>) s"
        using start(3) assms(1,6) by (simp add: feeds_def parser_ok_def)
      then show ?thesis using filled 2 by (simp add: parser_feed_endpoint_create_name_def step_okI)
    qed
  qed
qed

section \<open>The loop\<close>

lemma parser_step_ok:
  assumes "parser_ok parser" "store_ok s" "net_ok s" "cnt \<noteq> 0"
  shows "step_ok parser s (parser_step buf i cnt parser s)"
proof (cases "parser_state parser")
  case PARSER_STATE_COMMAND
  from command_step_ok [OF assms(1-3), of "nat (byte (buf ! i))"] obtain parser' s' where
    "parser_feed_command parser (push_bit (nat (byte (buf ! i))) 1) s = Inr (parser', s')"
    "feeds parser s parser' s'" by blast
  with PARSER_STATE_COMMAND show ?thesis by (auto simp: parser_step_def step_ok_def buf_read_def)
next
  case (PARSER_STATE_ENDPOINT_CREATE_CAPABILITIES word got)
  have last: "feeds parser s (parser\<lparr>parser_state := PARSER_STATE_ENDPOINT_CREATE_NAME c []\<rparr>) s"
    and more: "got + 1 \<noteq> 4 \<Longrightarrow>
      feeds parser s (parser\<lparr>parser_state := PARSER_STATE_ENDPOINT_CREATE_CAPABILITIES c (Suc got)\<rparr>) s" for c
    using PARSER_STATE_ENDPOINT_CREATE_CAPABILITIES feeds_state(3) [OF assms(1-3)] assms(1)
    by (auto simp: feeds_def parser_ok_def name_ok_def)
  with PARSER_STATE_ENDPOINT_CREATE_CAPABILITIES show ?thesis
    unfolding parser_step_def step_ok_def buf_read_def using last more by (simp add: Let_def)
next
  case PARSER_STATE_INVALID
  then show ?thesis using feeds_state(3) [OF assms(1-3)] by (simp add: parser_step_def step_okI)
next
  case (PARSER_STATE_ENDPOINT_CREATE_NAME caps out)
  then show ?thesis using endpoint_name_step_ok [OF assms] assms(1)
    by (simp add: parser_step_def parser_ok_def)
next
  case (PARSER_STATE_DAEMON_START_NAME out)
  then show ?thesis using client_start.daemon_name_step_ok [OF assms] assms(1)
    by (simp add: parser_step_def parser_ok_def)
next
  case (PARSER_STATE_DAEMON_STOP_NAME out)
  then show ?thesis using client_stop.daemon_name_step_ok [OF assms] assms(1)
    by (simp add: parser_step_def parser_ok_def)
next
  case (PARSER_STATE_DAEMON_RELOAD_NAME out)
  then show ?thesis using client_reload.daemon_name_step_ok [OF assms] assms(1)
    by (simp add: parser_step_def parser_ok_def)
next
  case (PARSER_STATE_DAEMON_END_NAME out)
  then show ?thesis using client_end.daemon_name_step_ok [OF assms] assms(1)
    by (simp add: parser_step_def parser_ok_def)
qed

lemma parser_feed_ok:
  assumes "parser_ok parser" "store_ok s" "net_ok s"
  shows "parser_feed buf i cnt parser s = Inl Out_of_bounds
    \<or> parser_feed buf i cnt parser s = Inl Shift_overflow
    \<or> (\<exists>parser' s'. parser_feed buf i cnt parser s = Inr (parser', s') \<and> feeds parser s parser' s')"
  using assms
proof (induction buf i cnt parser s rule: parser_feed.induct)
  case (1 buf i cnt parser s)
  show ?case
  proof (cases "cnt = 0")
    case True
    then show ?thesis using feeds_state(3) [OF 1(2-4)] by (simp add: parser_feed.simps)
  next
    case False
    from parser_step_ok [OF 1(2-4) False, of buf i] consider
      (fault) e where "parser_step buf i cnt parser s = Inl e" "e = Out_of_bounds \<or> e = Shift_overflow"
    | (step) parser1 i1 cnt1 s1 where "parser_step buf i cnt parser s = Inr (parser1, i1, cnt1, s1)"
        "feeds parser s parser1 s1" unfolding step_ok_def by blast
    then show ?thesis
    proof cases
      case fault
      then show ?thesis using False by (auto simp: parser_feed.simps)
    next
      case step
      then have ok: "parser_ok parser1" "store_ok s1" "net_ok s1" "capabilities parser1 = capabilities parser"
        "allowed (capabilities parser) s s1" by (simp_all add: feeds_def)
      have run: "parser_feed buf i cnt parser s = parser_feed buf i1 cnt1 parser1 s1"
        using step(1) False by (subst parser_feed.simps) simp
      have trans: "feeds parser s parser' s'" if "feeds parser1 s1 parser' s'" for parser' s'
        using that ok(4,5) allowed_trans unfolding feeds_def by metis
      from 1(1) [OF False step(1) refl refl refl ok(1-3)] trans show ?thesis unfolding run by blast
    qed
  qed
qed

section \<open>Complete names\<close>

text \<open>How a name that is complete in the buffer is read, whatever follows it.\<close>

lemma memchr_found:
  assumes "drop i buf = xs @ c # rest" "c \<notin> set xs" "length xs < n"
  shows "memchr buf i c n = Inr (Some (i + length xs))"
  using assms
proof (induction xs arbitrary: i n)
  case Nil
  then obtain m where n: "n = Suc m" by (cases n) auto
  have "i < length buf" using Nil(1) by (metis drop_all list.distinct(1) not_le append_Nil)
  moreover have "buf ! i = c" using Nil(1) by (metis append_Nil hd_drop_conv_nth calculation list.sel(1))
  ultimately show ?case by (simp add: n buf_read_def)
next
  case (Cons x xs)
  then obtain m where n: "n = Suc m" by (cases n) auto
  have i: "i < length buf" using Cons.prems(1) by (metis append_Cons drop_all list.distinct(1) not_le)
  then have "buf ! i = x" using Cons.prems(1) by (metis append_Cons hd_drop_conv_nth list.sel(1))
  moreover have "drop (i + 1) buf = xs @ c # rest"
    using Cons.prems(1) by (metis Suc_eq_plus1 append_Cons drop_Suc list.sel(3) tl_drop)
  ultimately show ?case using Cons.IH [of "i + 1" m] Cons.prems(2,3) i by (auto simp: n buf_read_def)
qed

lemma memchr_absent:
  assumes "c \<notin> set (take n (drop i buf))" "i + n \<le> length buf"
  shows "memchr buf i c n = Inr None"
  using assms
proof (induction n arbitrary: i)
  case (Suc n)
  then have i: "i < length buf" by simp
  then have "drop i buf = buf ! i # drop (i + 1) buf" by (simp add: Cons_nth_drop_Suc)
  with Suc i show ?case by (auto simp: buf_read_def)
qed simp

lemma name_fill_complete:
  assumes "drop i buf = name @ NUL # rest" "c_string name" "CHR ''/'' \<notin> set name"
    "length name \<le> NAME_MAX" "length name < cnt"
  shows "name_fill buf i cnt []
    = Inr (Some (i + (length name + 1), cnt + (length name + 1), name @ [NUL]))"
proof -
  have "memchr buf i NUL cnt = Inr (Some (i + length name))"
    by (rule memchr_found [OF assms(1)]) (use assms(2,5) in \<open>simp_all add: c_string_def\<close>)
  moreover have "i + (length name + 1) \<le> length buf"
    using arg_cong [OF assms(1), of length] by simp
  then have "memchr buf i (CHR ''/'') (length name + 1) = Inr None"
    by (rule memchr_absent [rotated]) (use assms(1,3) in \<open>simp add: NUL_def\<close>)
  ultimately show ?thesis using assms(1,4) by (simp add: name_fill_def Let_def)
qed

lemma daemon_name_complete:
  assumes "drop i buf = name @ NUL # rest" "c_string name" "CHR ''/'' \<notin> set name"
    "length name \<le> NAME_MAX" "length name < cnt"
  shows "parser_feed_daemon_name buf i cnt parser state [] action s =
    rbind (configuration_find name s) (\<lambda>daemon.
    rbind (case daemon of None \<Rightarrow> Inr s | Some p \<Rightarrow> action p s) (\<lambda>s.
    Inr (parser\<lparr>parser_state := PARSER_STATE_COMMAND\<rparr>, i + (length name + 1),
      cnt + (length name + 1), s)))"
  using name_fill_complete [OF assms] buf_string_name [OF assms(2)]
  by (simp add: parser_feed_daemon_name_def)

lemma parser_feed_step:
  "cnt \<noteq> 0 \<Longrightarrow> parser_feed buf i cnt parser s =
     rbind (parser_step buf i cnt parser s) (\<lambda>(parser, i, cnt, s). parser_feed buf i cnt parser s)"
  by (subst parser_feed.simps) simp

text \<open>A command byte.\<close>

lemma command_step:
  assumes "i < length buf" "buf ! i = char_of n" "n < 32" "parser_state parser = PARSER_STATE_COMMAND"
  shows "parser_step buf i cnt parser s =
    rbind (parser_feed_command parser (push_bit n 1) s) (\<lambda>(parser, s). Inr (parser, i + 1, cnt - 1, s))"
proof -
  have "byte (char_of n) = int n" using assms(3) by (intro byte_char_of) simp
  then have "byte (buf ! i) = int n" using assms(2) by simp
  then show ?thesis using assms(1,3,4) by (simp add: parser_step_def buf_read_def)
qed

end
