(* ===== verification/Switch_Invariant.thy ===== *)
theory Switch_Invariant
  imports Parser_Invariant
begin

unbundle bit_operations_syntax

text \<open>
  The operations of the nodes and the loop over the ready descriptors keep the invariants of the
  switch and of the store, and confine every connection to the capabilities of its endpoint.
\<close>

section \<open>Confinement\<close>

definition confined :: "capset \<Rightarrow> 'z net_scheme \<Rightarrow> bool" where
  "confined caps s \<longleftrightarrow> (\<forall>p n. nodes s p = Some n \<longrightarrow> within (node_capabilities n) caps)"

definition acts :: "capset \<Rightarrow> 'z net_scheme \<Rightarrow> 'z net_scheme \<Rightarrow> bool" where
  "acts caps s s' \<longleftrightarrow> readset s' = readset s \<and> sends caps s s' \<and> same_daemons s s'
     \<and> queues caps s s' \<and> same_rest s s'"

lemma acts_refl [simp]: "acts caps s s"
  by (simp add: acts_def same_rest_def)

lemma acts_trans: "acts caps s1 s2 \<Longrightarrow> acts caps s2 s3 \<Longrightarrow> acts caps s1 s3"
  unfolding acts_def same_rest_def same_daemons_def
  using sends_trans [of caps s1 s2 s3] queues_trans [of caps s1 s2 s3] by simp

lemma CAPSET_HAS_within:
  assumes "within a b" "CAPSET_HAS a r"
  shows "CAPSET_HAS b r"
  unfolding CAPSET_HAS_def
proof
  assume "b AND r = 0"
  then have "a AND (b AND r) = 0" by simp
  then have "(a AND b) AND r = 0" by (simp add: and.assoc)
  then show False using assms by (simp add: within_def CAPSET_HAS_def)
qed

lemma system_values_within: "within a b \<Longrightarrow> system_values a \<subseteq> system_values b"
  by (auto simp: system_values_def dest: CAPSET_HAS_within)

lemma acts_within:
  assumes "acts a s s'" "within a b"
  shows "acts b s s'"
proof -
  have "sends b s s'"
    using assms CAPSET_HAS_within [OF assms(2)] unfolding acts_def sends_def by blast
  moreover have "queues b s s'"
    using assms system_values_within [OF assms(2)] unfolding acts_def queues_def by blast
  ultimately show ?thesis using assms(1) by (simp add: acts_def)
qed

lemma allowed_acts: "allowed caps s s' \<Longrightarrow> acts caps s s'"
  by (simp add: allowed_def acts_def touches_def)

lemma same_control_acts: "same_control s s' \<Longrightarrow> readset s' = readset s \<Longrightarrow> acts caps s s'"
  by (simp add: acts_def same_rest_def same_control_fields)

section \<open>One node\<close>

text \<open>
  What the operation of the node at \<open>p\<close> did: the other nodes are as they were, and it acted
  within the capabilities of the node.
\<close>

definition operated :: "node_ptr \<Rightarrow> socket_node \<Rightarrow> 'z net_scheme \<Rightarrow> 'z net_scheme \<Rightarrow> bool" where
  "operated p n s s' \<longleftrightarrow> store_ok s' \<and> net_ok s' \<and> touches {p} (node_capabilities n) s s'
     \<and> acts (node_capabilities n) s s'
     \<and> (\<forall>n'. nodes s' p = Some n' \<longrightarrow> node_fd n' = node_fd n \<and> node_capabilities n' = node_capabilities n)"

lemma touches_acts: "touches P caps s s' \<Longrightarrow> same_control s s' \<Longrightarrow> acts caps s s'"
  by (simp add: touches_def same_control_acts)

lemma socket_endpoint_node_operate_ok:
  assumes "store_ok s" "net_ok s" "nodes s p = Some (Endpoint_node fd0 caps)"
  shows "\<exists>s'. socket_endpoint_node_operate p s = Inr s' \<and> operated p (Endpoint_node fd0 caps) s s'"
proof -
  have caps: "within caps CAPSET_ALL" using net_ok_node [OF assms(2,3)] by (simp add: node_ok_def)
  have opened: "operated p (Endpoint_node fd0 caps) s s'"
    if "net_ok s'" "same_control s s'" "touches {} caps s s'" for s'
  proof -
    have "nodes s' p = Some (Endpoint_node fd0 caps)"
      using that(3) assms(3) by (simp add: touches_def dom_def)
    with that touches_acts [OF that(3,2)] touches_mono [OF that(3), of "{p}"] assms(1)
      same_control_store [OF that(2)] show ?thesis by (simp add: operated_def node_capabilities_def)
  qed
  have quiet: "operated p (Endpoint_node fd0 caps) s s'" if "quiet_net s s'" for s'
    by (rule opened) (rule quiet_net_ok [OF assms(2) that])+
  obtain fd s1 where f: "new_fd s = (fd, s1)" by fastforce
  note q1 = new_fd_quiet(1) [OF assms(2) f]
  show ?thesis
  proof (cases "fd < 0")
    case True
    then show ?thesis using f quiet [OF q1] assms(3) by (simp add: socket_endpoint_node_operate_def)
  next
    case False
    from new_fd_quiet(2) [OF assms(2) f this] have fd: "fd < FD_SETSIZE" "fd \<notin> open_fds s"
      "fd \<in> open_fds s1" by auto
    obtain ok s2 where k: "succeeds s1 = (ok, s2)" by fastforce
    note ok1 = quiet_net_ok(1) [OF assms(2) q1]
    have q2: "quiet_net s s2" "open_fds s2 = open_fds s1"
      using quiet_net_trans [OF q1 succeeds_quiet(1) [OF ok1]] succeeds_quiet(2) [OF ok1] k
      by (metis snd_conv)+
    note ok2 = quiet_net_ok(1) [OF assms(2) q2(1)]
    have idle: "fd \<notin> activeset s2" "fd \<in> open_fds s2"
      using fd net_ok_open(3) [OF assms(2)] q2 by (auto simp: quiet_net_def)
    show ?thesis
    proof (cases ok)
      case False
      have "quiet_net s (close_fd fd s2)"
        by (rule quiet_net_trans [OF q2(1) close_fd_quiet [OF ok2 idle(1)]])
      then show ?thesis using f k quiet \<open>\<not> fd < 0\<close> False assms(3)
        by (simp add: socket_endpoint_node_operate_def)
    next
      case True
      define n where "n = Connection_node fd \<lparr>capabilities = caps, parser_state = PARSER_STATE_COMMAND\<rparr>"
      from socket_connection_node_create_new [OF ok2 idle, of caps] obtain r s3 where
        r: "socket_connection_node_create fd caps s2 = (r, s3)" "open_fds s3 = open_fds s2"
          "new_node r n s2 s3" unfolding n_def by blast
      show ?thesis
      proof (cases r)
        case None
        then have "quiet_net s2 s3" using r(3) by (simp add: new_node_def)
        then have "quiet_net s s3" "fd \<notin> activeset s3"
          using quiet_net_trans [OF q2(1)] idle(1) by (auto simp: quiet_net_def)
        then have "quiet_net s (close_fd fd s3)"
          using quiet_net_trans close_fd_quiet quiet_net_ok(1) [OF assms(2)] by blast
        then show ?thesis using f k quiet \<open>\<not> fd < 0\<close> True assms(3) r(1) None
          by (simp add: socket_endpoint_node_operate_def)
      next
        case (Some q)
        then obtain s0 where s0: "quiet_net s2 s0" "nodes s2 q = None" "q \<noteq> key_frame"
          "node_fd n \<in> open_fds s0" "s3 = s0\<lparr>nodes := (nodes s0)(q \<mapsto> n)\<rparr>"
          using r(3) by (auto simp: new_node_def)
        have n: "node_ok n" "node_fd n \<notin> activeset s2" "within (node_capabilities n) caps"
          using False fd(1) caps idle(1) by (simp_all add: n_def node_ok_def parser_ok_def node_capabilities_def)
        from insert_new [OF ok2 s0(1-3) n(1,2) s0(4) n(3)] obtain s' where
          s': "socket_switch_insert q s3 = Inr s'" "net_ok s'" "same_control s2 s'" "touches {} caps s2 s'"
          unfolding s0(5) by blast
        have "same_control s s'" "touches {} caps s s'"
          using same_control_trans [OF quiet_net_ok(2) [OF assms(2) q2(1)] s'(3)]
            touches_trans [OF quiet_net_ok(3) [OF assms(2) q2(1)] s'(4)] by auto
        then have "operated p (Endpoint_node fd0 caps) s s'" using s'(2) by (intro opened)
        then show ?thesis using f k \<open>\<not> fd < 0\<close> True assms(3) r(1) Some s'(1)
          by (simp add: socket_endpoint_node_operate_def)
      qed
    qed
  qed
qed

lemma procs_but_nodes [simp]: "procs_but gone (s\<lparr>nodes := x\<rparr>) = procs_but gone s"
  by (simp add: procs_but_def)

lemma net_ok_update_node:
  assumes "net_ok s" "nodes s p = Some n" "node_fd n' = node_fd n" "node_ok n'"
  shows "net_ok (s\<lparr>nodes := (nodes s)(p \<mapsto> n')\<rparr>)"
proof -
  define s' where "s' = s\<lparr>nodes := (nodes s)(p \<mapsto> n')\<rparr>"
  have same: "map_option node_fd (nodes s' q) = map_option node_fd (nodes s q)" for q
    using assms(2,3) by (simp add: s'_def)
  have fd: "fd_of (nodes s') = fd_of (nodes s)"
    using assms(2,3) by (auto simp: s'_def fd_of_def fun_eq_iff)
  have snodes: "snodes s' = snodes s" by (simp add: s'_def)
  have dom: "dom (nodes s') = dom (nodes s)" using assms(2) by (auto simp: s'_def)
  have ok: "tree_ok (fd_of (nodes s)) (fd_carrier (nodes s)) (snodes s)"
    using assms(1) by (simp add: net_ok_def)
  show ?thesis unfolding s'_def [symmetric] net_ok_def
  proof (intro conjI)
    show "tree_ok (fd_of (nodes s')) (fd_carrier (nodes s')) (snodes s')"
      unfolding snodes by (rule fd_tree_cong(1) [OF ok]) (rule same)
    show "\<forall>q m. nodes s' q = Some m \<longrightarrow> node_ok m"
      using net_ok_node [OF assms(1)] assms(4) by (simp add: s'_def)
    show "nodes s' key_frame = None" using dom assms(1) by (auto simp: net_ok_def)
    show "activeset s' \<subseteq> open_fds s'" using net_ok_open(1) [OF assms(1)] by (simp add: s'_def)
  qed (use assms(1) fd dom in \<open>simp_all add: net_ok_def s'_def\<close>)
qed

lemma socket_connection_node_operate_ok:
  assumes "store_ok s" "net_ok s" "nodes s p = Some (Connection_node fd parser)"
  shows "socket_connection_node_operate p s \<in> {Inl Out_of_bounds, Inl Shift_overflow}
    \<or> (\<exists>s'. socket_connection_node_operate p s = Inr s' \<and> operated p (Connection_node fd parser) s s')"
proof -
  define n where "n = Connection_node fd parser"
  note ok = net_ok_node [OF assms(2,3)]
  have p: "nodes s p = Some n" using assms(3) by (simp add: n_def)
  obtain got buffer s1 where r: "read_fd s = ((got, buffer), s1)" by (metis surj_pair)
  have q: "quiet_net s s1" using r net_ok_open(1) [OF assms(2)]
    by (auto simp: read_fd_def quiet_net_def control.defs Let_def split: list.splits)
  note s1 = quiet_net_ok [OF assms(2) q]
  have p1: "nodes s1 p = Some n" using q p by (simp add: quiet_net_def)
  show ?thesis
  proof (cases "got = None \<or> got = Some []")
    case True
    from socket_switch_remove_ok [OF s1(1) p1, of "node_capabilities n"] obtain s' where
      s': "socket_switch_remove p s1 = Inr s'" "net_ok s'" "same_control s1 s'"
        "touches {p} (node_capabilities n) s1 s'" "nodes s' p = None" by blast
    note c = same_control_trans [OF s1(2) s'(3)]
    have "p \<in> dom (nodes s)" using p by blast
    then have t: "touches {p} (node_capabilities n) s s'" by (intro touches_trans [OF s1(3) s'(4)]) simp
    have "operated p n s s'"
      using t c touches_acts [OF t c] s'(2,5) assms(1) same_control_store [OF c] by (simp add: operated_def)
    then show ?thesis using True r assms(3) s'(1)
      by (auto simp: socket_connection_node_operate_def n_def)
  next
    case False
    then obtain bytes where got: "got = Some bytes" "bytes \<noteq> []" by auto
    have run: "socket_connection_node_operate p s
        = rbind (parser_feed buffer 0 (length bytes) parser s1) (\<lambda>(parser, s).
            Inr (s\<lparr>nodes := (nodes s)(p \<mapsto> Connection_node fd parser)\<rparr>))"
      using r assms(3) got by (simp add: socket_connection_node_operate_def)
    have "parser_ok parser" using ok by (simp add: node_ok_def)
    moreover have "store_ok s1" using assms(1) same_control_store [OF s1(2)] by simp
    ultimately consider
      "parser_feed buffer 0 (length bytes) parser s1 \<in> {Inl Out_of_bounds, Inl Shift_overflow}"
    | parser' s2 where "parser_feed buffer 0 (length bytes) parser s1 = Inr (parser', s2)"
        "feeds parser s1 parser' s2"
      using parser_feed_ok [OF _ _ s1(1)] by blast
    then show ?thesis
    proof cases
      case 1
      then show ?thesis unfolding run by auto
    next
      case 2
      then have f: "capabilities parser' = capabilities parser" "parser_ok parser'" "store_ok s2"
        "net_ok s2" "allowed (capabilities parser) s1 s2" by (auto simp: feeds_def)
      define s' where "s' = s2\<lparr>nodes := (nodes s2)(p \<mapsto> Connection_node fd parser')\<rparr>"
      have t2: "touches {} (capabilities parser) s1 s2" using f(5) by (simp add: allowed_def)
      then have p2: "nodes s2 p = Some n" using p1 by (simp add: touches_def dom_def)
      have "net_ok s'" unfolding s'_def
        by (rule net_ok_update_node [OF f(4) p2]) (use ok f(2) in \<open>simp_all add: n_def node_ok_def\<close>)
      moreover have "store_ok s'" using f(3) by (simp add: s'_def reload_ok_def)
      moreover have "touches {p} (capabilities parser) s1 s'"
        using t2 p1 by (auto simp: touches_def s'_def)
      then have "touches {p} (capabilities parser) s s'"
        using p by (intro touches_trans [OF s1(3)]) auto
      moreover have "acts (capabilities parser) s1 s'"
        using allowed_acts [OF f(5)]
        by (simp add: acts_def s'_def sends_def same_daemons_def queues_def same_rest_def)
      then have "acts (capabilities parser) s s'"
        by (rule acts_trans [OF touches_acts [OF s1(3,2)]])
      moreover have "nodes s' p = Some (Connection_node fd parser')" by (simp add: s'_def)
      ultimately have "operated p n s s'"
        using f(1) by (simp add: operated_def n_def node_capabilities_def)
      then show ?thesis unfolding run using 2(1) by (simp add: s'_def n_def)
    qed
  qed
qed

section \<open>The loop\<close>

lemma node_operate_ok:
  assumes "store_ok s" "net_ok s" "nodes s p = Some n"
  shows "node_operate p s \<in> {Inl Out_of_bounds, Inl Shift_overflow}
    \<or> (\<exists>s'. node_operate p s = Inr s' \<and> operated p n s s')"
proof (cases n)
  case (Endpoint_node fd caps)
  then show ?thesis using socket_endpoint_node_operate_ok [OF assms(1,2)] assms(3)
    by (simp add: node_operate_def)
next
  case (Connection_node fd parser)
  then show ?thesis using socket_connection_node_operate_ok [OF assms(1,2)] assms(3)
    by (simp add: node_operate_def)
qed

text \<open>
  Operating a node leaves the other nodes active, with the capabilities they had; a new one has
  capabilities of the operated node.
\<close>

lemma operated_others:
  assumes "net_ok s" "nodes s p = Some n" "operated p n s s'"
  shows "activeset s - {node_fd n} \<subseteq> activeset s'" "confined caps s \<Longrightarrow> confined caps s'"
proof -
  have t: "touches {p} (node_capabilities n) s s'" and n': "net_ok s'"
    and self: "\<forall>m. nodes s' p = Some m \<longrightarrow> node_capabilities m = node_capabilities n"
    using assms(3) by (simp_all add: operated_def)
  show "activeset s - {node_fd n} \<subseteq> activeset s'"
  proof
    fix fd assume "fd \<in> activeset s - {node_fd n}"
    then obtain q m where q: "nodes s q = Some m" "fd = node_fd m" "node_fd m \<noteq> node_fd n"
      using assms(1) by (auto simp: net_ok_def fd_of_def)
    then have "q \<noteq> p" using assms(2) by auto
    then have "nodes s' q = Some m" using t q(1) by (simp add: touches_def dom_def)
    then have "fd_of (nodes s') q = fd" "q \<in> dom (nodes s')" using q(2) by (auto simp: fd_of_def)
    moreover have "activeset s' = fd_of (nodes s') ` dom (nodes s')" using n' by (simp add: net_ok_def)
    ultimately show "fd \<in> activeset s'" by blast
  qed
  show "confined caps s'" if c: "confined caps s"
    unfolding confined_def
  proof (intro allI impI)
    fix q m assume m: "nodes s' q = Some m"
    have own: "within (node_capabilities n) caps" using c assms(2) by (simp add: confined_def)
    show "within (node_capabilities m) caps"
    proof (cases "q = p")
      case True
      then show ?thesis using self m own by simp
    next
      case False
      show ?thesis
      proof (cases "nodes s q")
        case None
        then have "within (node_capabilities m) (node_capabilities n)" using t m by (simp add: touches_def)
        then show ?thesis by (rule within_trans [OF _ own])
      next
        case (Some m0)
        then have "nodes s' q = Some m0" using t False by (simp add: touches_def dom_def)
        then show ?thesis using c Some m by (simp add: confined_def)
      qed
    qed
  qed
qed

definition operates :: "capset \<Rightarrow> 'z net_scheme \<Rightarrow> 'z net_scheme \<Rightarrow> bool" where
  "operates caps s s' \<longleftrightarrow> store_ok s' \<and> net_ok s' \<and> confined caps s' \<and> acts caps s s'"

lemma operate_fds_ok:
  assumes "store_ok s" "net_ok s" "confined caps s" "distinct fds" "set fds \<inter> readset s \<subseteq> activeset s"
  shows "operate_fds fds nfds s \<in> {Inl Out_of_bounds, Inl Shift_overflow}
    \<or> (\<exists>s'. operate_fds fds nfds s = Inr s' \<and> operates caps s s')"
  using assms
proof (induction fds arbitrary: nfds s)
  case Nil
  then show ?case by (simp add: operates_def)
next
  case (Cons fd fds)
  show ?case
  proof (cases "nfds = 0 \<or> fd \<notin> readset s")
    case True
    moreover have "set fds \<inter> readset s \<subseteq> activeset s" using Cons.prems(5) by auto
    ultimately show ?thesis using Cons.IH [OF Cons.prems(1-3)] Cons.prems
      by (cases "nfds = 0") (simp_all add: operates_def)
  next
    case False
    then have "fd \<in> activeset s" using Cons.prems(5) by auto
    from socket_switch_find_node [OF Cons.prems(2) this] obtain p n where
      p: "socket_switch_find fd s = Inr (Some p)" "nodes s p = Some n" "node_fd n = fd" by blast
    have run: "operate_fds (fd # fds) nfds s = rbind (node_operate p s) (operate_fds fds (nfds - 1))"
      using False p(1) by simp
    from node_operate_ok [OF Cons.prems(1,2) p(2)] show ?thesis
    proof (elim disjE exE conjE)
      assume "node_operate p s \<in> {Inl Out_of_bounds, Inl Shift_overflow}"
      then show ?thesis unfolding run by auto
    next
      fix s1 assume s1: "node_operate p s = Inr s1" "operated p n s s1"
      note others = operated_others [OF Cons.prems(2) p(2) s1(2)]
      have own: "within (node_capabilities n) caps"
        using Cons.prems(3) p(2) by (simp add: confined_def)
      have ok1: "store_ok s1" "net_ok s1" "acts caps s s1"
        using s1(2) acts_within [OF _ own] by (auto simp: operated_def)
      have "readset s1 = readset s" using ok1(3) by (simp add: acts_def)
      then have "set fds \<inter> readset s1 \<subseteq> activeset s1"
        using Cons.prems(4,5) others(1) p(3) by auto
      from Cons.IH [OF ok1(1,2) others(2) [OF Cons.prems(3)] _ this, of "nfds - 1"] Cons.prems(4)
      show ?thesis unfolding run s1(1) using acts_trans [OF ok1(3)] by (auto simp: operates_def)
    qed
  qed
qed

lemma socket_switch_operate_ok:
  assumes "store_ok s" "net_ok s" "confined caps s" "readset s \<subseteq> activeset s"
  shows "socket_switch_operate nfds s \<in> {Inl Out_of_bounds, Inl Shift_overflow}
    \<or> (\<exists>s'. socket_switch_operate nfds s = Inr s' \<and> operates caps s s')"
  unfolding socket_switch_operate_def
  by (rule operate_fds_ok [OF assms(1-3)]) (use assms(4) in auto)

lemma confined_all:
  assumes "net_ok s"
  shows "confined CAPSET_ALL s"
  unfolding confined_def
proof (intro allI impI)
  fix p n assume "nodes s p = Some n"
  from net_ok_node [OF assms this] show "within (node_capabilities n) CAPSET_ALL"
    by (cases n) (simp_all add: node_ok_def node_capabilities_def parser_ok_def)
qed

section \<open>The end of the switch\<close>

text \<open>Every node is destroyed, and nothing but the sockets changes.\<close>

lemma destroy_nodes_ok:
  assumes "distinct ps" "set ps \<subseteq> dom (nodes s)"
  shows "\<exists>s'. rfold socket_switch_destroy_element ps s = Inr s' \<and> same_control s s'
    \<and> nodes s' = nodes s |` (- set ps) \<and> open_fds s' = open_fds s - fd_of (nodes s) ` set ps"
  using assms
proof (induction ps arbitrary: s)
  case Nil
  then show ?case by simp
next
  case (Cons p ps)
  then obtain n where n: "nodes s p = Some n" by auto
  from destroy_element [OF n] obtain fs where
    d: "socket_switch_destroy_element p s = Inr (s\<lparr>files := fs, open_fds := open_fds s - {node_fd n},
      bound := (bound s)(node_fd n := None), nodes := (nodes s)(p := None)\<rparr>)" by blast
  define s1 where "s1 = s\<lparr>files := fs, open_fds := open_fds s - {node_fd n},
      bound := (bound s)(node_fd n := None), nodes := (nodes s)(p := None)\<rparr>"
  have "set ps \<subseteq> dom (nodes s1)" using Cons.prems by (auto simp: s1_def)
  from Cons.IH [OF _ this] Cons.prems(1) obtain s' where
    s': "rfold socket_switch_destroy_element ps s1 = Inr s'" "same_control s1 s'"
      "nodes s' = nodes s1 |` (- set ps)" "open_fds s' = open_fds s1 - fd_of (nodes s1) ` set ps" by auto
  have "same_control s s1" by (simp add: same_control_def s1_def control.defs)
  then have "same_control s s'" using s'(2) by (rule same_control_trans)
  moreover have "nodes s' = nodes s |` (- set (p # ps))"
    unfolding s'(3) by (auto simp: s1_def restrict_map_def fun_eq_iff)
  moreover have "fd_of (nodes s1) ` set ps = fd_of (nodes s) ` set ps"
    using Cons.prems(1) by (intro image_cong) (auto simp: s1_def fd_of_def)
  then have "open_fds s' = open_fds s - fd_of (nodes s) ` set (p # ps)"
    unfolding s'(4) using n by (auto simp: s1_def fd_of_def)
  ultimately show ?case using s'(1) d by (auto simp: s1_def)
qed

lemma socket_switch_teardown_ok:
  assumes "net_ok s"
  shows "\<exists>s'. socket_switch_teardown s = Inr s' \<and> same_control s s' \<and> nodes s' = Map.empty
    \<and> open_fds s' = open_fds s - activeset s"
proof -
  have ok: "tree_ok (fd_of (nodes s)) (fd_carrier (nodes s)) (snodes s)"
    and set: "set_tree_node (snodes s) = dom (nodes s)"
    and active: "activeset s = fd_of (nodes s) ` dom (nodes s)" using assms by (auto simp: net_ok_def)
  have "distinct (tree_preorder (snodes s))" using ok distinct_preorder unfolding tree_ok_def by blast
  from destroy_nodes_ok [OF this, of s] obtain s' where
    "rfold socket_switch_destroy_element (tree_preorder (snodes s)) s = Inr s'" "same_control s s'"
    "nodes s' = nodes s |` (- dom (nodes s))" "open_fds s' = open_fds s - fd_of (nodes s) ` dom (nodes s)"
    by (auto simp: set_tree_preorder set)
  moreover have "nodes s |` (- dom (nodes s)) = Map.empty" by (auto simp: restrict_map_def fun_eq_iff)
  ultimately show ?thesis using active by (auto simp: socket_switch_teardown_def preorder_mutate_rfold)
qed

end
