(* ===== verification/Main_Invariant.thy ===== *)
theory Main_Invariant
  imports Init Switch_Invariant
begin

text \<open>
  The invariant of the whole program: the setup establishes it, every turn of the main loop keeps
  it, and the teardown ends with the reboot that was asked for.
\<close>

section \<open>The invariant\<close>

text \<open>
  Signals: \<^verbatim>\<open>SIGTERM\<close> is handled by its handler only and masked outside of the waiting calls,
  the alarm is not masked.
\<close>

definition only_sigterm :: "'z control_scheme \<Rightarrow> bool" where
  "only_sigterm s \<longleftrightarrow> (\<forall>signo. handlers s signo = Some SIGTERM_HANDLER \<longrightarrow> signo = SIGTERM)"

definition signals_ok :: "'z control_scheme \<Rightarrow> bool" where
  "signals_ok s \<longleftrightarrow> only_sigterm s \<and> SIGTERM \<in> procmask s \<and> SIGALRM \<notin> procmask s
     \<and> reboot_value (sigreboot s)"

definition running :: "'z net_scheme \<Rightarrow> bool" where
  "running s \<longleftrightarrow> store_ok s \<and> net_ok s \<and> signals_ok s"

lemma signals_ok_cong:
  "handlers s' = handlers s \<Longrightarrow> procmask s' = procmask s \<Longrightarrow> sigreboot s' = sigreboot s \<Longrightarrow>
     signals_ok s' = signals_ok s"
  by (simp add: signals_ok_def only_sigterm_def)

lemma same_rest_signals: "same_rest s s' \<Longrightarrow> signals_ok s' = signals_ok s"
  by (rule signals_ok_cong) (simp_all add: same_rest_def)

text \<open>What the kernel reports is well formed, and the files of the directory are.\<close>

definition wakeup_ok :: "libc \<Rightarrow> char result \<Rightarrow> string \<Rightarrow> wakeup \<Rightarrow> bool" where
  "wakeup_ok lc below path w \<longleftrightarrow>
     (case w of
        Interrupted signos infos fs \<Rightarrow> list_all terminated infos
          \<and> (\<forall>entries. fs path = Some entries \<longrightarrow> entries_ok lc below entries)
      | _ \<Rightarrow> True)"

lemma store_more_rest:
  fixes s s' :: "'z net_scheme"
  assumes "store.more s' = store.more s"
  shows "net_ok s' = net_ok s" "sigreboot s' = sigreboot s" "nodes s' = nodes s"
    "activeset s' = activeset s" "sighup s' = sighup s" "sigchld s' = sigchld s"
    "signals_ok s' = signals_ok s"
  using assms by (cases s; cases s'; simp add: net_ok_def signals_ok_def only_sigterm_def)+

lemma flag_update [simp]:
  "signals_ok (s\<lparr>sighup := b\<rparr>) = signals_ok s" "signals_ok (s\<lparr>sigchld := b\<rparr>) = signals_ok s"
  "store_ok (s\<lparr>sighup := b\<rparr>) = store_ok s" "net_ok (s\<lparr>sighup := b\<rparr>) = net_ok s"
  "store_ok (s\<lparr>sigchld := b\<rparr>) = store_ok s" "net_ok (s\<lparr>sigchld := b\<rparr>) = net_ok s"
  for s :: "'z net_scheme"
  by (simp_all add: reload_ok_def procs_but_def net_ok_def signals_ok_def only_sigterm_def)

section \<open>Signals\<close>

lemma deliver_net:
  fixes s :: "'z net_scheme"
  shows "nodes (deliver blocked signo s) = nodes s" "snodes (deliver blocked signo s) = snodes s"
    "activeset (deliver blocked signo s) = activeset s"
    "open_fds (deliver blocked signo s) = open_fds s" "new_fds (deliver blocked signo s) = new_fds s"
  by (auto simp: deliver_def sigterm_handler_def sigchld_handler_def sighup_handler_def
      sigalrm_handler_def Let_def split: option.splits handler.splits prod.splits)

lemma deliver_ok:
  fixes s :: "'z net_scheme"
  shows "store_ok (deliver blocked signo s) = store_ok s" "net_ok (deliver blocked signo s) = net_ok s"
  by (simp_all add: reload_ok_def procs_but_def net_ok_def deliver_store deliver_net)

lemma deliver_running: "running s \<Longrightarrow> running (deliver blocked signo s)"
  by (simp add: running_def deliver_ok signals_ok_def only_sigterm_def deliver_store deliver_reboot_value)

lemma deliver_all_Cons: "deliver_all blocked (signo # signos) s = deliver_all blocked signos (deliver blocked signo s)"
  by (simp add: deliver_all_def)

lemma deliver_all_running: "running s \<Longrightarrow> running (deliver_all blocked signos s)"
proof (induction signos arbitrary: s)
  case (Cons signo signos)
  from Cons.IH [OF deliver_running [OF Cons.prems]] show ?case unfolding deliver_all_Cons .
qed (simp add: deliver_all_def)

lemma deliver_all_path: "configuration_path (deliver_all blocked signos s) = configuration_path s"
  by (induction signos arbitrary: s) (simp_all add: deliver_all_Cons deliver_store, simp add: deliver_all_def)

text \<open>The branch of the signals: the flags are served and cleared.\<close>

lemma handle_sighup:
  assumes "running s" "\<forall>entries. fs (configuration_path s) = Some entries \<longrightarrow> entries_ok lc below entries"
  shows "\<exists>s'. configuration_reload lc below fs s = Inr s' \<and> running s'
    \<and> configuration_path s' = configuration_path s \<and> store.more s' = store.more s"
proof (cases "fs (configuration_path s)")
  case None
  then show ?thesis using assms(1) by (simp add: configuration_reload_def)
next
  case (Some entries)
  have "store_ok s" using assms(1) by (simp add: running_def)
  from configuration_reload_ok [of s fs entries lc below, OF this Some] assms(2) Some obtain s' where
    s': "configuration_reload lc below fs s = Inr s'" "store_ok s'" "store_frame s s'" by blast
  then have "store.more s' = store.more s" by (simp add: store_frame_def)
  with s' store_more_rest [OF this] assms(1) show ?thesis by (simp add: running_def store_frame_def)
qed

lemma reap_children_running:
  assumes "running s" "list_all terminated infos"
  shows "\<exists>r s'. reap_children infos s = Inr (r, s') \<and> running s' \<and> steady s s' \<and> sent s' = sent s"
proof -
  have ok: "store_ok s" "procs_ok s" using assms(1) by (auto simp: running_def reload_ok_def)
  from reap_children_ok [OF ok(2) assms(2)] obtain r s' where
    s': "reap_children infos s = Inr (r, s')" "procs_ok s'" "steady s s'" "sent s' = sent s" by blast
  have more: "procs.more s' = procs.more s" using s'(3) by (simp add: steady_def)
  have "signals_ok s' = signals_ok s" by (rule same_rest_signals) (rule net_rest(5) [OF more])
  with s' store_ok_steady(1) [OF ok(1) s'(2,3)] net_rest(2) [OF more] assms(1)
  show ?thesis by (simp add: running_def)
qed

lemma handle_signals_ok:
  assumes "running s" "list_all terminated infos"
    "\<forall>entries. fs (configuration_path s) = Some entries \<longrightarrow> entries_ok lc below entries"
  shows "\<exists>s'. handle_signals lc below infos fs s = Inr s' \<and> running s'
    \<and> configuration_path s' = configuration_path s \<and> \<not> sighup s' \<and> \<not> sigchld s'
    \<and> sigreboot s' = sigreboot s"
proof -
  from handle_sighup [of s fs lc below, OF assms(1,3)] obtain s1 where
    s1: "configuration_reload lc below fs s = Inr s1" "running s1"
      "configuration_path s1 = configuration_path s" "store.more s1 = store.more s" by blast
  define s2 where "s2 = (if sighup s then s1\<lparr>sighup := False\<rparr> else s)"
  have s2: "running s2" "configuration_path s2 = configuration_path s" "\<not> sighup s2"
    "sigchld s2 = sigchld s" "sigreboot s2 = sigreboot s"
    using s1 assms(1) store_more_rest(2,6) [OF s1(4)] by (auto simp: s2_def running_def)
  have run: "handle_signals lc below infos fs s = (if sigchld s2
      then rbind (reap_children infos s2) (\<lambda>(_, s). Inr (s\<lparr>sigchld := False\<rparr>)) else Inr s2)"
    using s1(1) by (simp add: handle_signals_def s2_def)
  show ?thesis
  proof (cases "sigchld s2")
    case False
    then show ?thesis using s2 unfolding run by auto
  next
    case True
    from reap_children_running [OF s2(1) assms(2)] obtain r s3 where
      s3: "reap_children infos s2 = Inr (r, s3)" "running s3" "steady s2 s3" by blast
    then have "procs.more s3 = procs.more s2" by (simp add: steady_def)
    from net_rest(5) [OF this] have "configuration_path s3 = configuration_path s2" "\<not> sighup s3"
      "sigreboot s3 = sigreboot s2" using s2(3) by (simp_all add: same_rest_def)
    then show ?thesis using True s3 s2(2,5) unfolding run by (simp add: running_def)
  qed
qed

section \<open>One turn of the main loop\<close>

lemma prepare_ok:
  assumes "running s"
  shows "\<exists>nfds. socket_switch_prepare s = Inr (nfds, s\<lparr>readset := activeset s\<rparr>)
    \<and> (\<forall>fd \<in> activeset s. fd < nfds)"
proof -
  have ok: "tree_ok (fd_of (nodes s)) (fd_carrier (nodes s)) (snodes s)"
    and set: "set_tree_node (snodes s) = dom (nodes s)"
    and active: "activeset s = fd_of (nodes s) ` dom (nodes s)"
    using assms by (auto simp: running_def net_ok_def)
  show ?thesis
  proof (cases "tree_last (snodes s)")
    case None
    then have "snodes s = NULL" by (simp add: tree_last_inorder split: if_splits)
    then have "activeset s = {}" using set active by simp
    then show ?thesis using None by (simp add: socket_switch_prepare_def)
  next
    case (Some p)
    have "ordered_by (fd_of (nodes s)) (fd_carrier (nodes s)) (snodes s)" using ok by (simp add: tree_ok_def)
    from tree_last_greatest [OF this Some] have p: "p \<in> dom (nodes s)"
      "\<forall>q \<in> dom (nodes s). fd_of (nodes s) q \<le> fd_of (nodes s) p" by (auto simp: set)
    then obtain n where n: "nodes s p = Some n" by blast
    have "\<forall>fd \<in> activeset s. fd < node_fd n + 1" using p(2) n active by (auto simp: fd_of_def)
    then show ?thesis using Some n by (simp add: socket_switch_prepare_def)
  qed
qed

lemma readset_update [simp]:
  "store_ok (s\<lparr>readset := x\<rparr>) = store_ok s" "net_ok (s\<lparr>readset := x\<rparr>) = net_ok s"
  "running (s\<lparr>readset := x\<rparr>) = running s"
  for s :: "'z net_scheme"
  by (simp_all add: reload_ok_def procs_but_def net_ok_def running_def signals_ok_def only_sigterm_def)

lemma main_iteration_ok:
  assumes "running s" "wakeup_ok lc below (configuration_path s) w"
  shows "main_iteration lc below sigmask w s \<in> {Inl Out_of_bounds, Inl Shift_overflow}
    \<or> (\<exists>s'. main_iteration lc below sigmask w s = Inr s' \<and> running s'
          \<and> configuration_path s' = configuration_path s)"
proof -
  define s0 where "s0 = s\<lparr>readset := activeset s\<rparr>"
  from prepare_ok [OF assms(1)] obtain nfds where
    prep: "socket_switch_prepare s = Inr (nfds, s0)" unfolding s0_def by blast
  have s0: "running s0" "configuration_path s0 = configuration_path s" "readset s0 = activeset s0"
    using assms(1) by (simp_all add: s0_def)
  show ?thesis
  proof (cases w)
    case Select_error
    then show ?thesis using prep s0 by (simp add: main_iteration_def)
  next
    case (Interrupted signos infos fs)
    define s1 where "s1 = deliver_all sigmask signos s0"
    have s1: "running s1" "configuration_path s1 = configuration_path s"
      using deliver_all_running [OF s0(1)] s0(2) by (simp_all add: s1_def deliver_all_path)
    have infos: "list_all terminated infos"
      "\<forall>entries. fs (configuration_path s1) = Some entries \<longrightarrow> entries_ok lc below entries"
      using assms(2) Interrupted s1(2) by (simp_all add: wakeup_ok_def)
    from handle_signals_ok [of s1 infos fs lc below, OF s1(1) infos] s1(2) prep Interrupted
    show ?thesis by (auto simp: main_iteration_def s1_def)
  next
    case (Ready fds)
    define ready where "ready = {fd \<in> readset s0. fd \<in> fds \<and> fd < nfds}"
    define s1 where "s1 = s0\<lparr>readset := ready\<rparr>"
    have s1: "store_ok s1" "net_ok s1" "readset s1 \<subseteq> activeset s1" "signals_ok s1"
      "configuration_path s1 = configuration_path s"
      using s0 by (auto simp: s1_def running_def ready_def signals_ok_def only_sigterm_def)
    have run: "main_iteration lc below sigmask w s = socket_switch_operate (int (card ready)) s1"
      using prep Ready by (simp add: main_iteration_def s1_def ready_def Let_def)
    from socket_switch_operate_ok [OF s1(1,2) confined_all [OF s1(2)] s1(3), of "int (card ready)"]
    show ?thesis
    proof (elim disjE exE conjE)
      fix s' assume s': "socket_switch_operate (int (card ready)) s1 = Inr s'" "operates CAPSET_ALL s1 s'"
      then have "same_rest s1 s'" by (simp add: operates_def acts_def)
      from same_rest_signals [OF this] this s' s1(4,5) show ?thesis
        unfolding run by (simp add: operates_def same_rest_def running_def)
    qed (simp add: run)
  qed
qed

lemma main_loop_ok:
  assumes "running s" "\<forall>w \<in> set ws. wakeup_ok lc below (configuration_path s) w"
  shows "main_loop lc below sigmask ws s \<in> {Inl Out_of_bounds, Inl Shift_overflow}
    \<or> (\<exists>stop s'. main_loop lc below sigmask ws s = Inr (stop, s') \<and> running s'
          \<and> (stop \<longrightarrow> sigreboot s' \<noteq> 0))"
  using assms
proof (induction ws arbitrary: s)
  case Nil
  then show ?case by (intro disjI2 exI [of _ False] exI [of _ s]) simp
next
  case (Cons w ws)
  have "wakeup_ok lc below (configuration_path s) w" using Cons.prems(2) by simp
  from main_iteration_ok [OF Cons.prems(1) this, of sigmask] show ?case
  proof (elim disjE exE conjE)
    assume "main_iteration lc below sigmask w s \<in> {Inl Out_of_bounds, Inl Shift_overflow}"
    then show ?thesis by auto
  next
    fix s1 assume s1: "main_iteration lc below sigmask w s = Inr s1" "running s1"
      "configuration_path s1 = configuration_path s"
    show ?thesis
    proof (cases "sigreboot s1 = 0")
      case True
      then show ?thesis using Cons.IH [OF s1(2)] Cons.prems(2) s1(1,3) by simp
    next
      case False
      then show ?thesis using s1 by (intro disjI2 exI [of _ True] exI [of _ s1]) simp
    qed
  qed
qed

section \<open>Teardown\<close>

text \<open>Outside of the calls that wait, \<^verbatim>\<open>SIGTERM\<close> is masked, so the reboot stays what it was.\<close>

lemma deliver_masked:
  assumes "SIGTERM \<in> blocked"
  shows "sigreboot (deliver blocked signo s) = sigreboot s
    \<or> (\<exists>signo'. signo' \<noteq> SIGTERM \<and> handlers s signo' = Some SIGTERM_HANDLER)"
  using assms
  by (cases "signo = SIGTERM")
    (auto simp: deliver_def sigchld_handler_def sighup_handler_def sigalrm_handler_def
      split: option.splits handler.splits)

lemma deliver_all_store:
  "heap (deliver_all blocked signos s) = heap s" "spawns (deliver_all blocked signos s) = spawns s"
  "children (deliver_all blocked signos s) = children s" "sent (deliver_all blocked signos s) = sent s"
  "forks (deliver_all blocked signos s) = forks s" "handlers (deliver_all blocked signos s) = handlers s"
  "daemons (deliver_all blocked signos s) = daemons s"
  by (induction signos arbitrary: s)
    (simp_all add: deliver_all_Cons deliver_store, simp_all add: deliver_all_def)

lemma deliver_all_more: "control.more (deliver_all blocked signos s) = control.more s"
proof (induction signos arbitrary: s)
  case (Cons signo signos)
  have "control.more (deliver blocked signo s) = control.more s"
    by (auto simp: deliver_def sigterm_handler_def sigchld_handler_def sighup_handler_def
        sigalrm_handler_def Let_def split: option.splits handler.splits prod.splits)
  with Cons show ?case by (simp add: deliver_all_Cons)
qed (simp add: deliver_all_def)

lemma deliver_all_procs [simp]:
  "procs_ok (deliver_all blocked signos s) = procs_ok s" "quiet (deliver_all blocked signos s) = quiet s"
  "only_sigterm (deliver_all blocked signos s) = only_sigterm s"
  by (simp_all add: procs_but_def quiet_def only_sigterm_def deliver_all_store)

lemma deliver_all_masked:
  assumes "SIGTERM \<in> blocked" "only_sigterm s"
  shows "sigreboot (deliver_all blocked signos s) = sigreboot s"
  using assms(2)
proof (induction signos arbitrary: s)
  case (Cons signo signos)
  have "only_sigterm (deliver blocked signo s)" using Cons.prems by (simp add: only_sigterm_def deliver_store)
  with Cons deliver_masked [OF assms(1), of signo s] show ?case
    by (auto simp: deliver_all_Cons only_sigterm_def)
qed (simp add: deliver_all_def)

lemma deliver_all_alarm:
  assumes "SIGALRM \<in> set signos" "SIGALRM \<notin> blocked" "handlers s SIGALRM = Some SIGALRM_HANDLER"
  shows "sigalrm (deliver_all blocked signos s)"
proof -
  have keep: "sigalrm s1 \<Longrightarrow> sigalrm (deliver_all blocked sigs s1)" for sigs and s1 :: "'a control_scheme"
  proof (induction sigs arbitrary: s1)
    case (Cons signo sigs)
    then have "sigalrm (deliver blocked signo s1)"
      by (auto simp: deliver_def sigterm_handler_def sigchld_handler_def sighup_handler_def
          sigalrm_handler_def Let_def split: option.splits handler.splits prod.splits)
    then show ?case using Cons.IH by (simp add: deliver_all_Cons)
  qed (simp add: deliver_all_def)
  show ?thesis using assms(1,3)
  proof (induction signos arbitrary: s)
    case (Cons signo signos)
    show ?case
    proof (cases "signo = SIGALRM")
      case True
      then have "sigalrm (deliver blocked signo s)"
        using assms(2) Cons.prems(2) by (simp add: deliver_def sigalrm_handler_def)
      then show ?thesis using keep by (simp add: deliver_all_Cons)
    next
      case False
      then show ?thesis using Cons by (simp add: deliver_all_Cons deliver_store)
    qed
  qed simp
qed

lemma control_rest:
  fixes s s' :: "'z control_scheme"
  assumes "procs.more s' = procs.more s"
  shows "sigreboot s' = sigreboot s" "handlers s' = handlers s" "control.more s' = control.more s"
  using assms by (cases s; cases s'; simp)+

text \<open>
  The loop that waits starts nothing and signals nobody; when it ends without children left
  there is none. It ends at the latest when the alarm rings.
\<close>

definition same_names :: "'z store_scheme \<Rightarrow> 'z store_scheme \<Rightarrow> bool" where
  "same_names s s' \<longleftrightarrow> daemons s' = daemons s \<and> (\<forall>p. same_name (heap s) (heap s') p)"

lemma same_names_trans: "same_names s1 s2 \<Longrightarrow> same_names s2 s3 \<Longrightarrow> same_names s1 s3"
  by (simp add: same_names_def same_name_def)

lemma same_names_heap [simp]: "heap s' = heap s \<Longrightarrow> daemons s' = daemons s \<Longrightarrow> same_names s s'"
  by (simp add: same_names_def)

lemma store_ok_same_names:
  assumes "store_ok s" "same_names s s'" "procs_ok s'"
  shows "store_ok s'"
proof -
  have same: "daemons s' = daemons s" "same_name (heap s) (heap s') p" for p
    using assms(2) by (simp_all add: same_names_def)
  have "named_ok (heap s') (daemons s')"
    using named_ok_cong(1) [of "heap s" "daemons s" "heap s'"] assms(1) same by (simp add: reload_ok_def)
  moreover have "dom (heap s') = dom (heap s)"
    using same(2) by (auto simp: same_name_def dom_def) (metis map_option_is_None not_None_eq)+
  ultimately show ?thesis using assms(1,3) same(1) by (simp add: reload_ok_def)
qed

definition waits :: "'z control_scheme \<Rightarrow> 'z control_scheme \<Rightarrow> bool" where
  "waits s s' \<longleftrightarrow> procs_ok s' \<and> quiet s' \<and> only_sigterm s' \<and> forks s' = forks s \<and> sent s' = sent s
     \<and> set (children s') \<subseteq> set (children s) \<and> sigreboot s' = sigreboot s
     \<and> same_names s s'
     \<and> control.more s' = control.more s"

lemma waits_trans: "waits s1 s2 \<Longrightarrow> waits s2 s3 \<Longrightarrow> waits s1 s3"
  by (auto simp: waits_def intro: same_names_trans)

lemma reap_children_waits:
  assumes "procs_ok s" "quiet s" "only_sigterm s" "list_all terminated infos"
  shows "\<exists>r s'. reap_children infos s = Inr (r, s') \<and> waits s s' \<and> r = (if children s' = [] then - 1 else 0)"
proof -
  from reap_children_ok [OF assms(1,4)] obtain r s' where
    r: "reap_children infos s = Inr (r, s')" "steady s s'" "sent s' = sent s"
      "r = (if children s' = [] then - 1 else 0)" by blast
  from reap_children_quiet [OF assms(1,2,4)] r(1) have
    q: "procs_ok s'" "quiet s'" "forks s' = forks s" "set (children s') \<subseteq> set (children s)" by auto
  have more: "procs.more s' = procs.more s" using r(2) by (simp add: steady_def)
  then have "same_names s s'" using r(2) store_rest [OF more] by (simp add: same_names_def same_name_def steady_def)
  with control_rest [OF more] assms(3) have "waits s s'"
    using q r(3) by (simp add: waits_def only_sigterm_def)
  then show ?thesis using r(1,4) by blast
qed

lemma teardown_wait_ok:
  assumes "procs_ok s" "quiet s" "only_sigterm s" "SIGTERM \<in> sigmask"
    "\<forall>w \<in> set ws. list_all terminated (snd w)"
  shows "\<exists>r. teardown_wait sigmask ws s = Inr r
    \<and> (\<forall>left s'. r = Some (left, s') \<longrightarrow> waits s s' \<and> (\<not> left \<longrightarrow> children s' = []))
    \<and> ((\<exists>w \<in> set ws. SIGALRM \<in> set (fst w)) \<and> SIGALRM \<notin> sigmask
        \<and> handlers s SIGALRM = Some SIGALRM_HANDLER \<longrightarrow> r \<noteq> None)"
  using assms(1-3,5)
proof (induction ws arbitrary: s)
  case Nil
  then show ?case by simp
next
  case (Cons w ws)
  obtain signos infos where w: "w = (signos, infos)" by (cases w)
  define s0 where "s0 = deliver_all sigmask signos s"
  have s0: "procs_ok s0" "quiet s0" "only_sigterm s0" "waits s s0" "handlers s0 = handlers s"
    using Cons.prems(1-3) deliver_all_masked [OF assms(4) Cons.prems(3)]
    by (simp_all add: s0_def waits_def deliver_all_store deliver_all_more)
  from Cons.prems(4) w have "list_all terminated infos" by simp
  from reap_children_waits [OF s0(1-3) this] obtain r s1 where
    s1: "reap_children infos s0 = Inr (r, s1)" "waits s0 s1" "r = (if children s1 = [] then - 1 else 0)"
    by blast
  note w1 = waits_trans [OF s0(4) s1(2)]
  then have ok1: "procs_ok s1" "quiet s1" "only_sigterm s1" by (simp_all add: waits_def)
  define left where "left = (r = 0)"
  have run: "teardown_wait sigmask (w # ws) s = (if left \<and> \<not> sigalrm s1 \<and> \<not> spawns_empty s1
      then teardown_wait sigmask ws s1 else Inr (Some (left, s1)))"
    using s1(1) by (simp add: w s0_def left_def Let_def)
  show ?case
  proof (cases "left \<and> \<not> sigalrm s1 \<and> \<not> spawns_empty s1")
    case False
    then show ?thesis using w1 s1(3) unfolding run by (auto simp: left_def split: if_splits)
  next
    case True
    from Cons.IH [OF ok1] Cons.prems(4) obtain r2 where r2: "teardown_wait sigmask ws s1 = Inr r2"
      "\<forall>left s'. r2 = Some (left, s') \<longrightarrow> waits s1 s' \<and> (\<not> left \<longrightarrow> children s' = [])"
      "(\<exists>w \<in> set ws. SIGALRM \<in> set (fst w)) \<and> SIGALRM \<notin> sigmask
        \<and> handlers s1 SIGALRM = Some SIGALRM_HANDLER \<longrightarrow> r2 \<noteq> None" by auto
    have more: "procs.more s1 = procs.more s0"
      using reap_children_ok [OF s0(1) \<open>list_all terminated infos\<close>] s1(1) by (auto simp: steady_def)
    have "sigalrm s1 = sigalrm s0" using more by (cases s0; cases s1; simp)
    then have "SIGALRM \<notin> set signos" if "SIGALRM \<notin> sigmask" "handlers s SIGALRM = Some SIGALRM_HANDLER"
      using True deliver_all_alarm [OF _ that] by (auto simp: s0_def)
    moreover have "handlers s1 = handlers s" using control_rest(2) [OF more] s0(5) by simp
    ultimately show ?thesis using r2 waits_trans [OF w1] True unfolding run by (auto simp: w)
  qed
qed

text \<open>
  What the teardown did: every daemon was asked to finish, the others were killed if there were
  any left, nothing was started, and every socket is closed.
\<close>

definition torn_down :: "'z net_scheme \<Rightarrow> 'z net_scheme \<Rightarrow> bool" where
  "torn_down s s' \<longleftrightarrow> forks s' = forks s \<and> nodes s' = Map.empty \<and> procs_ok s' \<and> quiet s'
     \<and> set (children s') \<subseteq> set (children s)
     \<and> (\<exists>killed. sent s' = sent s @ finish_signals (heap s) (tree_preorder (spawns s)) @ killed
          \<and> (killed = [] \<and> children s' = [] \<or> killed = [(- 1, SIGKILL)]))"

lemma same_control_procs:
  "same_control s s' \<Longrightarrow> procs_but gone s' = procs_but gone s"
  "same_control s s' \<Longrightarrow> quiet s' = quiet s"
  by (simp_all add: procs_but_def quiet_def same_control_fields)

lemma procs_but_alarm:
  "procs_but gone (s\<lparr>procmask := m, handlers := h, alarm := a\<rparr>) = procs_but gone s"
  "quiet (s\<lparr>procmask := m, handlers := h, alarm := a\<rparr>) = quiet s"
  by (simp_all add: procs_but_def quiet_def)

lemma net_ok_stop_all: "net_ok (stop_all ps s) = net_ok s"
  by (simp add: stop_all_def net_ok_def)

lemma stop_everything_ok:
  assumes "procs_ok s" "net_ok s" "only_sigterm s" "SIGTERM \<in> procmask s"
    "\<forall>w \<in> set ws. list_all terminated (snd w)" "list_all terminated rest"
  shows "\<exists>r. stop_everything b ws rest s = Inr r
    \<and> (\<forall>s'. r = Some s' \<longrightarrow> sigreboot s' = sigreboot s \<and> torn_down s s' \<and> same_names s s')
    \<and> ((\<exists>w \<in> set ws. SIGALRM \<in> set (fst w)) \<and> SIGALRM \<notin> procmask s \<longrightarrow> r \<noteq> None)"
proof -
  define s1 where "s1 = stop_all (tree_preorder (spawns s)) s"
  have run1: "spawns_stop s = Inr s1" unfolding s1_def by (rule spawns_stop_all [OF assms(1)])
  have "set (tree_preorder (spawns s)) \<subseteq> dom (heap s)"
    using assms(1) by (auto simp: procs_but_def active_def set_tree_preorder)
  have net1: "net_ok s1" using assms(2) by (simp add: s1_def net_ok_stop_all)
  have quiet1: "quiet s1" unfolding s1_def by (rule quiet_stop_all [OF assms(1)])
  have f1: "forks s1 = forks s" "sigreboot s1 = sigreboot s"
    "children s1 = children s" "handlers s1 = handlers s" "procmask s1 = procmask s"
    "sent s1 = sent s @ finish_signals (heap s) (tree_preorder (spawns s))"
    by (simp_all add: s1_def stop_all_def)
  have ok1: "procs_ok s1" unfolding s1_def by (rule procs_ok_stop_all [OF assms(1)])
  from socket_switch_teardown_ok [OF net1] obtain s2 where
    s2: "socket_switch_teardown s1 = Inr s2" "same_control s1 s2" "nodes s2 = Map.empty" by blast
  note f2 = same_control_fields [OF s2(2)]
  define sigmask where "sigmask = procmask s2 - {SIGCHLD}"
  define s3 where "s3 = s2\<lparr>procmask := procmask s2 \<union> {SIGALRM},
    handlers := (handlers s2)(SIGALRM \<mapsto> SIGALRM_HANDLER), alarm := Some (CONFIG_REBOOT_TIMEOUT b)\<rparr>"
  have al: "signals_alarm (CONFIG_REBOOT_TIMEOUT b) s2 = (sigmask, s3)"
    by (simp add: signals_alarm_def sigmask_def s3_def)
  have mask: "SIGTERM \<in> sigmask" "SIGALRM \<notin> procmask s \<Longrightarrow> SIGALRM \<notin> sigmask"
    using assms(4) f2(13) f1(5) by (simp_all add: sigmask_def SIGTERM_def SIGCHLD_def)
  have "same_names s s1" by (simp add: s1_def stop_all_def same_names_def same_name_def stopped_element_def option.map_comp comp_def)
  moreover have "same_names s1 s3" using f2 by (simp add: s3_def)
  ultimately have names3: "same_names s s3" by (rule same_names_trans)
  have ok3: "procs_ok s3" "quiet s3"
    using ok1 quiet1 same_control_procs [OF s2(2)] by (simp_all add: s3_def procs_but_alarm)
  have s3: "handlers s3 SIGALRM = Some SIGALRM_HANDLER" "only_sigterm s3"
    "forks s3 = forks s" "children s3 = children s" "sent s3 = sent s1" "sigreboot s3 = sigreboot s"
    "nodes s3 = Map.empty"
    using f2 f1 s2(3) assms(3) by (simp_all add: s3_def only_sigterm_def)
  from teardown_wait_ok [OF ok3 s3(2) mask(1) assms(5)] obtain r where
    r: "teardown_wait sigmask ws s3 = Inr r"
      "\<forall>left s'. r = Some (left, s') \<longrightarrow> waits s3 s' \<and> (\<not> left \<longrightarrow> children s' = [])"
      "(\<exists>w \<in> set ws. SIGALRM \<in> set (fst w)) \<and> SIGALRM \<notin> sigmask
        \<and> handlers s3 SIGALRM = Some SIGALRM_HANDLER \<longrightarrow> r \<noteq> None" by blast
  have run: "stop_everything b ws rest s = (case r of
      None \<Rightarrow> Inr None
    | Some (left, s) \<Rightarrow>
        rbind (if left then
                 rbind (reap_children rest (kill (- 1) SIGKILL s)) (\<lambda>(_, s). Inr s)
               else Inr s) (\<lambda>s. Inr (Some s)))"
    using run1 s2(1) al r(1) by (simp add: stop_everything_def)
  show ?thesis
  proof (cases r)
    case None
    then show ?thesis using r(3) s3(1) mask(2) unfolding run by auto
  next
    case (Some ls)
    obtain left s4 where ls: "ls = (left, s4)" by (cases ls)
    from r(2) Some ls have w: "waits s3 s4" "\<not> left \<longrightarrow> children s4 = []" by auto
    then have more: "nodes s4 = Map.empty" using s3(7) by (cases s3; cases s4; simp add: waits_def)
    show ?thesis
    proof (cases left)
      case False
      then have "torn_down s s4"
        using w s3 more f1(6) by (simp add: torn_down_def waits_def)
      moreover have "same_names s s4" using w(1) by (auto simp: waits_def intro: same_names_trans [OF names3])
      ultimately show ?thesis using False w s3(6) Some ls unfolding run by (simp add: waits_def)
    next
      case True
      define s5 where "s5 = kill (- 1) SIGKILL s4"
      have s5: "procs_ok s5" "quiet s5" "only_sigterm s5" "sigreboot s5 = sigreboot s" "nodes s5 = Map.empty"
        "forks s5 = forks s" "set (children s5) \<subseteq> set (children s)" "sent s5 = sent s1 @ [(- 1, SIGKILL)]"
        using w(1) s3 more by (simp_all add: s5_def kill_def waits_def quiet_def only_sigterm_def)
      from reap_children_waits [OF s5(1-3) assms(6)] obtain q s6 where
        s6: "reap_children rest s5 = Inr (q, s6)" "waits s5 s6" by blast
      then have "nodes s6 = Map.empty" using s5(5) by (cases s5; cases s6; simp add: waits_def)
      then have "torn_down s s6"
        using s6(2) s5 f1(6) by (auto simp: torn_down_def waits_def)
      moreover have "same_names s3 s4" "same_names s4 s5" "same_names s5 s6"
        using w(1) s6(2) by (simp_all add: waits_def s5_def kill_def)
      then have "same_names s s6" using names3 same_names_trans by blast
      ultimately show ?thesis using True s6 s5(4) Some ls unfolding run by (simp add: waits_def flip: s5_def)
    qed
  qed
qed

text \<open>
  The cleanup frees every daemon; with the last one the storage of the processes is empty, so no
  node of it is left to free.
\<close>

lemma cleanup_ok:
  fixes s :: "'z store_scheme"
  assumes "store_ok s"
  shows "\<exists>s'. cleanup s = Inr s' \<and> heap s' = Map.empty \<and> spawns s' = NULL \<and> procs_ok s'
    \<and> children s' = children s \<and> sent s' = sent s \<and> forks s' = forks s \<and> store.more s' = store.more s"
proof -
  have ok: "procs_ok s" "named_ok (heap s) (daemons s)" "dom (heap s) = set_tree_node (daemons s)"
    using assms by (auto simp: reload_ok_def)
  from destroy_tree_ok [OF ok(1,2)] obtain s' where
    s': "configuration_cleanup s = Inr s'" "procs_ok s'" "heap s' = heap s |` (- set_tree_node (daemons s))"
      "store.more s' = store.more s" "sent s' = sent s" "children s' = children s" "forks s' = forks s"
    by (auto simp: configuration_cleanup_def)
  have "heap s' = Map.empty" using s'(3) by (auto simp: restrict_map_def fun_eq_iff simp flip: ok(3))
  moreover from this have "set_tree_node (spawns s') = {}" using s'(2) by (simp add: procs_but_def active_def)
  then have "spawns s' = NULL" by (cases "spawns s'") simp_all
  ultimately show ?thesis using s' by (simp add: cleanup_def)
qed

lemma teardown_ok:
  assumes "store_ok s" "net_ok s" "only_sigterm s" "SIGTERM \<in> procmask s"
    "\<forall>w \<in> set ws. list_all terminated (snd w)" "list_all terminated rest"
  shows "\<exists>r. teardown b ws rest s = Inr r
    \<and> (\<forall>v s'. r = Some (v, s') \<longrightarrow> v = sigreboot s \<and> torn_down s s'
          \<and> (\<not> NDEBUG b \<longrightarrow> heap s' = Map.empty \<and> spawns s' = NULL))
    \<and> ((\<exists>w \<in> set ws. SIGALRM \<in> set (fst w)) \<and> SIGALRM \<notin> procmask s \<longrightarrow> r \<noteq> None)"
proof -
  have "procs_ok s" using assms(1) by (simp add: reload_ok_def)
  from stop_everything_ok [OF this assms(2-6), of b] obtain r where
    r: "stop_everything b ws rest s = Inr r"
      "\<forall>s'. r = Some s' \<longrightarrow> sigreboot s' = sigreboot s \<and> torn_down s s' \<and> same_names s s'"
      "(\<exists>w \<in> set ws. SIGALRM \<in> set (fst w)) \<and> SIGALRM \<notin> procmask s \<longrightarrow> r \<noteq> None" by blast
  show ?thesis
  proof (cases r)
    case None
    then show ?thesis using r by (simp add: teardown_def)
  next
    case (Some s1)
    with r(2) have s1: "sigreboot s1 = sigreboot s" "torn_down s s1" "same_names s s1" by auto
    have "store_ok s1" by (rule store_ok_same_names [OF assms(1) s1(3)]) (use s1(2) in \<open>simp add: torn_down_def\<close>)
    from cleanup_ok [OF this] obtain s2 where s2: "cleanup s1 = Inr s2" "heap s2 = Map.empty" "spawns s2 = NULL"
      "procs_ok s2" "children s2 = children s1" "sent s2 = sent s1" "forks s2 = forks s1"
      "store.more s2 = store.more s1" by blast
    have rest: "sigreboot s2 = sigreboot s1" "nodes s2 = nodes s1"
      using s2(8) by (cases s1; cases s2; simp)+
    have "torn_down s s2" using s1(2) s2 rest by (simp add: torn_down_def quiet_def)
    then show ?thesis using r(1) Some s1(1,2) s2(1-3) rest(1) by (cases "NDEBUG b") (simp_all add: teardown_def)
  qed
qed

section \<open>Setup\<close>

text \<open>The state the program is started in: it may have children, and its descriptors are few.\<close>

definition booted :: "'z net_scheme \<Rightarrow> bool" where
  "booted s \<longleftrightarrow> heap s = Map.empty \<and> spawns s = NULL \<and> daemons s = NULL
     \<and> (\<forall>pid \<in> set (children s). 0 < pid \<and> pid < PID_MAX) \<and> distinct (children s)
     \<and> nodes s = Map.empty \<and> snodes s = NULL \<and> activeset s = {}
     \<and> (\<forall>fd \<in> set (new_fds s). fd < FD_SETSIZE)
     \<and> handlers s = Map.empty \<and> sigreboot s = 0"

lemma switch_setup_create:
  "socket_switch_setup mkdir_ok path root s =
     (if mkdir_ok then create_endpoint root CAPSET_ALL (s\<lparr>socket_endpoints_path := path\<rparr>)
      else Inr (s\<lparr>socket_endpoints_path := path\<rparr>))"
  by (simp add: socket_switch_setup_def create_endpoint_def Let_def)

lemma net_ok_path: "net_ok (s\<lparr>socket_endpoints_path := x\<rparr>) = net_ok s"
  by (simp add: net_ok_def)

lemma switch_setup_ok:
  assumes "net_ok s"
  shows "\<exists>s'. socket_switch_setup mkdir_ok path root s = Inr s' \<and> net_ok s' \<and> same_control s s'"
proof -
  define s0 where "s0 = s\<lparr>socket_endpoints_path := path\<rparr>"
  have s0: "net_ok s0" "same_control s s0"
    using assms by (simp_all add: s0_def net_ok_path same_control_def control.defs)
  from create_endpoint_ok [OF s0(1) within_refl, of root] obtain s1 where
    "create_endpoint root CAPSET_ALL s0 = Inr s1" "net_ok s1" "same_control s0 s1" by blast
  then show ?thesis using s0 same_control_trans [OF s0(2)]
    by (auto simp: switch_setup_create simp flip: s0_def)
qed

lemma run_commands_ok:
  assumes "procs_ok s" "spawns s = NULL" "heap s rc_frame = None" "list_all (list_all terminated) batches"
  shows "\<exists>r. run_commands batches s = Inr r
    \<and> (\<forall>s'. r = Some s' \<longrightarrow> procs_ok s' \<and> spawns s' = NULL \<and> heap s' = heap s
          \<and> (\<exists>c. procs.more s' = procs.more (s\<lparr>sigchld := c\<rparr>)))
    \<and> (fst (fork s) = - 1 \<or> fst (fork s) \<in> reported batches \<longrightarrow> r \<noteq> None)"
proof -
  from rc_ok [OF assms] obtain r where r: "rc batches s = Inr r"
    "\<forall>s'. r = Some s' \<longrightarrow> procs_ok s' \<and> spawns s' = NULL \<and> heap s' = heap s"
    "fst (fork s) = - 1 \<or> fst (fork s) \<in> reported batches \<longrightarrow> r \<noteq> None" by blast
  show ?thesis
  proof (cases r)
    case None
    then show ?thesis using r by (simp add: run_commands_def)
  next
    case (Some s1)
    then have more: "procs.more s1 = procs.more s" using rc_more [of batches s s1] r(1) by simp
    define s2 where "s2 = (if fst (fork s) = - 1 then s1 else s1\<lparr>sigchld := False\<rparr>)"
    have "\<exists>c. procs.more s2 = procs.more (s\<lparr>sigchld := c\<rparr>)"
      using more unfolding s2_def by (cases s; cases s1) (auto intro: exI [of _ "sigchld s"] exI [of _ False])
    moreover have "procs_ok s2" "spawns s2 = NULL" "heap s2 = heap s"
      using r(2) Some by (auto simp: s2_def procs_but_def)
    ultimately show ?thesis using r(1) Some by (simp add: run_commands_def s2_def)
  qed
qed

text \<open>The run commands where there are any.\<close>

definition rc_reported :: "build \<Rightarrow> siginfo list list \<Rightarrow> 'z procs_scheme \<Rightarrow> bool" where
  "rc_reported b batches s \<longleftrightarrow> CONFIG_RC_PATH b = None \<or> fst (fork s) = - 1 \<or> fst (fork s) \<in> reported batches"

lemma optional_rc_ok:
  assumes "procs_ok s" "spawns s = NULL" "heap s rc_frame = None" "list_all (list_all terminated) batches"
  shows "\<exists>r. (case CONFIG_RC_PATH b of None \<Rightarrow> Inr (Some s) | Some path \<Rightarrow> run_commands batches s) = Inr r
    \<and> (\<forall>s'. r = Some s' \<longrightarrow> procs_ok s' \<and> spawns s' = NULL \<and> heap s' = heap s
          \<and> (\<exists>c. procs.more s' = procs.more (s\<lparr>sigchld := c\<rparr>)))
    \<and> (rc_reported b batches s \<longrightarrow> r \<noteq> None)"
proof (cases "CONFIG_RC_PATH b")
  case None
  have "\<exists>c. procs.more s = procs.more (s\<lparr>sigchld := c\<rparr>)" by (rule exI [of _ "sigchld s"]) simp
  then show ?thesis using None assms(1,2) by simp
next
  case (Some path)
  then show ?thesis using run_commands_ok [OF assms] by (auto simp: rc_reported_def)
qed

lemma main_setup_ok:
  assumes "booted s" "list_all (list_all terminated) batches"
    "\<forall>entries. fs (CONFIG_CONFIGURATION_PATH b) = Some entries \<longrightarrow> entries_ok lc below entries"
  shows "\<exists>r. main_setup b lc below fs mkdir_ok batches s = Inr r
    \<and> (\<forall>sigmask s'. r = Some (sigmask, s') \<longrightarrow> running s' \<and> sigmask = {} \<and> sigreboot s' = 0
          \<and> configuration_path s' = CONFIG_CONFIGURATION_PATH b)
    \<and> (rc_reported b batches s \<longrightarrow> r \<noteq> None)"
proof -
  obtain sigmask s1 where sig: "signals_setup s = (sigmask, s1)" by fastforce
  have s1: "net_ok s1" "signals_ok s1" "sigmask = {}" "sigreboot s1 = 0" "procs_ok s1" "spawns s1 = NULL"
    "heap s1 = Map.empty" "daemons s1 = NULL" "forks s1 = forks s" "children s1 = children s"
    using sig assms(1)
    by (auto simp: signals_setup_def booted_def net_ok_def signals_ok_def only_sigterm_def reboot_value_def
        procs_but_def active_def SIGTERM_def SIGCHLD_def SIGHUP_def SIGALRM_def split: if_splits)
  from switch_setup_ok [OF s1(1)] obtain s2 where
    s2: "socket_switch_setup mkdir_ok (CONFIG_SOCKET_ENDPOINTS_PATH b) (CONFIG_SOCKET_ENDPOINTS_ROOT b) s1
      = Inr s2" "net_ok s2" "same_control s1 s2" by blast
  note f2 = same_control_fields [OF s2(3)]
  have fork2: "fst (fork s2) = fst (fork s)" using f2 s1(9,10)
    by (cases "forks s") (simp_all add: fork_def)
  have p2: "procs_ok s2" "spawns s2 = NULL" "heap s2 rc_frame = None"
    using s1 f2 same_control_procs(1) [OF s2(3)] by simp_all
  from optional_rc_ok [OF p2 assms(2), of b] obtain r where
    r: "(case CONFIG_RC_PATH b of None \<Rightarrow> Inr (Some s2) | Some path \<Rightarrow> run_commands batches s2) = Inr r"
      "\<forall>s'. r = Some s' \<longrightarrow> procs_ok s' \<and> spawns s' = NULL \<and> heap s' = heap s2
          \<and> (\<exists>c. procs.more s' = procs.more (s2\<lparr>sigchld := c\<rparr>))"
      "rc_reported b batches s \<longrightarrow> r \<noteq> None" unfolding rc_reported_def fork2 by blast
  have run: "main_setup b lc below fs mkdir_ok batches s = (case r of
      None \<Rightarrow> Inr None
    | Some s \<Rightarrow> rbind (configuration_load lc below fs (CONFIG_CONFIGURATION_PATH b) s) (\<lambda>s.
        Inr (Some (sigmask, s))))"
    using sig s2(1) r(1) by (simp add: main_setup_def)
  show ?thesis
  proof (cases r)
    case None
    then show ?thesis using r(3) run by simp
  next
    case (Some s3)
    with r(2) obtain c where s3: "procs_ok s3" "heap s3 = Map.empty"
      "procs.more s3 = procs.more (s2\<lparr>sigchld := c\<rparr>)" using f2(1) s1(7) by auto
    have n3: "net_ok s3" "daemons s3 = NULL" "signals_ok s3" "sigreboot s3 = 0"
      using net_rest(2,5) [OF s3(3)] s2(2) f2 s1(2,4,8) same_rest_signals [OF net_rest(5) [OF s3(3)]]
        signals_ok_cong [OF f2(14,13,9)] by (simp_all add: same_rest_def)
    have st3: "store_ok s3" using s3(1,2) n3(2) by (simp add: reload_ok_def)
    have "\<exists>s4. configuration_load lc below fs (CONFIG_CONFIGURATION_PATH b) s3 = Inr s4 \<and> store_ok s4
      \<and> configuration_path s4 = CONFIG_CONFIGURATION_PATH b \<and> store.more s4 = store.more s3"
    proof (cases "fs (CONFIG_CONFIGURATION_PATH b)")
      case None
      then show ?thesis using st3 by (simp add: configuration_load_def reload_ok_def)
    next
      case (Some entries)
      from configuration_load_ok [of s3 fs "CONFIG_CONFIGURATION_PATH b" entries lc below,
          OF st3 n3(2) Some] assms(3) Some show ?thesis by blast
    qed
    then obtain s4 where s4: "configuration_load lc below fs (CONFIG_CONFIGURATION_PATH b) s3 = Inr s4"
      "store_ok s4" "configuration_path s4 = CONFIG_CONFIGURATION_PATH b" "store.more s4 = store.more s3"
      by blast
    note rest = store_more_rest [OF s4(4)]
    have "running s4" using s4(2) n3 rest by (simp add: running_def)
    then show ?thesis using run Some s4(1,3) s1(3) rest(2) n3(4) by simp
  qed
qed

section \<open>The program\<close>

definition reports_ok :: "(int list \<times> siginfo list) list \<Rightarrow> siginfo list \<Rightarrow> bool" where
  "reports_ok ws rest \<longleftrightarrow> (\<forall>w \<in> set ws. list_all terminated (snd w)) \<and> list_all terminated rest"

text \<open>
  Why the program still waits: the run commands were not reported, no wakeup asked for a reboot,
  or the alarm of the teardown did not ring.
\<close>

definition waiting ::
  "build \<Rightarrow> libc \<Rightarrow> char result \<Rightarrow> directories \<Rightarrow> bool \<Rightarrow> siginfo list list \<Rightarrow> wakeup list \<Rightarrow>
     (int list \<times> siginfo list) list \<Rightarrow> 'z net_scheme \<Rightarrow> bool" where
  "waiting b lc below fs mkdir_ok batches wakeups ws s \<longleftrightarrow> \<not> rc_reported b batches s
     \<or> (\<exists>sigmask s1 s2. main_setup b lc below fs mkdir_ok batches s = Inr (Some (sigmask, s1))
          \<and> main_loop lc below sigmask wakeups s1 = Inr (False, s2))
     \<or> (\<forall>w \<in> set ws. SIGALRM \<notin> set (fst w))"

lemma main_program_ok:
  assumes "booted s" "list_all (list_all terminated) batches"
    "\<forall>entries. fs (CONFIG_CONFIGURATION_PATH b) = Some entries \<longrightarrow> entries_ok lc below entries"
    "\<forall>w \<in> set wakeups. wakeup_ok lc below (CONFIG_CONFIGURATION_PATH b) w" "reports_ok ws rest"
  shows "main_program b lc below fs mkdir_ok batches wakeups ws rest s \<in> {Inl Out_of_bounds, Inl Shift_overflow}
    \<or> main_program b lc below fs mkdir_ok batches wakeups ws rest s = Inr None
        \<and> waiting b lc below fs mkdir_ok batches wakeups ws s
    \<or> (\<exists>s1 s'. main_program b lc below fs mkdir_ok batches wakeups ws rest s = Inr (Some (sigreboot s1, s'))
          \<and> running s1 \<and> sigreboot s1 \<in> {RB_AUTOBOOT, RB_HALT_SYSTEM, RB_POWER_OFF}
          \<and> torn_down s1 s' \<and> (\<not> NDEBUG b \<longrightarrow> heap s' = Map.empty \<and> spawns s' = NULL))"
proof -
  from main_setup_ok [of s batches fs b lc below mkdir_ok, OF assms(1-3)] obtain r where
    r: "main_setup b lc below fs mkdir_ok batches s = Inr r"
      "\<forall>sigmask s'. r = Some (sigmask, s') \<longrightarrow> running s'
          \<and> configuration_path s' = CONFIG_CONFIGURATION_PATH b"
      "rc_reported b batches s \<longrightarrow> r \<noteq> None" by blast
  show ?thesis
  proof (cases r)
    case None
    then show ?thesis using r by (simp add: main_program_def waiting_def)
  next
    case (Some mask_s)
    then obtain sigmask s1 where s1: "r = Some (sigmask, s1)" "running s1"
      "configuration_path s1 = CONFIG_CONFIGURATION_PATH b" using r(2) by (cases mask_s) auto
    have "\<forall>w \<in> set wakeups. wakeup_ok lc below (configuration_path s1) w" using assms(4) s1(3) by simp
    from main_loop_ok [of s1 wakeups lc below sigmask, OF s1(2) this] show ?thesis
    proof (elim disjE exE conjE)
      assume "main_loop lc below sigmask wakeups s1 \<in> {Inl Out_of_bounds, Inl Shift_overflow}"
      then show ?thesis using r(1) s1(1) by (auto simp: main_program_def)
    next
      fix stop s2
      assume s2: "main_loop lc below sigmask wakeups s1 = Inr (stop, s2)" "running s2"
        "stop \<longrightarrow> sigreboot s2 \<noteq> 0"
      show ?thesis
      proof (cases stop)
        case False
        then show ?thesis using r(1) s1(1) s2(1) by (auto simp: main_program_def waiting_def)
      next
        case True
        have ok: "store_ok s2" "net_ok s2" "only_sigterm s2" "SIGTERM \<in> procmask s2" "SIGALRM \<notin> procmask s2"
          "reboot_value (sigreboot s2)"
          using s2(2) by (simp_all add: running_def reload_ok_def signals_ok_def)
        have reports: "\<forall>w \<in> set ws. list_all terminated (snd w)" "list_all terminated rest"
          using assms(5) by (auto simp: reports_ok_def)
        have howto: "sigreboot s2 \<in> {RB_AUTOBOOT, RB_HALT_SYSTEM, RB_POWER_OFF}"
          using s2(3) True ok(6) by (auto simp: reboot_value_def)
        from teardown_ok [OF ok(1-4) reports, of b] obtain q where
          q: "teardown b ws rest s2 = Inr q"
            "\<forall>v s'. q = Some (v, s') \<longrightarrow> v = sigreboot s2 \<and> torn_down s2 s'
               \<and> (\<not> NDEBUG b \<longrightarrow> heap s' = Map.empty \<and> spawns s' = NULL)"
            "(\<exists>w \<in> set ws. SIGALRM \<in> set (fst w)) \<and> SIGALRM \<notin> procmask s2 \<longrightarrow> q \<noteq> None" by blast
        have run: "main_program b lc below fs mkdir_ok batches wakeups ws rest s = Inr q"
          using r(1) s1(1) s2(1) True q(1) by (simp add: main_program_def)
        show ?thesis
        proof (cases q)
          case None
          then show ?thesis using run q(3) ok(5) by (auto simp: waiting_def)
        next
          case (Some vs)
          then show ?thesis using run q(2) s2(2) howto by (cases vs) auto
        qed
      qed
    qed
  qed
qed

section \<open>A request ends the loop\<close>

text \<open>
  The value a pending \<^verbatim>\<open>SIGTERM\<close> carries is one of the three, or the signal is a plain one.
\<close>

definition request_pending :: "'z control_scheme \<Rightarrow> bool" where
  "request_pending s \<longleftrightarrow>
     (\<forall>info. pending_sigterm s = Some info \<longrightarrow> fst info \<noteq> SI_QUEUE
        \<or> snd info \<in> {RB_AUTOBOOT, RB_HALT_SYSTEM, RB_POWER_OFF})"

lemma reboot_constants: "RB_AUTOBOOT \<noteq> 0" "RB_HALT_SYSTEM \<noteq> 0" "RB_POWER_OFF \<noteq> 0"
  by (simp_all add: RB_AUTOBOOT_def RB_HALT_SYSTEM_def RB_POWER_OFF_def)

lemma deliver_keeps_request: "sigreboot s \<noteq> 0 \<Longrightarrow> sigreboot (deliver blocked signo s) \<noteq> 0"
  using reboot_constants
  by (auto simp: deliver_def sigterm_handler_def sigchld_handler_def sighup_handler_def
      sigalrm_handler_def Let_def split: option.splits handler.splits prod.splits)

lemma deliver_all_keeps_request: "sigreboot s \<noteq> 0 \<Longrightarrow> sigreboot (deliver_all blocked signos s) \<noteq> 0"
  by (induction signos arbitrary: s) (simp add: deliver_all_def, simp add: deliver_all_Cons deliver_keeps_request)

lemma deliver_request:
  assumes "request_pending s" "handlers s SIGTERM = Some SIGTERM_HANDLER" "SIGTERM \<notin> blocked"
  shows "sigreboot (deliver blocked SIGTERM s) \<noteq> 0"
  using assms reboot_constants
  by (auto simp: deliver_def sigterm_handler_def request_pending_def SI_USER_def SI_QUEUE_def
      split: option.splits prod.splits)

lemma deliver_other_pending:
  assumes "only_sigterm s" "signo \<noteq> SIGTERM"
  shows "pending_sigterm (deliver blocked signo s) = pending_sigterm s"
  using assms
  by (auto simp: deliver_def only_sigterm_def sigchld_handler_def sighup_handler_def
      sigalrm_handler_def split: option.splits handler.splits)

lemma deliver_all_request:
  assumes "SIGTERM \<in> set signos" "request_pending s" "handlers s SIGTERM = Some SIGTERM_HANDLER"
    "only_sigterm s" "SIGTERM \<notin> blocked"
  shows "sigreboot (deliver_all blocked signos s) \<noteq> 0"
  using assms(1-4)
proof (induction signos arbitrary: s)
  case (Cons signo signos)
  show ?case
  proof (cases "signo = SIGTERM")
    case True
    then show ?thesis
      using deliver_request [OF Cons.prems(2,3) assms(5)] by (simp add: deliver_all_Cons deliver_all_keeps_request)
  next
    case False
    have "request_pending (deliver blocked signo s)"
      using Cons.prems(2) deliver_other_pending [OF Cons.prems(4) False] by (simp add: request_pending_def)
    then show ?thesis
      using Cons.IH [of "deliver blocked signo s"] Cons.prems False
      by (simp add: deliver_all_Cons deliver_store only_sigterm_def)
  qed
qed simp

text \<open>A wakeup whose signals record a value ends the loop with this value.\<close>

lemma interrupted_ends_loop:
  assumes "running s" "wakeup_ok lc below (configuration_path s) (Interrupted signos infos fs)"
    "sigreboot (deliver_all sigmask signos (s\<lparr>readset := activeset s\<rparr>)) = v" "v \<noteq> 0"
  shows "\<exists>s'. main_loop lc below sigmask (Interrupted signos infos fs # ws) s = Inr (True, s')
    \<and> running s' \<and> sigreboot s' = v"
proof -
  define s0 where "s0 = s\<lparr>readset := activeset s\<rparr>"
  define s1 where "s1 = deliver_all sigmask signos s0"
  from prepare_ok [OF assms(1)] obtain nfds where
    prep: "socket_switch_prepare s = Inr (nfds, s0)" unfolding s0_def by blast
  have s0: "running s0" using assms(1) by (simp add: s0_def)
  have s1: "running s1" "configuration_path s1 = configuration_path s" "sigreboot s1 = v"
    using deliver_all_running [OF s0] assms(3) by (simp_all add: s1_def deliver_all_path) (simp_all add: s0_def)
  have infos: "list_all terminated infos"
    "\<forall>entries. fs (configuration_path s1) = Some entries \<longrightarrow> entries_ok lc below entries"
    using assms(2) s1(2) by (simp_all add: wakeup_ok_def)
  from handle_signals_ok [of s1 infos fs lc below, OF s1(1) infos] obtain s2 where
    s2: "handle_signals lc below infos fs s1 = Inr s2" "running s2" "sigreboot s2 = v"
    using s1(3) by metis
  have "main_iteration lc below sigmask (Interrupted signos infos fs) s = Inr s2"
    using prep s2(1) by (simp add: main_iteration_def s1_def)
  then show ?thesis using s2 assms(4) by simp
qed

lemma request_ends_loop:
  assumes "running s" "wakeup_ok lc below (configuration_path s) (Interrupted signos infos fs)"
    "SIGTERM \<in> set signos" "SIGTERM \<notin> sigmask" "handlers s SIGTERM = Some SIGTERM_HANDLER" "request_pending s"
  shows "\<exists>s'. main_loop lc below sigmask (Interrupted signos infos fs # ws) s = Inr (True, s')
    \<and> running s' \<and> sigreboot s' \<in> {RB_AUTOBOOT, RB_HALT_SYSTEM, RB_POWER_OFF}"
proof -
  define s0 where "s0 = s\<lparr>readset := activeset s\<rparr>"
  have s0: "handlers s0 SIGTERM = Some SIGTERM_HANDLER" "request_pending s0" "only_sigterm s0"
    using assms(1,5,6) by (simp_all add: s0_def running_def signals_ok_def request_pending_def only_sigterm_def)
  have ends: "sigreboot (deliver_all sigmask signos (s\<lparr>readset := activeset s\<rparr>)) \<noteq> 0"
    using deliver_all_request [OF assms(3) s0(2,1,3) assms(4)] unfolding s0_def .
  show ?thesis
  proof (rule exE [OF interrupted_ends_loop [OF assms(1,2) refl ends]], elim conjE, intro exI conjI)
    fix s'
    assume "running s'" "sigreboot s' = sigreboot (deliver_all sigmask signos (s\<lparr>readset := activeset s\<rparr>))"
    then have "reboot_value (sigreboot s')" "sigreboot s' \<noteq> 0"
      using ends by (simp_all add: running_def signals_ok_def)
    then show "sigreboot s' \<in> {RB_AUTOBOOT, RB_HALT_SYSTEM, RB_POWER_OFF}" by (simp add: reboot_value_def)
  qed assumption+
qed

end
