(* ===== verification/Cyberctl.thy ===== *)
theory Cyberctl
  imports Connection
begin

unbundle bit_operations_syntax

text \<open>
  The control client, \<^verbatim>\<open>src/cyberctl.c\<close>: the command line it accepts and the message it
  writes to an endpoint.
\<close>

section \<open>The command line\<close>

text \<open>
  \<^verbatim>\<open>getopt(3)\<close>: options are read up to the first argument that is none, or up to \<^verbatim>\<open>--\<close>. The
  specification gives for each letter whether it has an operand. The results are the calls in
  order and the arguments from \<^verbatim>\<open>optind\<close> on.
\<close>

datatype option_event =
    Option char "string option"
  | Missing_operand char
  | Unrecognized char

type_synonym option_spec = "char \<Rightarrow> bool option"

function (sequential) getopt_word :: "option_spec \<Rightarrow> string \<Rightarrow> string list \<Rightarrow> option_event list \<times> string list"
  and getopt_args :: "option_spec \<Rightarrow> string list \<Rightarrow> option_event list \<times> string list" where
  "getopt_word spec [] args = getopt_args spec args"
| "getopt_word spec (c # cs) args =
     (case spec c of
        None \<Rightarrow> let (events, rest) = getopt_word spec cs args in (Unrecognized c # events, rest)
      | Some False \<Rightarrow> let (events, rest) = getopt_word spec cs args in (Option c None # events, rest)
      | Some True \<Rightarrow>
          if cs \<noteq> [] then let (events, rest) = getopt_args spec args in (Option c (Some cs) # events, rest)
          else case args of
                 [] \<Rightarrow> ([Missing_operand c], [])
               | a # args \<Rightarrow> let (events, rest) = getopt_args spec args in (Option c (Some a) # events, rest))"
| "getopt_args spec [] = ([], [])"
| "getopt_args spec (a # args) =
     (if a = ''--'' then ([], args)
      else if length a > 1 \<and> hd a = CHR ''-'' then getopt_word spec (tl a) args
      else ([], a # args))"
  by pat_completeness auto
termination
  by (relation "measure (\<lambda>x. case x of
      Inl (spec, cs, args) \<Rightarrow> 2 * (length cs + (\<Sum>a \<leftarrow> args. length a + 1)) + 1
    | Inr (spec, args) \<Rightarrow> 2 * (\<Sum>a \<leftarrow> args. length a + 1))") auto

text \<open>The last part of a path, as \<^verbatim>\<open>basename(3)\<close> gives it.\<close>

definition basename :: "string \<Rightarrow> string" where
  "basename path =
     (if path = [] then ''.''
      else let trimmed = rev (dropWhile (\<lambda>c. c = CHR ''/'') (rev path))
           in if trimmed = [] then ''/'' else rev (takeWhile (\<lambda>c. c \<noteq> CHR ''/'') (rev trimmed)))"

section \<open>Commands\<close>

text \<open>\<^verbatim>\<open>COMMAND\<close> counts the trailing zeros of the capability of a command.\<close>

definition COMMAND :: "capset \<Rightarrow> nat" where
  "COMMAND capability = length (takeWhile (\<lambda>n. \<not> bit capability n) [0..<32])"

definition commands :: "(nat \<times> string) list" where
  "commands =
     [(COMMAND CAPABILITY_ENDPOINT_CREATE, ''create-endpoint''),
      (COMMAND CAPABILITY_DAEMON_START, ''start''),
      (COMMAND CAPABILITY_DAEMON_STOP, ''stop''),
      (COMMAND CAPABILITY_DAEMON_RELOAD, ''reload''),
      (COMMAND CAPABILITY_DAEMON_END, ''end''),
      (COMMAND CAPABILITY_SYSTEM_POWEROFF, ''poweroff''),
      (COMMAND CAPABILITY_SYSTEM_HALT, ''halt''),
      (COMMAND CAPABILITY_SYSTEM_REBOOT, ''reboot''),
      (COMMAND CAPABILITY_SYSTEM_SUSPEND, ''suspend'')]"

text \<open>The loop of \<^verbatim>\<open>initctl_command_id\<close> from an index on.\<close>

function command_loop :: "string \<Rightarrow> nat \<Rightarrow> nat" where
  "command_loop command i =
     (if i < length commands \<and> strcmp (the (map_of commands i)) command \<noteq> 0
      then command_loop command (i + 1) else i)"
  by pat_completeness auto
termination
  by (relation "measure (\<lambda>(command, i). length commands - i)") auto

declare command_loop.simps [simp del]

definition initctl_command_id :: "string \<Rightarrow> nat" where
  "initctl_command_id command = command_loop command 0"

section \<open>Messages\<close>

text \<open>
  The system the client runs on, and its build configuration. The result of the program is its
  failure, or the bytes written to the socket at a path.
\<close>

record client =
  ENDPOINTS_PATH :: string
  ENDPOINTS_ROOT :: string
  socket_succeeds :: bool
  connect_succeeds :: "string \<Rightarrow> bool"
  write_succeeds :: bool

datatype outcome = Exit_failure | Aborted | Written string "char list"

definition htonl :: "uint32 \<Rightarrow> uint32" where
  "htonl w = ntohl w"

text \<open>The representation of a word in memory, on a little endian machine.\<close>

definition word_bytes :: "uint32 \<Rightarrow> char list" where
  "word_bytes w = map (\<lambda>i. char_of (unat (drop_bit (8 * i) w AND 0xff))) [0..<4]"

definition initctl_open :: "client \<Rightarrow> string \<Rightarrow> string option" where
  "initctl_open cl endpoint =
     (if \<not> socket_succeeds cl then None
      else let path = ENDPOINTS_PATH cl @ ''/'' @ endpoint
           in if length path \<ge> SOCKADDR_UN_MAXLEN then None
              else if \<not> connect_succeeds cl path then None else Some path)"

definition write_message :: "client \<Rightarrow> string \<Rightarrow> char list \<Rightarrow> outcome" where
  "write_message cl endpoint message =
     (case initctl_open cl endpoint of
        None \<Rightarrow> Exit_failure
      | Some path \<Rightarrow> if write_succeeds cl then Written path message else Exit_failure)"

definition initctl_endpoint_create :: "client \<Rightarrow> string \<Rightarrow> nat \<Rightarrow> capset \<Rightarrow> string \<Rightarrow> outcome" where
  "initctl_endpoint_create cl endpoint cid caps name =
     write_message cl endpoint (char_of cid # word_bytes (htonl caps) @ name @ [NUL])"

definition initctl_daemon :: "client \<Rightarrow> string \<Rightarrow> nat \<Rightarrow> string \<Rightarrow> outcome" where
  "initctl_daemon cl endpoint cid name = write_message cl endpoint (char_of cid # name @ [NUL])"

definition initctl_system :: "client \<Rightarrow> string \<Rightarrow> nat \<Rightarrow> outcome" where
  "initctl_system cl endpoint cid = write_message cl endpoint [char_of cid]"

section \<open>The programs\<close>

text \<open>Options that are not recognized end the program; \<open>f\<close> is what an option does.\<close>

fun handle_options :: "(char \<Rightarrow> string option \<Rightarrow> 'a \<Rightarrow> 'a) \<Rightarrow> option_event list \<Rightarrow> 'a \<Rightarrow> 'a option" where
  "handle_options f [] x = Some x"
| "handle_options f (Option c operand # events) x = handle_options f events (f c operand x)"
| "handle_options f (Missing_operand c # events) x = None"
| "handle_options f (Unrecognized c # events) x = None"

definition shutdown_main :: "client \<Rightarrow> string list \<Rightarrow> outcome" where
  "shutdown_main cl args =
     (let spec = (\<lambda>c. if c \<in> {CHR ''H'', CHR ''P'', CHR ''r''} then Some False else None);
          (events, rest) = getopt_args spec args;
          option = (\<lambda>c operand cid.
            if c = CHR ''H'' then COMMAND CAPABILITY_SYSTEM_HALT
            else if c = CHR ''P'' then COMMAND CAPABILITY_SYSTEM_POWEROFF
            else COMMAND CAPABILITY_SYSTEM_REBOOT)
      in case handle_options option events (COMMAND CAPABILITY_SYSTEM_POWEROFF) of
           None \<Rightarrow> Exit_failure
         | Some cid \<Rightarrow> initctl_system cl (ENDPOINTS_ROOT cl) cid)"

text \<open>The loop over the capabilities of a new endpoint; \<open>None\<close> is an invalid command.\<close>

fun capability_loop :: "string list \<Rightarrow> capset \<Rightarrow> capset option" where
  "capability_loop [] caps = Some caps"
| "capability_loop (command # args) caps =
     (let capability = push_bit (initctl_command_id command) 1
      in if capability AND CAPSET_ALL = 0 then None
         else capability_loop args (caps OR capability))"

definition initctl_main :: "client \<Rightarrow> string list \<Rightarrow> outcome" where
  "initctl_main cl args =
     (let spec = (\<lambda>c. if c = CHR ''c'' then Some True else None);
          (events, rest) = getopt_args spec args
      in case handle_options (\<lambda>c operand endpoint. the operand) events (ENDPOINTS_ROOT cl) of
           None \<Rightarrow> Exit_failure
         | Some endpoint \<Rightarrow>
             (case rest of
                [] \<Rightarrow> Exit_failure
              | command # params \<Rightarrow>
                  (let cid = initctl_command_id command
                   in if cid = COMMAND CAPABILITY_ENDPOINT_CREATE then
                        if length rest < 3 then Exit_failure
                        else case capability_loop params 0 of
                               None \<Rightarrow> Exit_failure
                             | Some caps \<Rightarrow>
                                 initctl_endpoint_create cl endpoint cid caps (hd params)
                      else if cid \<le> COMMAND CAPABILITY_DAEMON_END then
                        if length rest \<noteq> 2 then Exit_failure
                        else initctl_daemon cl endpoint cid (hd params)
                      else if cid \<le> COMMAND CAPABILITY_SYSTEM_SUSPEND then
                        if length rest \<noteq> 1 then Exit_failure
                        else initctl_system cl endpoint cid
                      else Exit_failure)))"

text \<open>The name the client is run by selects the program.\<close>

definition synopses :: "string list" where
  "synopses = [''halt'', ''reboot'', ''suspend'', ''poweroff'', ''shutdown'']"

definition synopsis_of :: "string \<Rightarrow> nat" where
  "synopsis_of name = length (takeWhile (\<lambda>s. strcmp name s \<noteq> 0) synopses)"

definition ctl_main :: "client \<Rightarrow> string \<Rightarrow> string list \<Rightarrow> outcome" where
  "ctl_main cl progname args =
     (let synopsis = synopsis_of (basename progname); root = ENDPOINTS_ROOT cl
      in if synopsis = 0 then initctl_system cl root (COMMAND CAPABILITY_SYSTEM_HALT)
         else if synopsis = 1 then initctl_system cl root (COMMAND CAPABILITY_SYSTEM_REBOOT)
         else if synopsis = 2 then initctl_system cl root (COMMAND CAPABILITY_SYSTEM_SUSPEND)
         else if synopsis = 3 then initctl_system cl root (COMMAND CAPABILITY_SYSTEM_POWEROFF)
         else if synopsis = 4 then shutdown_main cl args
         else if synopsis = 5 then initctl_main cl args
         else Aborted)"

section \<open>The identifiers of the commands\<close>

lemma COMMAND_simps [simp]:
  "COMMAND CAPABILITY_ENDPOINT_CREATE = 0" "COMMAND CAPABILITY_DAEMON_START = 1"
  "COMMAND CAPABILITY_DAEMON_STOP = 2" "COMMAND CAPABILITY_DAEMON_RELOAD = 3"
  "COMMAND CAPABILITY_DAEMON_END = 4" "COMMAND CAPABILITY_SYSTEM_POWEROFF = 5"
  "COMMAND CAPABILITY_SYSTEM_HALT = 6" "COMMAND CAPABILITY_SYSTEM_REBOOT = 7"
  "COMMAND CAPABILITY_SYSTEM_SUSPEND = 8"
  by code_simp+

text \<open>The identifier of a string: its place in the table, or the number of commands.\<close>

definition command_names :: "string list" where
  "command_names = [''create-endpoint'', ''start'', ''stop'', ''reload'', ''end'', ''poweroff'',
     ''halt'', ''reboot'', ''suspend'']"

lemma less_numeral_nine:
  "i < 9 \<longleftrightarrow> i = 0 \<or> i = 1 \<or> i = 2 \<or> i = 3 \<or> i = 4 \<or> i = 5 \<or> i = 6 \<or> i = 7 \<or> i = (8::nat)"
  by auto

lemma command_loop_names:
  assumes "c_string command" "i \<le> 9"
  shows "command_loop command i = i + length (takeWhile (\<lambda>name. name \<noteq> command) (drop i command_names))"
  using assms(2)
proof (induction "9 - i" arbitrary: i)
  case 0
  then have "i = 9" by simp
  then show ?case
    by (subst command_loop.simps) (simp add: commands_def command_names_def)
next
  case (Suc n)
  then have i: "i < 9" by simp
  have names: "length command_names = 9" "length commands = 9" "list_all c_string command_names"
    by (simp_all add: command_names_def commands_def c_string_def NUL_def)
  have "map_of commands i = Some (command_names ! i)"
    using i unfolding less_numeral_nine by (elim disjE) (simp_all add: commands_def command_names_def)
  moreover have "c_string (command_names ! i)" using i names by (simp add: list_all_length)
  ultimately have step: "command_loop command i
      = (if command_names ! i \<noteq> command then command_loop command (i + 1) else i)"
    using assms(1) i names(2) by (subst command_loop.simps) simp
  have "drop i command_names = command_names ! i # drop (i + 1) command_names"
    using i names(1) by (simp add: Cons_nth_drop_Suc)
  then show ?case using Suc(1) [of "i + 1"] Suc(2) i unfolding step by simp
qed

lemma command_id_names:
  "c_string command \<Longrightarrow> initctl_command_id command = length (takeWhile (\<lambda>name. name \<noteq> command) command_names)"
  by (simp add: initctl_command_id_def command_loop_names)

lemma length_takeWhile_less_iff: "length (takeWhile P xs) < length xs \<longleftrightarrow> (\<exists>x \<in> set xs. \<not> P x)"
  by (induction xs) auto

lemma command_id_less:
  assumes "c_string command"
  shows "initctl_command_id command < 9 \<longleftrightarrow> command \<in> set command_names"
proof -
  have "length command_names = 9" by (simp add: command_names_def)
  then show ?thesis
    unfolding command_id_names [OF assms]
    using length_takeWhile_less_iff [of "\<lambda>name. name \<noteq> command" command_names] by auto
qed

end
