(* ===== verification/Daemon_Child.thy ===== *)
theory Daemon_Child
  imports Conf_File
begin

unbundle bit_operations_syntax

text \<open>
  What the child of a daemon does between \<^verbatim>\<open>fork(2)\<close> and \<^verbatim>\<open>execve(2)\<close>:
  \<^verbatim>\<open>daemon_child_setup\<close> and \<^verbatim>\<open>daemon_child_sigprocmask\<close> of \<^verbatim>\<open>src/cyberd/daemon.c\<close>.
\<close>

section \<open>The process\<close>

text \<open>
  An open file: its path, whether it was opened for writing, and its flag \<^verbatim>\<open>FD_CLOEXEC\<close>. The
  answers are a script: whether the next calls that can fail for reasons of the system succeed.
\<close>

type_synonym open_file = "string \<times> bool \<times> bool"

record child =
  c_fds :: "nat \<rightharpoonup> open_file"
  c_umask :: uint32
  c_cwd :: string
  c_blocked :: "int set"
  c_euid :: uint32
  c_egid :: uint32
  c_session_leader :: bool
  c_nice :: int
  child_answers :: "bool list"

record child_build =
  CONFIG_DAEMON_DEV_NULL :: string
  CONFIG_DAEMON_DEFAULT_WORKDIR :: string

definition child_answer :: "child \<Rightarrow> bool \<times> child" where
  "child_answer c =
     (case child_answers c of [] \<Rightarrow> (True, c) | a # rest \<Rightarrow> (a, c\<lparr>child_answers := rest\<rparr>))"

section \<open>System calls\<close>

text \<open>\<open>None\<close> is a failure. \<^verbatim>\<open>open(2)\<close> returns the lowest descriptor that is not open.\<close>

definition OPEN_MAX :: nat where
  "OPEN_MAX = 1024"

definition lowest_fd :: "(nat \<rightharpoonup> open_file) \<Rightarrow> nat" where
  "lowest_fd f = length (takeWhile (\<lambda>n. f n \<noteq> None) [0..<OPEN_MAX])"

definition open_cloexec :: "string \<Rightarrow> bool \<Rightarrow> child \<Rightarrow> (nat \<times> child) option" where
  "open_cloexec path writable c =
     (let (ok, c) = child_answer c; fd = lowest_fd (c_fds c)
      in if \<not> ok \<or> fd = OPEN_MAX then None
         else Some (fd, c\<lparr>c_fds := (c_fds c)(fd \<mapsto> (path, writable, True))\<rparr>))"

text \<open>The copy of a descriptor is kept by \<^verbatim>\<open>execve(2)\<close>; a copy onto itself changes nothing.\<close>

definition dup2 :: "nat \<Rightarrow> nat \<Rightarrow> child \<Rightarrow> child option" where
  "dup2 old new c =
     (case c_fds c old of
        None \<Rightarrow> None
      | Some (path, writable, _) \<Rightarrow>
          if old = new then Some c
          else let (ok, c) = child_answer c
               in if ok then Some (c\<lparr>c_fds := (c_fds c)(new \<mapsto> (path, writable, False))\<rparr>) else None)"

definition set_umask :: "uint32 \<Rightarrow> child \<Rightarrow> child" where
  "set_umask m c = c\<lparr>c_umask := m AND 0x1ff\<rparr>"

definition chdir :: "string \<Rightarrow> child \<Rightarrow> child option" where
  "chdir path c = (let (ok, c) = child_answer c in if ok then Some (c\<lparr>c_cwd := path\<rparr>) else None)"

text \<open>Only a privileged process can change its ids to others, or raise its priority.\<close>

definition setuid :: "uint32 \<Rightarrow> child \<Rightarrow> child option" where
  "setuid uid c = (let (ok, c) = child_answer c
     in if ok \<and> (c_euid c = 0 \<or> uid = c_euid c) then Some (c\<lparr>c_euid := uid\<rparr>) else None)"

definition setgid :: "uint32 \<Rightarrow> child \<Rightarrow> child option" where
  "setgid gid c = (let (ok, c) = child_answer c
     in if ok \<and> (c_euid c = 0 \<or> gid = c_egid c) then Some (c\<lparr>c_egid := gid\<rparr>) else None)"

definition setsid :: "child \<Rightarrow> child option" where
  "setsid c = (let (ok, c) = child_answer c in if ok then Some (c\<lparr>c_session_leader := True\<rparr>) else None)"

definition setpriority :: "int \<Rightarrow> child \<Rightarrow> child option" where
  "setpriority prio c = (let (ok, c) = child_answer c; prio = max (- 20) (min 19 prio)
     in if ok \<and> (c_euid c = 0 \<or> c_nice c \<le> prio) then Some (c\<lparr>c_nice := prio\<rparr>) else None)"

text \<open>What runs after \<^verbatim>\<open>execve(2)\<close>: the path, the vectors, and the process without its descriptors
  that close.\<close>

type_synonym program = "string \<times> string list \<times> string list \<times> child"

definition keeps :: "(nat \<rightharpoonup> open_file) \<Rightarrow> nat \<rightharpoonup> open_file" where
  "keeps f fd = (case f fd of
     None \<Rightarrow> None
   | Some (path, writable, cloexec) \<Rightarrow> if cloexec then None else Some (path, writable, False))"

definition execve :: "string option \<Rightarrow> string list \<Rightarrow> string list \<Rightarrow> child \<Rightarrow> program option" where
  "execve path argv envp c =
     (case path of
        None \<Rightarrow> None
      | Some path \<Rightarrow>
          let (ok, c) = child_answer c
          in if ok then Some (path, argv, envp, c\<lparr>c_fds := keeps (c_fds c)\<rparr>) else None)"

section \<open>The setup\<close>

definition daemon_child_sigprocmask :: "child \<Rightarrow> child option" where
  "daemon_child_sigprocmask c =
     (let (ok, c) = child_answer c in if ok then Some (c\<lparr>c_blocked := {}\<rparr>) else None)"

text \<open>\<open>None\<close>: a call failed, and the child exited with the status -1.\<close>

definition daemon_child_setup :: "child_build \<Rightarrow> string \<Rightarrow> daemon_conf \<Rightarrow> child \<Rightarrow> program option" where
  "daemon_child_setup b name conf c =
     (let input = (case conf_in conf of None \<Rightarrow> CONFIG_DAEMON_DEV_NULL b | Some path \<Rightarrow> path);
          output = (case conf_out conf of None \<Rightarrow> CONFIG_DAEMON_DEV_NULL b | Some path \<Rightarrow> path);
          workdir = (case conf_workdir conf of None \<Rightarrow> CONFIG_DAEMON_DEFAULT_WORKDIR b | Some path \<Rightarrow> path);
          argv = (case conf_arguments conf of None \<Rightarrow> [name] | Some args \<Rightarrow> args);
          envp = (case conf_environment conf of None \<Rightarrow> [] | Some env \<Rightarrow> env)
      in Option.bind (open_cloexec input False c) (\<lambda>(infd, c).
         Option.bind (open_cloexec output True c) (\<lambda>(outfd, c).
         Option.bind (case conf_err conf of None \<Rightarrow> Some (outfd, c)
                      | Some path \<Rightarrow> open_cloexec path True c) (\<lambda>(errfd, c).
         Option.bind (dup2 infd 0 c) (\<lambda>c.
         Option.bind (dup2 outfd 1 c) (\<lambda>c.
         Option.bind (dup2 errfd 2 c) (\<lambda>c.
         Option.bind (chdir workdir (set_umask (conf_umask conf) c)) (\<lambda>c.
         Option.bind (daemon_child_sigprocmask c) (\<lambda>c.
         Option.bind (setuid (conf_uid conf) c) (\<lambda>c.
         Option.bind (setgid (conf_gid conf) c) (\<lambda>c.
         Option.bind (if conf_nosid conf then Some c else setsid c) (\<lambda>c.
         Option.bind (setpriority (conf_priority conf) c) (\<lambda>c.
         execve (conf_path conf) argv envp c)))))))))))))"

section \<open>What a call keeps\<close>

lemma child_answer_same: "child_answer c = (ok, c') \<Longrightarrow> \<exists>as. c' = c\<lparr>child_answers := as\<rparr>"
  by (cases "child_answers c") (auto simp: child_answer_def intro: exI [of _ "child_answers c"])

lemma lowest_fd_free:
  assumes "lowest_fd f \<noteq> OPEN_MAX"
  shows "f (lowest_fd f) = None" "\<And>n. n < lowest_fd f \<Longrightarrow> f n \<noteq> None"
proof -
  define ns where "ns = takeWhile (\<lambda>n. f n \<noteq> None) [0..<OPEN_MAX]"
  have len: "length ns \<le> OPEN_MAX" unfolding ns_def using length_takeWhile_le [of _ "[0..<OPEN_MAX]"] by simp
  then have lt: "length ns < length [0..<OPEN_MAX]" using assms by (simp add: lowest_fd_def ns_def)
  have "f ([0..<OPEN_MAX] ! length ns) = None"
    using nth_length_takeWhile [of "\<lambda>n. f n \<noteq> None" "[0..<OPEN_MAX]"] lt unfolding ns_def by blast
  moreover have "[0..<OPEN_MAX] ! length ns = length ns" using lt by simp
  ultimately show "f (lowest_fd f) = None" unfolding lowest_fd_def ns_def [symmetric] by argo
  show "f n \<noteq> None" if "n < lowest_fd f" for n
  proof -
    have n: "n < length ns" using that by (simp add: lowest_fd_def ns_def)
    then have "ns ! n = n" unfolding ns_def using takeWhile_nth [of n "\<lambda>n. f n \<noteq> None" "[0..<OPEN_MAX]"] lt
      by (simp add: ns_def)
    then show ?thesis using nth_mem [OF n] set_takeWhileD unfolding ns_def by metis
  qed
qed

lemma lowest_fd_above:
  assumes "lowest_fd f \<noteq> OPEN_MAX" "f 0 \<noteq> None" "f 1 \<noteq> None" "f 2 \<noteq> None"
  shows "2 < lowest_fd f"
proof (rule ccontr)
  assume "\<not> 2 < lowest_fd f"
  then have "lowest_fd f \<in> {0, 1, 2}" by auto
  with lowest_fd_free(1) [OF assms(1)] assms(2-4) show False by (elim insertE) auto
qed

lemma open_cloexec_Some:
  assumes "open_cloexec path w c = Some (fd, c')"
  shows "\<exists>as. c' = c\<lparr>c_fds := (c_fds c)(fd \<mapsto> (path, w, True)), child_answers := as\<rparr>"
    "fd = lowest_fd (c_fds c)" "fd \<noteq> OPEN_MAX"
proof -
  obtain ok c1 where a: "child_answer c = (ok, c1)" by fastforce
  from child_answer_same [OF a] obtain as where c1: "c1 = c\<lparr>child_answers := as\<rparr>" by blast
  from assms a have "fd = lowest_fd (c_fds c1)" "fd \<noteq> OPEN_MAX"
    "c' = c1\<lparr>c_fds := (c_fds c1)(fd \<mapsto> (path, w, True))\<rparr>"
    by (auto simp: open_cloexec_def Let_def split: if_splits)
  then show "\<exists>as. c' = c\<lparr>c_fds := (c_fds c)(fd \<mapsto> (path, w, True)), child_answers := as\<rparr>"
    "fd = lowest_fd (c_fds c)" "fd \<noteq> OPEN_MAX"
    by (auto simp: c1 intro!: exI [of _ as])
qed

lemma dup2_Some:
  assumes "dup2 old new c = Some c'" "old \<noteq> new"
  shows "\<exists>as path w x. c_fds c old = Some (path, w, x)
    \<and> c' = c\<lparr>c_fds := (c_fds c)(new \<mapsto> (path, w, False)), child_answers := as\<rparr>"
proof -
  from assms(1) obtain path w x where f: "c_fds c old = Some (path, w, x)"
    by (auto simp: dup2_def split: option.splits)
  obtain ok c1 where a: "child_answer c = (ok, c1)" by fastforce
  from child_answer_same [OF a] obtain as where c1: "c1 = c\<lparr>child_answers := as\<rparr>" by blast
  from assms f a have "c' = c1\<lparr>c_fds := (c_fds c1)(new \<mapsto> (path, w, False))\<rparr>"
    by (auto simp: dup2_def split: if_splits)
  with f show ?thesis by (auto simp: c1 intro!: exI [of _ as])
qed

section \<open>What the program is run with\<close>

lemma chdir_Some: "chdir path c = Some c' \<Longrightarrow> \<exists>as. c' = c\<lparr>child_answers := as, c_cwd := path\<rparr>"
  by (cases "child_answer c") (auto simp: chdir_def dest!: child_answer_same split: if_splits)

lemma sigprocmask_Some:
  "daemon_child_sigprocmask c = Some c' \<Longrightarrow> \<exists>as. c' = c\<lparr>child_answers := as, c_blocked := {}\<rparr>"
  by (cases "child_answer c")
    (auto simp: daemon_child_sigprocmask_def dest!: child_answer_same split: if_splits)

lemma setuid_Some:
  "setuid u c = Some c' \<Longrightarrow> (c_euid c = 0 \<or> u = c_euid c) \<and> (\<exists>as. c' = c\<lparr>child_answers := as, c_euid := u\<rparr>)"
  by (cases "child_answer c") (auto simp: setuid_def dest!: child_answer_same split: if_splits)

lemma setgid_Some:
  "setgid g c = Some c' \<Longrightarrow> (c_euid c = 0 \<or> g = c_egid c) \<and> (\<exists>as. c' = c\<lparr>child_answers := as, c_egid := g\<rparr>)"
  by (cases "child_answer c") (auto simp: setgid_def dest!: child_answer_same split: if_splits)

lemma setsid_Some: "setsid c = Some c' \<Longrightarrow> \<exists>as. c' = c\<lparr>child_answers := as, c_session_leader := True\<rparr>"
  by (cases "child_answer c") (auto simp: setsid_def dest!: child_answer_same split: if_splits)

lemma setpriority_Some:
  "setpriority prio c = Some c' \<Longrightarrow> (c_euid c = 0 \<or> c_nice c \<le> max (- 20) (min 19 prio))
     \<and> (\<exists>as. c' = c\<lparr>child_answers := as, c_nice := max (- 20) (min 19 prio)\<rparr>)"
  by (cases "child_answer c") (auto simp: setpriority_def Let_def dest!: child_answer_same split: if_splits)

lemma execve_Some:
  "execve path argv envp c = Some (path', argv', envp', c') \<Longrightarrow>
     path = Some path' \<and> argv' = argv \<and> envp' = envp
     \<and> (\<exists>as. c' = c\<lparr>child_answers := as, c_fds := keeps (c_fds c)\<rparr>)"
  by (cases "child_answer c")
    (auto simp: execve_def dest!: child_answer_same split: if_splits option.splits)

text \<open>The credentials and the rest, from the process with its three descriptors in place.\<close>

definition credentials :: "child_build \<Rightarrow> daemon_conf \<Rightarrow> child \<Rightarrow> child \<Rightarrow> bool" where
  "credentials b conf c c' \<longleftrightarrow> c_umask c' = conf_umask conf AND 0x1ff
     \<and> c_cwd c' = (case conf_workdir conf of None \<Rightarrow> CONFIG_DAEMON_DEFAULT_WORKDIR b | Some path \<Rightarrow> path)
     \<and> c_blocked c' = {} \<and> c_euid c' = conf_uid conf \<and> c_egid c' = conf_gid conf
     \<and> c_session_leader c' = (c_session_leader c \<or> \<not> conf_nosid conf)
     \<and> c_nice c' = max (- 20) (min 19 (conf_priority conf))"

lemma setup_split:
  assumes "daemon_child_setup b name conf c = Some (path, argv, envp, c')"
  obtains infd outfd errfd c1 c2 c3 c4 c5 c6 where
    "open_cloexec (case conf_in conf of None \<Rightarrow> CONFIG_DAEMON_DEV_NULL b | Some path \<Rightarrow> path) False c
      = Some (infd, c1)"
    "open_cloexec (case conf_out conf of None \<Rightarrow> CONFIG_DAEMON_DEV_NULL b | Some path \<Rightarrow> path) True c1
      = Some (outfd, c2)"
    "(case conf_err conf of None \<Rightarrow> Some (outfd, c2) | Some path \<Rightarrow> open_cloexec path True c2) = Some (errfd, c3)"
    "dup2 infd 0 c3 = Some c4" "dup2 outfd 1 c4 = Some c5" "dup2 errfd 2 c5 = Some c6"
    "credentials b conf c6 c'" "c_fds c' = keeps (c_fds c6)"
    "c_euid c6 = 0 \<or> conf_uid conf = c_euid c6" "conf_uid conf = 0 \<or> conf_gid conf = c_egid c6"
    "conf_uid conf = 0 \<or> c_nice c6 \<le> max (- 20) (min 19 (conf_priority conf))"
    "conf_path conf = Some path"
    "argv = (case conf_arguments conf of None \<Rightarrow> [name] | Some args \<Rightarrow> args)"
    "envp = (case conf_environment conf of None \<Rightarrow> [] | Some env \<Rightarrow> env)"
proof -
  from assms obtain infd outfd errfd c1 c2 c3 c4 c5 c6 c7 c8 c9 c10 c11 c12 where
    steps: "open_cloexec (case conf_in conf of None \<Rightarrow> CONFIG_DAEMON_DEV_NULL b | Some path \<Rightarrow> path) False c
      = Some (infd, c1)"
    "open_cloexec (case conf_out conf of None \<Rightarrow> CONFIG_DAEMON_DEV_NULL b | Some path \<Rightarrow> path) True c1
      = Some (outfd, c2)"
    "(case conf_err conf of None \<Rightarrow> Some (outfd, c2) | Some path \<Rightarrow> open_cloexec path True c2) = Some (errfd, c3)"
    "dup2 infd 0 c3 = Some c4" "dup2 outfd 1 c4 = Some c5" "dup2 errfd 2 c5 = Some c6"
    and rest: "chdir (case conf_workdir conf of None \<Rightarrow> CONFIG_DAEMON_DEFAULT_WORKDIR b | Some path \<Rightarrow> path)
        (set_umask (conf_umask conf) c6) = Some c7"
    "daemon_child_sigprocmask c7 = Some c8" "setuid (conf_uid conf) c8 = Some c9"
    "setgid (conf_gid conf) c9 = Some c10" "(if conf_nosid conf then Some c10 else setsid c10) = Some c11"
    "setpriority (conf_priority conf) c11 = Some c12"
    "execve (conf_path conf) (case conf_arguments conf of None \<Rightarrow> [name] | Some args \<Rightarrow> args)
        (case conf_environment conf of None \<Rightarrow> [] | Some env \<Rightarrow> env) c12 = Some (path, argv, envp, c')"
    unfolding daemon_child_setup_def Let_def bind_eq_Some_conv split_paired_Ex prod.case by blast
  obtain a7 where c7: "c7 = (set_umask (conf_umask conf) c6)\<lparr>child_answers := a7, c_cwd := (case conf_workdir conf of
      None \<Rightarrow> CONFIG_DAEMON_DEFAULT_WORKDIR b | Some path \<Rightarrow> path)\<rparr>"
    using chdir_Some [OF rest(1)] by blast
  obtain a8 where c8: "c8 = c7\<lparr>child_answers := a8, c_blocked := {}\<rparr>"
    using sigprocmask_Some [OF rest(2)] by blast
  obtain a9 where c9: "c_euid c8 = 0 \<or> conf_uid conf = c_euid c8"
    "c9 = c8\<lparr>child_answers := a9, c_euid := conf_uid conf\<rparr>" using setuid_Some [OF rest(3)] by blast
  obtain a10 where c10: "c_euid c9 = 0 \<or> conf_gid conf = c_egid c9"
    "c10 = c9\<lparr>child_answers := a10, c_egid := conf_gid conf\<rparr>" using setgid_Some [OF rest(4)] by blast
  have "\<exists>as. c11 = c10\<lparr>child_answers := as, c_session_leader := c_session_leader c10 \<or> \<not> conf_nosid conf\<rparr>"
    using rest(5) setsid_Some [of c10 c11]
    by (cases "conf_nosid conf") (auto intro: exI [of _ "child_answers c10"])
  then obtain a11 where
    c11: "c11 = c10\<lparr>child_answers := a11, c_session_leader := c_session_leader c10 \<or> \<not> conf_nosid conf\<rparr>"
    by blast
  obtain a12 where c12: "c_euid c11 = 0 \<or> c_nice c11 \<le> max (- 20) (min 19 (conf_priority conf))"
    "c12 = c11\<lparr>child_answers := a12, c_nice := max (- 20) (min 19 (conf_priority conf))\<rparr>"
    using setpriority_Some [OF rest(6)] by blast
  obtain a13 where e: "conf_path conf = Some path"
    "argv = (case conf_arguments conf of None \<Rightarrow> [name] | Some args \<Rightarrow> args)"
    "envp = (case conf_environment conf of None \<Rightarrow> [] | Some env \<Rightarrow> env)"
    "c' = c12\<lparr>child_answers := a13, c_fds := keeps (c_fds c12)\<rparr>" using execve_Some [OF rest(7)] by blast
  have "credentials b conf c6 c'" "c_fds c' = keeps (c_fds c6)"
    unfolding e(4) c12(2) c11 c10(2) c9(2) c8 c7 by (simp_all add: credentials_def set_umask_def)
  moreover have "c_euid c6 = 0 \<or> conf_uid conf = c_euid c6" "conf_uid conf = 0 \<or> conf_gid conf = c_egid c6"
    "conf_uid conf = 0 \<or> c_nice c6 \<le> max (- 20) (min 19 (conf_priority conf))"
    using c9(1) c10(1) c12(1) unfolding c11 c10(2) c9(2) c8 c7 by (simp_all add: set_umask_def)
  ultimately show ?thesis using e(1-3) steps by (intro that)
qed

text \<open>
  With the three standard descriptors open in the parent, the program reads and writes the
  files of its configuration, and keeps nothing else the setup opened.
\<close>

lemma standard_descriptors:
  assumes "open_cloexec input False c = Some (infd, c1)" "open_cloexec output True c1 = Some (outfd, c2)"
    "(case err of None \<Rightarrow> Some (outfd, c2) | Some path \<Rightarrow> open_cloexec path True c2) = Some (errfd, c3)"
    "dup2 infd 0 c3 = Some c4" "dup2 outfd 1 c4 = Some c5" "dup2 errfd 2 c5 = Some c6"
    "c_fds c 0 \<noteq> None" "c_fds c 1 \<noteq> None" "c_fds c 2 \<noteq> None"
  shows "keeps (c_fds c6) = (keeps (c_fds c))(0 \<mapsto> (input, False, False), 1 \<mapsto> (output, True, False),
      2 \<mapsto> (case err of None \<Rightarrow> output | Some path \<Rightarrow> path, True, False))"
    "c_egid c6 = c_egid c" "c_euid c6 = c_euid c" "c_nice c6 = c_nice c" "c_session_leader c6 = c_session_leader c"
proof -
  obtain a1 where c1: "c1 = c\<lparr>c_fds := (c_fds c)(infd \<mapsto> (input, False, True)), child_answers := a1\<rparr>"
    using open_cloexec_Some(1) [OF assms(1)] by blast
  have f1: "c_fds c infd = None" "2 < infd"
    using open_cloexec_Some(2,3) [OF assms(1)] lowest_fd_free(1) lowest_fd_above assms(7-9) by auto
  obtain a2 where c2: "c2 = c1\<lparr>c_fds := (c_fds c1)(outfd \<mapsto> (output, True, True)), child_answers := a2\<rparr>"
    using open_cloexec_Some(1) [OF assms(2)] by blast
  have s1: "c_fds c1 0 \<noteq> None" "c_fds c1 1 \<noteq> None" "c_fds c1 2 \<noteq> None" using assms(7-9) by (auto simp: c1)
  have f2: "c_fds c1 outfd = None" "2 < outfd"
    using open_cloexec_Some(2,3) [OF assms(2)] lowest_fd_free(1) lowest_fd_above s1 by auto
  define errname where "errname = (case err of None \<Rightarrow> output | Some path \<Rightarrow> path)"
  have f3: "2 < errfd \<and> errfd \<noteq> infd \<and> c_fds c errfd = None
      \<and> (\<exists>a3. c3 = c2\<lparr>c_fds := (c_fds c2)(errfd \<mapsto> (errname, True, True)), child_answers := a3\<rparr>)"
  proof (cases err)
    case None
    then have "errfd = outfd" "c3 = c2" "errname = output" using assms(3) by (simp_all add: errname_def)
    moreover have "c2 = c2\<lparr>c_fds := (c_fds c2)(outfd \<mapsto> (output, True, True)), child_answers := child_answers c2\<rparr>"
      by (simp add: c2)
    moreover have "outfd \<noteq> infd" "c_fds c outfd = None" using f2(1) by (auto simp: c1 split: if_splits)
    ultimately show ?thesis using f2(2) by (intro conjI exI [of _ "child_answers c2"]) simp_all
  next
    case (Some path)
    then have o: "open_cloexec path True c2 = Some (errfd, c3)" "errname = path"
      using assms(3) by (simp_all add: errname_def)
    have "c_fds c2 0 \<noteq> None" "c_fds c2 1 \<noteq> None" "c_fds c2 2 \<noteq> None" using s1 by (auto simp: c2)
    then have "c_fds c2 errfd = None" "2 < errfd"
      using open_cloexec_Some(2,3) [OF o(1)] lowest_fd_free(1) lowest_fd_above by auto
    then show ?thesis using open_cloexec_Some(1) [OF o(1)] o(2) by (auto simp: c1 c2 split: if_splits)
  qed
  then obtain a3 where c3: "c3 = c2\<lparr>c_fds := (c_fds c2)(errfd \<mapsto> (errname, True, True)), child_answers := a3\<rparr>"
    and f3': "2 < errfd" "errfd \<noteq> infd" "c_fds c errfd = None" by blast
  have apart: "outfd \<noteq> infd" "c_fds c outfd = None" using f2(1) by (auto simp: c1 split: if_splits)
  have "errfd = outfd \<longrightarrow> errname = output"
  proof (cases err)
    case (Some path)
    then have o: "open_cloexec path True c2 = Some (errfd, c3)" using assms(3) by simp
    have "c_fds c2 errfd = None" using open_cloexec_Some(2,3) [OF o] lowest_fd_free(1) by auto
    then show ?thesis by (auto simp: c2)
  qed (simp add: errname_def)
  then have out3: "c_fds c3 outfd = Some (output, True, True)" "c_fds c3 infd = Some (input, False, True)"
    using apart f3' by (auto simp: c1 c2 c3)
  obtain a4 where c4: "c4 = c3\<lparr>c_fds := (c_fds c3)(0 \<mapsto> (input, False, False)), child_answers := a4\<rparr>"
    using dup2_Some [OF assms(4)] f1(2) out3(2) by auto
  obtain a5 where c5: "c5 = c4\<lparr>c_fds := (c_fds c4)(1 \<mapsto> (output, True, False)), child_answers := a5\<rparr>"
    using dup2_Some [OF assms(5)] f2(2) out3(1) by (auto simp: c4)
  obtain a6 where c6: "c6 = c5\<lparr>c_fds := (c_fds c5)(2 \<mapsto> (errname, True, False)), child_answers := a6\<rparr>"
    using dup2_Some [OF assms(6)] f3'(1) by (auto simp: c3 c4 c5)
  have "keeps (c_fds c6) fd = ((keeps (c_fds c))(0 \<mapsto> (input, False, False), 1 \<mapsto> (output, True, False),
      2 \<mapsto> (errname, True, False))) fd" for fd
    using f1 f2(2) f3' apart by (auto simp: c6 c5 c4 c3 c2 c1 keeps_def)
  then show "keeps (c_fds c6) = (keeps (c_fds c))(0 \<mapsto> (input, False, False), 1 \<mapsto> (output, True, False),
      2 \<mapsto> (case err of None \<Rightarrow> output | Some path \<Rightarrow> path, True, False))"
    unfolding errname_def by (rule ext)
  show "c_egid c6 = c_egid c" "c_euid c6 = c_euid c" "c_nice c6 = c_nice c" "c_session_leader c6 = c_session_leader c"
    by (simp_all add: c6 c5 c4 c3 c2 c1)
qed

section \<open>The run commands and the files of the configurations\<close>

text \<open>
  \<^verbatim>\<open>execv(3)\<close> in the child of \<^verbatim>\<open>rc\<close> keeps the environment of the process; \<open>None\<close>: it failed,
  and the child exited.
\<close>

definition rc_child :: "string \<Rightarrow> string list \<Rightarrow> child \<Rightarrow> program option" where
  "rc_child path environ c = execve (Some path) [''rc''] environ c"

text \<open>
  \<^verbatim>\<open>configuration_fopenat\<close> in the process that loads the configurations: the result is the
  descriptor of the stream, which \<^verbatim>\<open>execve(2)\<close> keeps open.
\<close>

definition configuration_fopenat :: "string \<Rightarrow> string \<Rightarrow> child \<Rightarrow> nat option \<times> child" where
  "configuration_fopenat dir path c =
     (let (opened, c) = child_answer c; fd = lowest_fd (c_fds c)
      in if \<not> opened \<or> fd = OPEN_MAX then (None, c)
         else let c = c\<lparr>c_fds := (c_fds c)(fd \<mapsto> (dir @ ''/'' @ path, False, False))\<rparr>;
                  (streamed, c) = child_answer c
              in if streamed then (Some fd, c)
                 else (None, c\<lparr>c_fds := (c_fds c)(fd := None)\<rparr>))"

lemma configuration_fopenat_fds:
  assumes "configuration_fopenat dir path c = (r, c')"
  shows "r = None \<Longrightarrow> c_fds c' = c_fds c"
    "r = Some fd \<Longrightarrow> c_fds c fd = None \<and> c_fds c' = (c_fds c)(fd \<mapsto> (dir @ ''/'' @ path, False, False))"
proof -
  obtain opened c1 where a1: "child_answer c = (opened, c1)" by fastforce
  obtain streamed c2 where
    a2: "child_answer (c1\<lparr>c_fds := (c_fds c1)(lowest_fd (c_fds c1) \<mapsto> (dir @ ''/'' @ path, False, False))\<rparr>)
      = (streamed, c2)" by fastforce
  have fds: "c_fds c1 = c_fds c"
    "c_fds c2 = (c_fds c)(lowest_fd (c_fds c) \<mapsto> (dir @ ''/'' @ path, False, False))"
    using child_answer_same [OF a1] child_answer_same [OF a2] by auto
  have free: "c_fds c (lowest_fd (c_fds c)) = None" if "lowest_fd (c_fds c) \<noteq> OPEN_MAX"
    by (rule lowest_fd_free(1) [OF that])
  show "r = None \<Longrightarrow> c_fds c' = c_fds c"
    using assms a1 a2 fds free
    by (auto simp: configuration_fopenat_def Let_def fun_upd_idem split: if_splits prod.splits)
  show "c_fds c fd = None \<and> c_fds c' = (c_fds c)(fd \<mapsto> (dir @ ''/'' @ path, False, False))" if "r = Some fd"
    using that assms a1 a2 fds free by (auto simp: configuration_fopenat_def Let_def split: if_splits)
qed

end
