(* ===== verification/Samples.thy ===== *)
theory Samples
  imports Main_Invariant Cyberctl Daemon_Child
begin

unbundle bit_operations_syntax

text \<open>
  A small state of the program, with a daemon that runs, one that is stopped, the root endpoint and
  a connection: the properties of the next theories are applied to it.
\<close>

definition sample_running :: daemon where
  "sample_running = \<lparr>d_state = DAEMON_STARTED, d_name = ''web'', d_pid = 10,
     d_conf = daemon_conf_init\<lparr>conf_path := Some ''/bin/web'', start_exitfailure := True\<rparr>\<rparr>"

definition sample_stopped :: daemon where
  "sample_stopped = \<lparr>d_state = DAEMON_STOPPED, d_name = ''db'', d_pid = 0,
     d_conf = daemon_conf_init\<lparr>conf_path := Some ''/bin/db''\<rparr>\<rparr>"

definition fresh_parser :: "capset \<Rightarrow> parser" where
  "fresh_parser caps = \<lparr>capabilities = caps, parser_state = PARSER_STATE_COMMAND\<rparr>"

definition sample :: net where
  "sample =
     \<lparr>heap = [2 \<mapsto> sample_running, 3 \<mapsto> sample_stopped], spawns = Node 2 NULL NULL 1,
      children = [10, 11], sent = [], forks = [12], allocations = [(4, True)],
      daemons = Node 2 (Node 3 NULL NULL 1) NULL 2, configuration_path = ''/etc/cyberd'',
      sigreboot = 0, sigchld = False, sighup = False, sigalrm = False,
      procmask = {SIGTERM, SIGCHLD, SIGHUP},
      handlers = [SIGTERM \<mapsto> SIGTERM_HANDLER, SIGCHLD \<mapsto> SIGCHLD_HANDLER, SIGHUP \<mapsto> SIGHUP_HANDLER],
      alarm = None, pending_sigterm = None,
      nodes = [2 \<mapsto> Endpoint_node 3 CAPSET_ALL, 3 \<mapsto> Connection_node 4 (fresh_parser CAPSET_ALL)],
      snodes = Node 2 NULL (Node 3 NULL NULL 1) 2, activeset = {3, 4}, readset = {},
      socket_endpoints_path = ''/run'', open_fds = {0, 1, 2, 3, 4}, bound = [3 \<mapsto> ''/run/initctl''],
      files = {''/run/initctl''}, node_allocations = [4], new_fds = [5], answers = [], reads = []\<rparr>"

lemma sample_procs_ok: "procs_ok sample"
  by (auto simp: procs_but_def tree_ok_def sample_def ordered_by_def pid_of_def pid_carrier_def
      sample_running_def sample_stopped_def active_def PID_MAX_def key_frame_def split: if_splits)

lemma sample_store_ok: "store_ok sample"
proof -
  have "named_ok (heap sample) (daemons sample)"
    by (auto simp: named_ok_def tree_ok_def sample_def ordered_by_def name_of_def name_carrier_def
        sample_running_def sample_stopped_def c_string_def NUL_def)
  moreover have "dom (heap sample) = set_tree_node (daemons sample)" by (auto simp: sample_def)
  ultimately show ?thesis using sample_procs_ok by (simp add: reload_ok_def)
qed

lemma sample_net_ok: "net_ok sample"
proof -
  have "tree_ok (fd_of (nodes sample)) (fd_carrier (nodes sample)) (snodes sample)"
    by (auto simp: tree_ok_def sample_def ordered_by_def fd_of_def fd_carrier_def FD_SETSIZE_def)
  moreover have "fd_of (nodes sample) ` dom (nodes sample) = activeset sample"
    by (auto simp: sample_def fd_of_def)
  moreover have "node_ok n" if "nodes sample p = Some n" for p n
    using that by (auto simp: sample_def node_ok_def FD_SETSIZE_def parser_ok_def fresh_parser_def split: if_splits)
  moreover have "set_tree_node (snodes sample) = dom (nodes sample)" "nodes sample key_frame = None"
    "activeset sample \<subseteq> open_fds sample" "\<forall>fd \<in> set (new_fds sample). fd < FD_SETSIZE"
    by (auto simp: sample_def key_frame_def FD_SETSIZE_def)
  ultimately show ?thesis by (auto simp: net_ok_def)
qed

lemma sample_signals_ok: "signals_ok sample"
  by (auto simp: signals_ok_def only_sigterm_def sample_def SIGTERM_def SIGCHLD_def SIGHUP_def SIGALRM_def
      reboot_value_def split: if_splits)

lemma sample_ok: "running sample"
  using sample_store_ok sample_net_ok sample_signals_ok by (simp add: running_def)

lemma sample_heap:
  "heap sample 2 = Some sample_running" "heap sample 3 = Some sample_stopped" "children sample = [10, 11]"
  "sent sample = []" "spawns sample = Node 2 NULL NULL 1" "forks sample = [12]"
  by (simp_all add: sample_def)

definition quiet_build :: build where
  "quiet_build = \<lparr>CONFIG_CONFIGURATION_PATH = ''/etc/cyberd'', CONFIG_SOCKET_ENDPOINTS_PATH = ''/run'',
     CONFIG_SOCKET_ENDPOINTS_ROOT = ''initctl'', CONFIG_REBOOT_TIMEOUT = 3, CONFIG_RC_PATH = None, NDEBUG = True\<rparr>"

end
