(* ===== verification/Process_Properties.thy ===== *)
theory Process_Properties
  imports Samples
begin

text \<open>
  The properties of the balanced tree, of the daemons and their processes, of the reaping and of
  the run commands.
\<close>

section \<open>The balanced tree\<close>

text \<open>
  C12: For every comparison that orders the elements by a key, the tree is a finite map: it finds
  what was inserted, removing a key gives the element back and leaves the others, inserting a
  new key adds it, and the results are balanced and ordered again.
\<close>

theorem tree_is_finite_map:
  assumes "compare_order cmp key carrier" "tree_ok key carrier t" "e \<in> carrier"
  shows "tree_find cmp t e = Inr (tree_map key t (key e))
    \<and> (\<exists>t'. tree_remove cmp t e = Inr (t', tree_map key t (key e)) \<and> tree_ok key carrier t'
         \<and> tree_map key t' = (tree_map key t)(key e := None))
    \<and> (tree_map key t (key e) = None \<longrightarrow> (\<exists>t'. tree_insert cmp t e = Inr t' \<and> tree_ok key carrier t'
         \<and> tree_map key t' = (tree_map key t)(key e \<mapsto> e)))"
  using compare_order.tree_find_lookup [OF assms(1) _ assms(3), of t] assms(2)
    compare_order.tree_remove_lookup [OF assms] compare_order.tree_insert_fresh [OF assms]
  by (auto simp: tree_ok_def)

theorem tree_is_finite_map_witness:
  "tree_find (spawns_compare_function (heap sample)) (spawns sample) 2
    = Inr (tree_map (pid_of (heap sample)) (spawns sample) (pid_of (heap sample) 2))"
proof -
  have "tree_ok (pid_of (heap sample)) (pid_carrier (heap sample)) (spawns sample)"
    "2 \<in> pid_carrier (heap sample)"
    using sample_procs_ok by (auto simp: procs_but_def pid_carrier_def sample_heap sample_running_def PID_MAX_def)
  from tree_is_finite_map [OF spawned.compare_order_axioms this] show ?thesis by simp
qed

text \<open>
  C40: Inserting an element whose key is in the tree already ends in the call of \<^verbatim>\<open>abort(3)\<close>,
  and nothing else does: callers have to remove the key first.
\<close>

theorem tree_insert_aborts_iff:
  assumes "compare_order cmp key carrier" "tree_ok key carrier t" "e \<in> carrier"
  shows "tree_insert cmp t e = Inl Abort \<longleftrightarrow> key e \<in> key ` set_tree_node t"
proof -
  have "ordered_by key carrier t" using assms(2) by (simp add: tree_ok_def)
  then have "tree_insert cmp t e = Inl Abort" if "key e \<in> key ` set_tree_node t"
    using compare_order.insert_duplicate [OF assms(1) _ assms(3) that] by (simp add: tree_insert_def)
  moreover have "\<exists>t'. tree_insert cmp t e = Inr t'" if "key e \<notin> key ` set_tree_node t"
  proof -
    have "tree_map key t (key e) = None" using that by (simp add: tree_map_None)
    then show ?thesis using compare_order.tree_insert_fresh [OF assms] by auto
  qed
  ultimately show ?thesis by force
qed

theorem tree_insert_aborts_iff_witness:
  "tree_insert (spawns_compare_function (heap sample)) (spawns sample) 2 = Inl Abort"
proof -
  have "tree_ok (pid_of (heap sample)) (pid_carrier (heap sample)) (spawns sample)"
    "2 \<in> pid_carrier (heap sample)"
    using sample_procs_ok by (auto simp: procs_but_def pid_carrier_def sample_heap sample_running_def PID_MAX_def)
  from tree_insert_aborts_iff [OF spawned.compare_order_axioms this] show ?thesis by (simp add: sample_heap)
qed

text \<open>
  Lookups are logarithmic: a tree whose root records the height \<open>h\<close> holds at least
  \<open>2 ^ (h div 2) - 1\<close> elements.
\<close>

lemma tree_is_shallow:
  assumes "tree_ok key carrier t"
  shows "2 ^ (nat (tree_node_height t) div 2) \<le> card (set_tree_node t) + 1"
proof -
  have t: "avl t" "ordered_by key carrier t" using assms by (auto simp: tree_ok_def)
  have "mset (tree_preorder t) = mset (tree_inorder t)" by (rule mset_preorder)
  then have "distinct (tree_inorder t)" using distinct_preorder [OF t(2)] mset_eq_imp_distinct_iff by blast
  then have "card (set_tree_node t) = length (tree_inorder t)"
    by (simp add: distinct_card flip: set_tree_inorder)
  then show ?thesis using avl_size [OF t(1)] t(1) by simp
qed

lemma tree_is_shallow_instance:
  "2 ^ (nat (tree_node_height (daemons sample)) div 2) \<le> card (set_tree_node (daemons sample)) + 1"
  by (rule tree_is_shallow [of "name_of (heap sample)" "name_carrier (heap sample)"])
    (use sample_store_ok in \<open>simp add: reload_ok_def named_ok_def\<close>)

section \<open>Daemons\<close>

text \<open>
  C25: The storage of the spawned daemons is an index of the daemons that are not stopped: taking
  out a pid gives exactly the daemon that has it, and none if no active daemon has.
\<close>

theorem spawns_retrieve_finds:
  assumes "procs_ok s" "0 \<le> pid" "pid < PID_MAX"
  shows "\<exists>r s'. spawns_retrieve pid s = Inr (r, s')
    \<and> (\<forall>p. r = Some p \<longleftrightarrow> (\<exists>d. heap s p = Some d \<and> d_state d \<noteq> DAEMON_STOPPED \<and> d_pid d = pid))
    \<and> heap s' = heap s \<and> set_tree_node (spawns s') = set_tree_node (spawns s) - set_option r"
proof -
  from spawns_retrieve_ok [OF assms] obtain root where
    "spawns_retrieve pid s = Inr (spawned_daemons s pid, s\<lparr>spawns := root\<rparr>)"
    "set_tree_node root = set_tree_node (spawns s) - set_option (spawned_daemons s pid)" by blast
  then show ?thesis
    using spawned_iff [OF assms(1), of pid] by (auto simp: active_def pid_of_def)
qed

theorem spawns_retrieve_finds_witness:
  "\<exists>s'. spawns_retrieve 10 sample = Inr (Some 2, s')"
proof -
  from spawns_retrieve_finds [OF sample_procs_ok, of 10] obtain r s' where
    r: "spawns_retrieve 10 sample = Inr (r, s')"
      "\<forall>p. r = Some p \<longleftrightarrow> (\<exists>d. heap sample p = Some d \<and> d_state d \<noteq> DAEMON_STOPPED \<and> d_pid d = 10)"
    by (auto simp: PID_MAX_def)
  then have "r = Some 2" by (auto simp: sample_heap sample_running_def)
  with r(1) show ?thesis by blast
qed

text \<open>
  C14: The four operations on a known daemon never run into a fault, keep the invariant of the
  processes, change no name, and send signals to children only.
\<close>

theorem daemon_actions_safe:
  assumes "procs_ok s" "p \<in> dom (heap s)" "action \<in> {daemon_start, daemon_stop, daemon_reload, daemon_end}"
  shows "\<exists>s'. action p s = Inr s' \<and> procs_ok s' \<and> steady s s' \<and> signals_children s s'"
  using assms(3) daemon_start.action_ok [OF assms(1,2)] daemon_stop.action_ok [OF assms(1,2)]
    daemon_reload.action_ok [OF assms(1,2)] daemon_end.action_ok [OF assms(1,2)]
  by blast

theorem daemon_actions_safe_witness:
  "\<exists>s'. daemon_stop 2 sample = Inr s' \<and> procs_ok s' \<and> steady sample s' \<and> signals_children sample s'"
  by (rule daemon_actions_safe) (auto simp: sample_procs_ok sample_heap)

lemma daemon_started:
  assumes "procs_ok s" "heap s p = Some d" "d_state d = DAEMON_STOPPED"
    and "forks s = pid # fs" "0 < pid" "pid < PID_MAX" "pid \<notin> set (children s)"
  shows "\<exists>s'. daemon_start p s = Inr s' \<and> daemon_start p s' = Inr s' \<and> procs_ok s'
    \<and> heap s' = (heap s)(p \<mapsto> d\<lparr>d_pid := pid, d_state := DAEMON_STARTED\<rparr>)
    \<and> children s' = pid # children s \<and> spawned_daemons s' pid = Some p \<and> sent s' = sent s"
proof -
  have start: "daemon_start p s = rbind (daemon_spawn p s) (\<lambda>(_, s). Inr s)"
    using assms(2,3) by (simp add: daemon_start_def)
  have fork: "fork s = (pid, s\<lparr>forks := fs, children := pid # children s\<rparr>)"
    using assms(4-7) by (simp add: fork_def)
  from spawn_done_intro [OF assms] obtain s' where s': "daemon_spawn p s = Inr (0, s')" "procs_ok s'" by blast
  then have h: "heap s' = (heap s)(p \<mapsto> d\<lparr>d_pid := pid, d_state := DAEMON_STARTED\<rparr>)"
    "children s' = pid # children s" "sent s' = sent s"
    using fork assms(2,5) by (auto simp: daemon_spawn_def spawns_record_def result_iff split: if_splits)
  have "spawned_daemons s' pid = Some p"
    using spawned_iff [OF s'(2), of pid p] by (simp add: h(1))
  moreover have "daemon_start p s' = Inr s'" using h(1) by (simp add: daemon_start_def)
  ultimately show ?thesis using start s' h by simp
qed

text \<open>
  C22: Starting a stopped daemon forks once and records the new process; starting it again does
  nothing.
\<close>

theorem daemon_start_once:
  assumes "procs_ok s" "heap s p = Some d" "d_state d = DAEMON_STOPPED"
    and "forks s = pid # fs" "0 < pid" "pid < PID_MAX" "pid \<notin> set (children s)"
  shows "\<exists>s'. daemon_start p s = Inr s' \<and> daemon_start p s' = Inr s' \<and> procs_ok s'
    \<and> heap s' = (heap s)(p \<mapsto> d\<lparr>d_pid := pid, d_state := DAEMON_STARTED\<rparr>)
    \<and> children s' = pid # children s \<and> spawned_daemons s' pid = Some p \<and> sent s' = sent s"
  using assms by (rule daemon_started)

theorem daemon_start_once_witness:
  "\<exists>s'. daemon_start 3 sample = Inr s' \<and> daemon_start 3 s' = Inr s' \<and> procs_ok s'
    \<and> heap s' = (heap sample)(3 \<mapsto> sample_stopped\<lparr>d_pid := 12, d_state := DAEMON_STARTED\<rparr>)
    \<and> children s' = 12 # children sample \<and> spawned_daemons s' 12 = Some 3 \<and> sent s' = sent sample"
  by (rule daemon_start_once) (simp_all add: sample_procs_ok sample_heap sample_stopped_def PID_MAX_def)

text \<open>
  C24: Stopping a daemon that runs sends its signal once: until it terminates a further stop, a
  reload or a start does nothing, and only ending it sends \<^verbatim>\<open>SIGKILL\<close>.
\<close>

theorem daemon_stops_once:
  assumes "heap s p = Some d" "d_state d = DAEMON_STARTED"
  shows "\<exists>s'. daemon_stop p s = Inr s' \<and> sent s' = sent s @ [(d_pid d, conf_sigfinish (d_conf d))]
    \<and> heap s' = (heap s)(p \<mapsto> d\<lparr>d_state := DAEMON_STOPPING\<rparr>)
    \<and> daemon_stop p s' = Inr s' \<and> daemon_reload p s' = Inr s' \<and> daemon_start p s' = Inr s'
    \<and> daemon_end p s' = Inr (s'\<lparr>sent := sent s' @ [(d_pid d, SIGKILL)]\<rparr>)"
  using assms
  by (simp add: daemon_stop_def daemon_reload_def daemon_start_def daemon_end_def kill_def)

theorem daemon_stops_once_witness:
  "\<exists>s'. daemon_stop 2 sample = Inr s' \<and> sent s' = sent sample @ [(10, conf_sigfinish (d_conf sample_running))]
    \<and> heap s' = (heap sample)(2 \<mapsto> sample_running\<lparr>d_state := DAEMON_STOPPING\<rparr>)
    \<and> daemon_stop 2 s' = Inr s' \<and> daemon_reload 2 s' = Inr s' \<and> daemon_start 2 s' = Inr s'
    \<and> daemon_end 2 s' = Inr (s'\<lparr>sent := sent s' @ [(10, SIGKILL)]\<rparr>)"
  using daemon_stops_once [of sample 2 sample_running] by (simp add: sample_heap sample_running_def)

text \<open>
  C23: A stop does not last when the configuration asks for a new start on the end it brings: as soon as
  the process of the stopped daemon is reaped, the daemon runs again, under a new pid. Only the
  stop of the teardown clears these conditions.
\<close>

theorem stop_does_not_last:
  assumes "procs_ok s" "heap s p = Some d" "d_state d = DAEMON_STARTED"
    and "si_pid info = d_pid d" "terminated info" "restarts info (d_conf d)"
    and "forks s = pid # fs" "0 < pid" "pid < PID_MAX" "pid \<notin> set (children s)"
  shows "\<exists>s1 s2. daemon_stop p s = Inr s1 \<and> reap_children [info] s1 = Inr (0, s2) \<and> procs_ok s2
    \<and> sent s2 = sent s @ [(d_pid d, conf_sigfinish (d_conf d))]
    \<and> heap s2 p = Some (d\<lparr>d_pid := pid, d_state := DAEMON_STARTED\<rparr>) \<and> pid \<in> set (children s2)
    \<and> d_pid d \<notin> set (children s2)"
proof -
  define d1 where "d1 = d\<lparr>d_state := DAEMON_STOPPING\<rparr>"
  define s1 where "s1 = s\<lparr>sent := sent s @ [(d_pid d, conf_sigfinish (d_conf d))], heap := (heap s)(p \<mapsto> d1)\<rparr>"
  have stop: "daemon_stop p s = Inr s1"
    using assms(2,3) by (simp add: daemon_stop_def kill_def s1_def d1_def)
  have ok1: "procs_ok s1" using daemon_stop.action_ok [OF assms(1), of p] assms(2) stop by auto
  have h1: "heap s1 p = Some d1" "children s1 = children s" "forks s1 = forks s" by (simp_all add: s1_def)
  have spawned: "spawned_daemons s1 (d_pid d) = Some p"
    using spawned_iff [OF ok1, of "d_pid d" p] h1(1) by (simp add: d1_def active_def pid_of_def)
  have "p \<in> active (heap s)" using assms(2,3) by (simp add: active_def)
  then have "pid_of (heap s) p \<in> set (children s)" using assms(1) by (auto simp: procs_but_def)
  then have child: "d_pid d \<in> set (children s)" "distinct (children s)"
    using assms(1,2) by (simp_all add: pid_of_def procs_but_def)
  then have waited: "waitid info s1 = Some (s1\<lparr>children := remove1 (d_pid d) (children s)\<rparr>)"
    using assms(4) h1(2) by (simp add: waitid_def)
  from reap_child_gone [OF ok1 waited assms(5)] obtain s2 where
    gone: "child_gone (si_pid info) s1 s2" "procs_ok s2" and
    reaped: "reap_child info (s1\<lparr>children := remove1 (d_pid d) (children s)\<rparr>) =
      (case spawned_daemons s1 (si_pid info) of None \<Rightarrow> Inr s2
       | Some q \<Rightarrow> if restarts info (d_conf (the (heap s1 q))) then daemon_start q s2 else Inr s2)"
    by blast
  have conf: "d_conf (the (heap s1 p)) = d_conf d" using h1(1) by (simp add: d1_def)
  note s2 = gone [unfolded assms(4)] reaped [unfolded assms(4) spawned option.case conf if_P [OF assms(6)]]
  from s2(1) obtain root where
    "s2 = s1\<lparr>children := remove1 (d_pid d) (children s1), spawns := root,
      heap := (heap s1)(p \<mapsto> d1\<lparr>d_state := DAEMON_STOPPED\<rparr>)\<rparr>"
    unfolding child_gone_def spawned option.case h1(1) option.sel by blast
  then have h2: "heap s2 p = Some (d1\<lparr>d_state := DAEMON_STOPPED\<rparr>)" "forks s2 = pid # fs" "sent s2 = sent s1"
    "children s2 = remove1 (d_pid d) (children s)"
    using h1 assms(7) by simp_all
  have new: "pid \<notin> set (children s2)" using assms(10) h2(4) notin_set_remove1 [of pid "children s" "d_pid d"] by simp
  from daemon_started [OF s2(2) h2(1) _ h2(2) assms(8,9) new] obtain s3 where
    s3: "daemon_start p s2 = Inr s3" "procs_ok s3" "children s3 = pid # children s2" "sent s3 = sent s2"
      "heap s3 = (heap s2)(p \<mapsto> d1\<lparr>d_state := DAEMON_STOPPED, d_pid := pid, d_state := DAEMON_STARTED\<rparr>)"
    by auto
  have "reap_children [info] s1 = Inr (0, s3)" using waited s2(3) s3(1,3) by simp
  moreover have "sent s3 = sent s @ [(d_pid d, conf_sigfinish (d_conf d))]"
    using s3(4) h2(3) by (simp add: s1_def)
  moreover have "heap s3 p = Some (d\<lparr>d_pid := pid, d_state := DAEMON_STARTED\<rparr>)"
    unfolding s3(5) by (simp add: d1_def)
  moreover have "d_pid d \<noteq> pid" using child(1) assms(10) by auto
  then have "pid \<in> set (children s3)" "d_pid d \<notin> set (children s3)"
    using s3(3) h2(4) child(2) by simp_all
  ultimately show ?thesis using stop s3(2) by blast
qed

theorem stop_does_not_last_witness:
  "\<exists>s1 s2. daemon_stop 2 sample = Inr s1
    \<and> reap_children [\<lparr>si_code = CLD_EXITED, si_pid = 10, si_status = 1\<rparr>] s1 = Inr (0, s2)
    \<and> heap s2 2 = Some (sample_running\<lparr>d_pid := 12\<rparr>)"
proof -
  have "restarts \<lparr>si_code = CLD_EXITED, si_pid = 10, si_status = 1\<rparr> (d_conf sample_running)"
    "terminated \<lparr>si_code = CLD_EXITED, si_pid = 10, si_status = 1\<rparr>"
    by (simp_all add: restarts_def terminated_def sample_running_def)
  from stop_does_not_last [OF sample_procs_ok sample_heap(1) _ _ this(2,1), of 12 "[]"]
  show ?thesis by (auto simp: sample_heap sample_running_def PID_MAX_def)
qed

section \<open>Reaping\<close>

text \<open>
  C13: A terminated child is taken out of the processes, its daemon is stopped, and the daemon is
  started again exactly when its configuration asks for it on such an end; the child of no daemon
  changes nothing else.
\<close>

theorem reap_child_restarts:
  assumes "procs_ok s" "waitid info s = Some s0" "terminated info"
  shows "\<exists>s1. child_gone (si_pid info) s s1 \<and> procs_ok s1 \<and> reap_child info s0 =
    (case spawned_daemons s (si_pid info) of
       None \<Rightarrow> Inr s1
     | Some p \<Rightarrow> if restarts info (d_conf (the (heap s p))) then daemon_start p s1 else Inr s1)"
  using assms by (rule reap_child_gone)

theorem reap_child_restarts_witness:
  "\<exists>s1. child_gone 10 sample s1 \<and> procs_ok s1
    \<and> reap_child \<lparr>si_code = CLD_EXITED, si_pid = 10, si_status = 1\<rparr> (sample\<lparr>children := [11]\<rparr>)
        = daemon_start 2 s1"
proof -
  define info where "info = \<lparr>si_code = CLD_EXITED, si_pid = 10, si_status = 1\<rparr>"
  have "waitid info sample = Some (sample\<lparr>children := [11]\<rparr>)" "terminated info"
    by (simp_all add: waitid_def info_def sample_heap terminated_def)
  from reap_child_restarts [OF sample_procs_ok this] obtain s1 where
    s1: "child_gone (si_pid info) sample s1" "procs_ok s1"
      "reap_child info (sample\<lparr>children := [11]\<rparr>) = (case spawned_daemons sample (si_pid info) of
       None \<Rightarrow> Inr s1
     | Some p \<Rightarrow> if restarts info (d_conf (the (heap sample p))) then daemon_start p s1 else Inr s1)"
    by blast
  have "spawned_daemons sample 10 = Some 2"
    using spawned_iff [OF sample_procs_ok, of 10 2]
    by (simp add: active_def pid_of_def sample_heap sample_running_def)
  with s1 show ?thesis
    by (auto simp: info_def restarts_def sample_heap sample_running_def)
qed

text \<open>
  Reaping any sequence of terminated children never runs into a fault and keeps the
  invariant; it sends no signal, and its result says whether any child is left.
\<close>

lemma reap_children_invariant:
  assumes "procs_ok s" "list_all terminated infos"
  shows "\<exists>r s'. reap_children infos s = Inr (r, s') \<and> procs_ok s' \<and> steady s s' \<and> sent s' = sent s
    \<and> r = (if children s' = [] then - 1 else 0)"
  using assms by (rule reap_children_ok)

lemma reap_children_invariant_instance:
  "\<exists>r s'. reap_children [\<lparr>si_code = CLD_KILLED, si_pid = 11, si_status = 9\<rparr>] sample = Inr (r, s')
    \<and> procs_ok s' \<and> steady sample s' \<and> sent s' = sent sample \<and> r = (if children s' = [] then - 1 else 0)"
  by (rule reap_children_invariant) (simp_all add: sample_procs_ok terminated_def)

text \<open>
  C17: The run commands end: when the child is reported at last, or could not be forked,
  \<^verbatim>\<open>rc\<close> returns, with no daemon spawned and the daemons in memory as they were.
\<close>

theorem rc_returns:
  assumes "procs_ok s" "spawns s = NULL" "heap s rc_frame = None" "list_all (list_all terminated) batches"
  shows "\<exists>r. rc batches s = Inr r
    \<and> (\<forall>s'. r = Some s' \<longrightarrow> procs_ok s' \<and> spawns s' = NULL \<and> heap s' = heap s)
    \<and> (fst (fork s) = - 1 \<or> fst (fork s) \<in> reported batches \<longrightarrow> r \<noteq> None)"
  using assms by (rule rc_ok)

theorem rc_returns_witness:
  "\<exists>r. rc [[\<lparr>si_code = CLD_EXITED, si_pid = 12, si_status = 0\<rparr>]]
        \<lparr>heap = Map.empty, spawns = NULL, children = [], sent = [], forks = [12], allocations = []\<rparr> = Inr r
    \<and> r \<noteq> None"
proof -
  define s :: procs where "s = \<lparr>heap = Map.empty, spawns = NULL, children = [], sent = [], forks = [12],
    allocations = []\<rparr>"
  define info where "info = \<lparr>si_code = CLD_EXITED, si_pid = 12, si_status = 0\<rparr>"
  have s: "procs_ok s" "spawns s = NULL" "heap s rc_frame = None" "list_all (list_all terminated) [[info]]"
    by (auto simp: s_def info_def procs_but_def active_def terminated_def)
  have "fst (fork s) \<in> reported [[info]]" by (simp add: fork_def s_def info_def PID_MAX_def)
  with rc_returns [OF s] show ?thesis unfolding s_def info_def by blast
qed

text \<open>
  C18: The notification at the end stops every spawned daemon: each running one gets its signal, once,
  in the order of the tree, and no termination will start any of them again.
\<close>

theorem spawns_stop_quiets:
  assumes "procs_ok s"
  shows "\<exists>s'. spawns_stop s = Inr s' \<and> procs_ok s' \<and> quiet s'
    \<and> sent s' = sent s @ finish_signals (heap s) (tree_preorder (spawns s))
    \<and> (\<forall>p \<in> set_tree_node (spawns s'). \<exists>d. heap s' p = Some d \<and> d_state d = DAEMON_STOPPING)"
proof -
  define s' where "s' = stop_all (tree_preorder (spawns s)) s"
  have "\<exists>d. heap s' p = Some d \<and> d_state d = DAEMON_STOPPING" if "p \<in> set_tree_node (spawns s')" for p
  proof -
    have p: "p \<in> set_tree_node (spawns s)" using that by (simp add: s'_def stop_all_def)
    then have "p \<in> active (heap s)" using assms by (simp add: procs_but_def)
    then obtain d where "heap s p = Some d" "d_state d \<noteq> DAEMON_STOPPED" by (auto simp: active_def)
    with p show ?thesis by (cases "d_state d") (simp_all add: s'_def stop_all_def set_tree_preorder stopped_element_def)
  qed
  moreover have "procs_ok s'" "quiet s'"
    unfolding s'_def by (rule procs_ok_stop_all [OF assms], rule quiet_stop_all [OF assms])
  moreover have "sent s' = sent s @ finish_signals (heap s) (tree_preorder (spawns s))"
    by (simp add: s'_def stop_all_def)
  ultimately show ?thesis using spawns_stop_all [OF assms] by (simp flip: s'_def)
qed

theorem spawns_stop_quiets_witness:
  "\<exists>s'. spawns_stop sample = Inr s' \<and> procs_ok s' \<and> quiet s'
    \<and> sent s' = sent sample @ finish_signals (heap sample) (tree_preorder (spawns sample))
    \<and> (\<forall>p \<in> set_tree_node (spawns s'). \<exists>d. heap s' p = Some d \<and> d_state d = DAEMON_STOPPING)"
  by (rule spawns_stop_quiets) (rule sample_procs_ok)

end
