(* ===== verification/Configuration_Properties.thy ===== *)
theory Configuration_Properties
  imports Conf_Properties Samples
begin

text \<open>
  The properties of the store of the configurations and of the signals.
\<close>

section \<open>The store\<close>

text \<open>
  C26: A lookup by name finds exactly the daemon that has the name.
\<close>

theorem configuration_find_exact:
  assumes "store_ok s" "c_string name"
  shows "\<exists>r. configuration_find name s = Inr r
    \<and> (\<forall>p. r = Some p \<longleftrightarrow> (\<exists>d. heap s p = Some d \<and> d_name d = name))"
proof -
  have ok: "named_ok (heap s) (daemons s)" "heap s key_frame = None"
    "dom (heap s) = set_tree_node (daemons s)"
    using assms(1) by (auto simp: reload_ok_def procs_but_def)
  have "by_name (heap s) (daemons s) name = Some p \<longleftrightarrow> (\<exists>d. heap s p = Some d \<and> d_name d = name)" for p
    unfolding by_name_iff [OF ok(1)] by (auto simp: name_of_def simp flip: ok(3))
  then show ?thesis using configuration_find_lookup [OF ok(1,2) assms(2)] by blast
qed

theorem configuration_find_exact_witness: "configuration_find ''db'' sample = Inr (Some 3)"
proof -
  have "c_string ''db''" by (simp add: c_string_def NUL_def)
  from configuration_find_exact [OF sample_store_ok this] obtain r where
    r: "configuration_find ''db'' sample = Inr r"
      "\<forall>p. r = Some p \<longleftrightarrow> (\<exists>d. heap sample p = Some d \<and> d_name d = ''db'')" by blast
  then have "r = Some 3" by (auto simp: sample_heap sample_stopped_def)
  with r(1) show ?thesis by simp
qed


definition unreadable :: "entry list" where
  "unreadable = [(''.'', None), (''web'', None)]"

lemma unreadable_ok: "entries_ok lc below unreadable"
  by (simp add: entries_ok_def listed_def unreadable_def c_string_def NUL_def)






text \<open>
  C33: A daemon that runs and whose file was removed is freed by a reload, but its process is
  neither signalled nor waited for: it goes on running, unknown to the program.
\<close>

theorem removed_daemon_runs_on:
  assumes "store_ok s" "fs (configuration_path s) = Some entries" "entries_ok lc below entries"
    and "heap s p = Some d" "d_state d = DAEMON_STARTED" "d_name d \<notin> listed_names entries"
  shows "\<exists>s'. configuration_reload lc below fs s = Inr s' \<and> heap s' p = None
    \<and> d_pid d \<in> set (children s') \<and> sent s' = sent s
    \<and> configuration_find (d_name d) s' = Inr None"
proof -
  from configuration_reload_ok [of s fs entries lc below, OF assms(1-3)] obtain s' where
    s': "configuration_reload lc below fs s = Inr s'" "store_ok s'" "store_frame s s'"
      "reloaded_store lc below entries s s'" by blast
  have ok: "named_ok (heap s) (daemons s)" "procs_ok s" "dom (heap s) = set_tree_node (daemons s)"
    using assms(1) by (auto simp: reload_ok_def)
  have p: "p \<in> set_tree_node (daemons s)" using assms(4) ok(3) by auto
  then have c: "c_string (d_name d)"
    using tree_ok_carrier [OF ok(1) [unfolded named_ok_def] p] assms(4) by (auto simp: name_carrier_def)
  have "by_name (heap s) (daemons s) (d_name d) = Some p"
    using p assms(4) by (simp add: by_name_iff [OF ok(1)] name_of_def)
  then have "heap s' p = None" using s'(4) assms(6) unfolding reloaded_store_def by blast
  moreover have "by_name (heap s') (daemons s') (d_name d) = None"
    using s'(4) assms(6) unfolding reloaded_store_def by blast
  then have "configuration_find (d_name d) s' = Inr None"
    using configuration_find_lookup [OF _ _ c, of s'] s'(2) by (simp add: reload_ok_def procs_but_def)
  moreover have "d_pid d \<in> set (children s)" using spawned_pid(2) [OF ok(2) assms(4)] assms(5) by simp
  ultimately show ?thesis using s'(1,3) by (auto simp: store_frame_def)
qed

theorem removed_daemon_runs_on_witness:
  "\<exists>s'. configuration_reload sample_libc (Inr NUL) (\<lambda>_. Some unreadable) sample = Inr s' \<and> heap s' 2 = None
    \<and> 10 \<in> set (children s') \<and> sent s' = sent sample \<and> configuration_find ''web'' s' = Inr None"
proof -
  have "heap sample 2 = Some sample_running" "d_state sample_running = DAEMON_STARTED"
    "d_name sample_running \<notin> listed_names unreadable"
    by (simp_all add: sample_heap sample_running_def listed_names_def listed_def unreadable_def)
  from removed_daemon_runs_on [OF sample_store_ok refl unreadable_ok this, of sample_libc "Inr NUL"]
  show ?thesis by (simp add: sample_running_def)
qed

section \<open>Signals\<close>

text \<open>
  Outside of the calls that wait, the three signals are masked, so no handler runs; while it
  waits in its loop, the program takes all three, and in the teardown the ends of children and the
  alarm but neither another request to stop nor a reload.
\<close>

lemma signal_masks:
  "\<exists>mask s1 mask' s2. signals_setup s = (mask, s1) \<and> signals_alarm t s1 = (mask', s2)
    \<and> {SIGTERM, SIGCHLD, SIGHUP} \<subseteq> procmask s1 \<and> mask \<inter> {SIGTERM, SIGCHLD, SIGHUP} = {}
    \<and> procmask s2 = procmask s1 \<union> {SIGALRM} \<and> {SIGTERM, SIGHUP} \<subseteq> mask'
    \<and> mask' \<inter> {SIGCHLD, SIGALRM} = {} \<and> alarm s2 = Some t
    \<and> map (\<lambda>signo. deliver (procmask s1) signo s1) [SIGTERM, SIGCHLD, SIGHUP] = [s1, s1, s1]
    \<and> map (\<lambda>signo. deliver (procmask s2) signo s2) [SIGTERM, SIGCHLD, SIGHUP, SIGALRM] = [s2, s2, s2, s2]"
  by (auto simp: signals_setup_def signals_alarm_def Let_def SIGTERM_def SIGCHLD_def SIGHUP_def
      SIGALRM_def deliver_def)

text \<open>
  Whatever signals are delivered, with whatever values, only the three values
  \<^verbatim>\<open>reboot(2)\<close> is meant to be called with are ever recorded; a request to suspend is dropped,
  a plain \<^verbatim>\<open>SIGTERM\<close> powers off.
\<close>

lemma reboot_values_only:
  assumes "reboot_value (sigreboot s)"
  shows "reboot_value (sigreboot (deliver_all blocked signos s))
    \<and> sigterm_handler (SI_QUEUE, RB_SW_SUSPEND) s = s
    \<and> sigreboot (sigterm_handler (SI_USER, v) s) = RB_POWER_OFF"
proof -
  have "reboot_value (sigreboot (deliver_all blocked signos s))"
    using assms by (induction signos arbitrary: s) (simp add: deliver_all_def, simp add: deliver_all_Cons deliver_reboot_value)
  then show ?thesis
    by (simp add: sigterm_handler_def RB_SW_SUSPEND_def RB_AUTOBOOT_def RB_HALT_SYSTEM_def
        RB_POWER_OFF_def SI_QUEUE_def SI_USER_def)
qed

lemma reboot_values_only_instance:
  "reboot_value (sigreboot (deliver_all {} [SIGCHLD, SIGTERM] sample))
    \<and> sigterm_handler (SI_QUEUE, RB_SW_SUSPEND) sample = sample
    \<and> sigreboot (sigterm_handler (SI_USER, 0) sample) = RB_POWER_OFF"
  by (rule reboot_values_only) (simp add: sample_def reboot_value_def)

end
