(* ===== verification/Net_Properties.thy ===== *)
theory Net_Properties
  imports Samples
begin

unbundle bit_operations_syntax

text \<open>
  The properties of the socket switch, of its endpoints and of the parsers of its connections.
\<close>

section \<open>Confinement\<close>





section \<open>Commands\<close>

text \<open>
  What a command does: without the capability the connection becomes invalid for good; the
  commands of the system queue their value, the others wait for their operands. The call of
  \<^verbatim>\<open>abort(3)\<close> is never reached.
\<close>

lemma command_table:
  assumes "within (capabilities parser) CAPSET_ALL"
  shows "parser_feed_command parser (push_bit n 1) s =
    (if \<not> CAPSET_HAS (capabilities parser) (push_bit n 1)
     then Inr (parser\<lparr>parser_state := PARSER_STATE_INVALID\<rparr>, s)
     else case command_value n of
            None \<Rightarrow> Inr (parser\<lparr>parser_state := command_state n\<rparr>, s)
          | Some v \<Rightarrow> Inr (parser, sigqueue_sigterm v s))"
  by (rule parser_feed_command_cases [OF assms])

lemma command_table_instance:
  "parser_feed_command (fresh_parser CAPSET_ALL) (push_bit 7 1) sample
    = Inr (fresh_parser CAPSET_ALL, sigqueue_sigterm RB_AUTOBOOT sample)"
proof -
  have "CAPSET_HAS CAPSET_ALL (push_bit 7 1)"
    unfolding CAPSET_HAS_bit CAPSET_ALL_mask by (simp add: bit_simps)
  then show ?thesis
    using command_table [of "fresh_parser CAPSET_ALL" 7 sample]
    by (simp add: fresh_parser_def command_value_def)
qed

text \<open>
  A command byte of 32 or more shifts by the width of the type or more, which C does not
  define, before the capabilities are looked at: any connection can send it.
\<close>

lemma large_command_overflows:
  assumes "parser_state parser = PARSER_STATE_COMMAND" "i < length buf" "32 \<le> byte (buf ! i)" "cnt \<noteq> 0"
  shows "parser_feed buf i cnt parser s = Inl Shift_overflow"
  using assms by (simp add: parser_feed_step parser_step_def buf_read_def)

lemma large_command_overflows_instance:
  "parser_feed [CHR ''A''] 0 1 (fresh_parser 0) sample = Inl Shift_overflow"
  by (rule large_command_overflows) (simp_all add: fresh_parser_def byte_def)

section \<open>The count of the bytes\<close>

text \<open>A message to a daemon: the operation it asks for, and what is parsed behind it.\<close>

lemma daemon_message_parsed:
  assumes "parser_state parser = PARSER_STATE_COMMAND" "within (capabilities parser) CAPSET_ALL"
    "CAPSET_HAS (capabilities parser) (push_bit n 1)" "n < 32" "command_value n = None" "command_state n = expects []"
    and reads: "\<And>buf i cnt parser s. parser_state parser = expects [] \<Longrightarrow>
      parser_step buf i cnt parser s = parser_feed_daemon_name buf i cnt parser expects [] action s"
    and "c_string name" "CHR ''/'' \<notin> set name" "length name \<le> NAME_MAX"
    and "buf = char_of n # name @ NUL # stale"
  shows "parser_feed buf 0 (length name + 2) parser s =
    rbind (configuration_find name s) (\<lambda>daemon.
    rbind (case daemon of None \<Rightarrow> Inr s | Some p \<Rightarrow> action p s) (\<lambda>s.
    parser_feed buf (length name + 2) (2 * (length name + 1)) parser s))"
proof -
  define waiting where "waiting = parser\<lparr>parser_state := expects []\<rparr>"
  have "parser_feed_command parser (push_bit n 1) s = Inr (waiting, s)"
    unfolding parser_feed_command_cases [OF assms(2)] using assms(3,5,6) by (simp add: waiting_def)
  then have "parser_step buf 0 (length name + 2) parser s = Inr (waiting, 1, length name + 1, s)"
    using command_step [of 0 buf n parser "length name + 2" s] assms(1,4,11) by simp
  then have run: "parser_feed buf 0 (length name + 2) parser s = parser_feed buf 1 (length name + 1) waiting s"
    by (simp add: parser_feed_step)
  have rest: "drop 1 buf = name @ NUL # stale" by (simp add: assms(11))
  have again: "waiting\<lparr>parser_state := PARSER_STATE_COMMAND\<rparr> = parser"
    using assms(1) by (simp add: waiting_def)
  have step: "parser_step buf 1 (length name + 1) waiting s =
      parser_feed_daemon_name buf 1 (length name + 1) waiting expects [] action s"
    by (rule reads) (simp add: waiting_def)
  have "parser_feed buf 1 (length name + 1) waiting s = rbind (parser_step buf 1 (length name + 1) waiting s)
      (\<lambda>(parser, i, cnt, s). parser_feed buf i cnt parser s)"
    by (rule parser_feed_step) simp
  also have "\<dots> = rbind (configuration_find name s) (\<lambda>daemon.
      rbind (case daemon of None \<Rightarrow> Inr s | Some p \<Rightarrow> action p s) (\<lambda>s.
      parser_feed buf (1 + (length name + 1)) (length name + 1 + (length name + 1)) parser s))"
    unfolding step
    by (subst daemon_name_complete [OF rest assms(8-10)]) (simp_all add: rbind_assoc again)
  finally show ?thesis unfolding run by (simp add: mult_2)
qed

text \<open>
  After a complete message the parser does not stop: the count of the bytes left grows by the
  length of the name where it should shrink. So the bytes behind the message, which were never
  received, are parsed as further messages with the capabilities of the connection.
\<close>

lemma bytes_behind_message_parsed:
  assumes "parser_state parser = PARSER_STATE_COMMAND" "within (capabilities parser) CAPSET_ALL"
    "CAPSET_HAS (capabilities parser) CAPABILITY_DAEMON_START"
    and "c_string name" "CHR ''/'' \<notin> set name" "length name \<le> NAME_MAX"
    and "buf = char_of (1 :: nat) # name @ NUL # stale"
  shows "parser_feed buf 0 (length name + 2) parser s =
    rbind (configuration_find name s) (\<lambda>daemon.
    rbind (case daemon of None \<Rightarrow> Inr s | Some p \<Rightarrow> daemon_start p s) (\<lambda>s.
    parser_feed buf (length name + 2) (2 * (length name + 1)) parser s))"
proof -
  have "CAPSET_HAS (capabilities parser) (push_bit 1 1)"
    using assms(3) by (simp add: CAPABILITY_DAEMON_START_def)
  then show ?thesis
    by (intro daemon_message_parsed [where n = 1 and expects = PARSER_STATE_DAEMON_START_NAME and stale = stale] assms(1,2,4-7))
      (simp_all add: command_value_def command_state_def parser_step_def)
qed

lemma bytes_behind_message_parsed_instance:
  "parser_feed (char_of (1 :: nat) # ''db'' @ NUL # [CHR 0x05]) 0 (length ''db'' + 2) (fresh_parser CAPSET_ALL) sample =
    rbind (configuration_find ''db'' sample) (\<lambda>daemon.
    rbind (case daemon of None \<Rightarrow> Inr sample | Some p \<Rightarrow> daemon_start p sample) (\<lambda>s.
    parser_feed (char_of (1 :: nat) # ''db'' @ NUL # [CHR 0x05]) (length ''db'' + 2) (2 * (length ''db'' + 1))
      (fresh_parser CAPSET_ALL) s))"
proof (rule bytes_behind_message_parsed)
  show "CAPSET_HAS (capabilities (fresh_parser CAPSET_ALL)) CAPABILITY_DAEMON_START"
    unfolding CAPABILITY_DAEMON_START_def CAPSET_HAS_bit CAPSET_ALL_mask fresh_parser_def by (simp add: bit_simps)
qed (simp_all add: fresh_parser_def c_string_def NUL_def NAME_MAX_def)

text \<open>
  C30: A name that ends where the buffer ends makes the parser read beyond the buffer.
\<close>

theorem name_at_end_overruns:
  assumes "parser_ok parser" "store_ok s" "net_ok s"
    and "parser_state parser = PARSER_STATE_DAEMON_START_NAME []"
    and "c_string name" "CHR ''/'' \<notin> set name" "length name \<le> NAME_MAX" "length name < cnt"
  shows "parser_feed (received @ name @ [NUL]) (length received) cnt parser s = Inl Out_of_bounds"
proof -
  define buf where "buf = received @ name @ [NUL]"
  define idle where "idle = parser\<lparr>parser_state := PARSER_STATE_COMMAND\<rparr>"
  have rest: "drop (length received) buf = name @ NUL # []" by (simp add: buf_def)
  have step: "parser_step buf (length received) cnt parser s =
      rbind (configuration_find name s) (\<lambda>daemon.
      rbind (case daemon of None \<Rightarrow> Inr s | Some p \<Rightarrow> daemon_start p s) (\<lambda>s.
      Inr (idle, length received + (length name + 1), cnt + (length name + 1), s)))"
    using assms(4) daemon_name_complete [OF rest assms(5-8)] by (simp add: parser_step_def idle_def)
  have cnt: "cnt \<noteq> 0" using assms(8) by simp
  from parser_step_ok [OF assms(1-3) cnt, of buf "length received"] consider
    (fault) "parser_step buf (length received) cnt parser s \<in> {Inl Out_of_bounds, Inl Shift_overflow}"
  | (ok) parser' i' cnt' s' where "parser_step buf (length received) cnt parser s = Inr (parser', i', cnt', s')"
    unfolding step_ok_def by blast
  then show ?thesis
  proof cases
    case ok
    then have r: "parser' = idle" "i' = length buf" "cnt' \<noteq> 0"
      unfolding step by (auto simp: result_iff buf_def)
    have "parser_feed buf (length received) cnt parser s = parser_feed buf i' cnt' parser' s'"
      using cnt ok by (simp add: parser_feed_step)
    also have "\<dots> = Inl Out_of_bounds"
      using r by (simp add: parser_feed_step parser_step_def buf_read_def idle_def)
    finally show ?thesis by (simp add: buf_def)
  next
    case fault
    have names: "named_ok (heap s) (daemons s)" "heap s key_frame = None" "procs_ok s"
      using assms(2) by (auto simp: reload_ok_def procs_but_def)
    have "\<exists>s'. daemon_start p s = Inr s'" if "by_name (heap s) (daemons s) name = Some p" for p
      using that by_name_iff [OF names(1)] named_ok_dom [OF names(1)] daemon_start.action_ok [OF names(3), of p]
      by blast
    then have "\<exists>r. parser_step buf (length received) cnt parser s = Inr r"
      unfolding step configuration_find_lookup [OF names(1,2) assms(5)]
      by (cases "by_name (heap s) (daemons s) name") auto
    with fault show ?thesis by auto
  qed
qed

theorem name_at_end_overruns_witness:
  "parser_feed ([CHR 0x01] @ ''db'' @ [NUL]) 1 3
     (fresh_parser CAPSET_ALL\<lparr>parser_state := PARSER_STATE_DAEMON_START_NAME []\<rparr>) sample = Inl Out_of_bounds"
proof -
  define parser where "parser = fresh_parser CAPSET_ALL\<lparr>parser_state := PARSER_STATE_DAEMON_START_NAME []\<rparr>"
  have "CAPSET_HAS CAPSET_ALL CAPABILITY_DAEMON_START"
    unfolding CAPABILITY_DAEMON_START_def CAPSET_HAS_bit CAPSET_ALL_mask by (simp add: bit_simps)
  then have "parser_ok parser" by (simp add: parser_def parser_ok_def fresh_parser_def name_ok_def)
  from name_at_end_overruns [OF this sample_store_ok sample_net_ok, of "''db''" 3 "[CHR 0x01]"]
  show ?thesis by (simp add: parser_def c_string_def NUL_def NAME_MAX_def)
qed

section \<open>Endpoints\<close>

text \<open>
  C34: Creating an endpoint with the name of one that exists fails, and removes the socket of the
  existing one from the file system: nobody can connect to it any more.
\<close>

theorem endpoint_conflict_unlinks:
  assumes "node_allocations s = q # qs" "q \<noteq> key_frame" "nodes s q = None"
    and "new_fds s = fd # rest" "0 \<le> fd" "fd < 2 ^ 31" "fd \<notin> open_fds s"
    and "path = socket_endpoints_path s @ ''/'' @ name" "path \<in> files s" "length path < SOCKADDR_UN_MAXLEN"
  shows "\<exists>s'. create_endpoint name caps s = Inr s' \<and> nodes s' = nodes s \<and> files s' = files s - {path}"
  using assms
  by (simp add: create_endpoint_def socket_endpoint_node_create_def node_malloc_def new_fd_def bind_fd_def
      unlink_def close_fd_def Let_def)

theorem endpoint_conflict_unlinks_witness:
  "\<exists>s'. create_endpoint ''initctl'' 1 sample = Inr s' \<and> nodes s' = nodes sample
    \<and> files s' = files sample - {''/run/initctl''}"
  by (rule endpoint_conflict_unlinks [where q = 4 and qs = "[]" and fd = 5 and rest = "[]"])
    (simp_all add: sample_def key_frame_def SOCKADDR_UN_MAXLEN_def)

text \<open>
  A connection whose descriptor does not fit an \<^verbatim>\<open>fd_set\<close> is put in the set all the same,
  outside of its array.
\<close>

lemma descriptor_beyond_set:
  assumes "nodes s p = Some (Endpoint_node fd0 caps)" "new_fds s = fd # rest"
    "FD_SETSIZE \<le> fd" "fd < 2 ^ 31" "fd \<notin> open_fds s" "answers s = []"
    and "node_allocations s = q # qs" "q \<noteq> key_frame" "nodes s q = None"
  shows "socket_endpoint_node_operate p s = Inl Out_of_bounds"
proof -
  have "0 \<le> fd" using assms(3) by (simp add: FD_SETSIZE_def)
  with assms show ?thesis
    by (simp add: socket_endpoint_node_operate_def new_fd_def succeeds_def socket_connection_node_create_def
        node_malloc_def socket_switch_insert_def FD_SET_def)
qed

lemma descriptor_beyond_set_instance:
  "socket_endpoint_node_operate 2 (sample\<lparr>new_fds := [1024]\<rparr>) = Inl Out_of_bounds"
  by (rule descriptor_beyond_set [where q = 4 and qs = "[]" and fd = 1024 and rest = "[]"])
    (simp_all add: sample_def FD_SETSIZE_def key_frame_def)

end
