(* ===== verification/Client_Properties.thy ===== *)
theory Client_Properties
  imports Net_Properties
begin

unbundle bit_operations_syntax

text \<open>
  The properties of the control client, of the protocol it speaks with the parser of a connection,
  and of the child of a daemon.
\<close>

section \<open>Words in messages\<close>








section \<open>Commands of the client\<close>

text \<open>
  C28: Client and server agree on the commands: the identifier the client computes for each name is
  the shift of the server's capability, and any other name has an identifier behind the last one.
\<close>

theorem command_ids_agree:
  "map initctl_command_id command_names = [0..<9]
    \<and> map (\<lambda>i. push_bit i (1 :: capset)) [0..<9] =
        [CAPABILITY_ENDPOINT_CREATE, CAPABILITY_DAEMON_START, CAPABILITY_DAEMON_STOP,
         CAPABILITY_DAEMON_RELOAD, CAPABILITY_DAEMON_END, CAPABILITY_SYSTEM_POWEROFF,
         CAPABILITY_SYSTEM_HALT, CAPABILITY_SYSTEM_REBOOT, CAPABILITY_SYSTEM_SUSPEND]
    \<and> (\<forall>command. c_string command \<longrightarrow> command \<notin> set command_names \<longrightarrow> initctl_command_id command = 9)"
proof (intro conjI allI impI)
  show "map initctl_command_id command_names = [0..<9]"
    by (simp add: command_names_def command_id_names c_string_def NUL_def upt_rec)
  show "map (\<lambda>i. push_bit i (1 :: capset)) [0..<9] =
        [CAPABILITY_ENDPOINT_CREATE, CAPABILITY_DAEMON_START, CAPABILITY_DAEMON_STOP,
         CAPABILITY_DAEMON_RELOAD, CAPABILITY_DAEMON_END, CAPABILITY_SYSTEM_POWEROFF,
         CAPABILITY_SYSTEM_HALT, CAPABILITY_SYSTEM_REBOOT, CAPABILITY_SYSTEM_SUSPEND]"
    by (simp add: capability_defs upt_rec)
  fix command assume c: "c_string command" "command \<notin> set command_names"
  then have "takeWhile (\<lambda>name. name \<noteq> command) command_names = command_names"
    by (auto simp: takeWhile_eq_all_conv)
  then show "initctl_command_id command = 9"
    unfolding command_id_names [OF c(1)] by (simp add: command_names_def)
qed

theorem command_ids_agree_witness: "initctl_command_id ''status'' = 9"
  using command_ids_agree by (simp add: command_names_def c_string_def NUL_def)

lemma capability_loop_names:
  "capability_loop args caps0 = Some caps \<Longrightarrow> list_all c_string args \<Longrightarrow>
     set args \<subseteq> set command_names \<and> (within caps0 CAPSET_ALL \<longrightarrow> within caps CAPSET_ALL)"
proof (induction args arbitrary: caps0)
  case (Cons command args)
  define c :: capset where "c = push_bit (initctl_command_id command) 1"
  have step: "c AND CAPSET_ALL \<noteq> 0" "capability_loop args (caps0 OR c) = Some caps"
    using Cons.prems(1) by (auto simp: Let_def c_def split: if_splits)
  have "bit CAPSET_ALL (initctl_command_id command)"
    using step(1) CAPSET_HAS_bit [of CAPSET_ALL "initctl_command_id command"]
    by (simp add: CAPSET_HAS_def c_def and.commute)
  then have less: "initctl_command_id command < 9" unfolding CAPSET_ALL_mask by (simp add: bit_mask_iff)
  then have "command \<in> set command_names" using command_id_less [of command] Cons.prems(2) by simp
  moreover have "within (caps0 OR c) CAPSET_ALL" if "within caps0 CAPSET_ALL"
  proof -
    have "within c CAPSET_ALL" unfolding within_def c_def CAPSET_ALL_mask
      by (rule bit_word_eqI) (use less in \<open>auto simp: bit_simps\<close>)
    with that show ?thesis by (simp add: within_def and.commute [of _ CAPSET_ALL] bit.conj_disj_distrib)
  qed
  ultimately show ?case using Cons.IH [OF step(2)] Cons.prems(2) by auto
qed simp

text \<open>
  C32: The client takes the name of a new endpoint for one of its capabilities: the command to create
  an endpoint only writes a message when the name of the endpoint is the name of a command.
\<close>

theorem new_endpoint_named_like_command:
  assumes "initctl_main cl (''create-endpoint'' # name # caps) = Written path message"
    and "list_all c_string (name # caps)"
  shows "name \<in> set command_names"
proof -
  have plain: "getopt_args spec (''create-endpoint'' # name # caps) = ([], ''create-endpoint'' # name # caps)"
    for spec by simp
  have "initctl_command_id ''create-endpoint'' = 0"
    by (simp add: command_id_names c_string_def NUL_def command_names_def)
  then have "capability_loop (name # caps) 0 \<noteq> None"
    using assms(1) plain by (auto simp: initctl_main_def Let_def split: if_splits option.splits)
  then obtain c where "capability_loop (name # caps) 0 = Some c" by blast
  from capability_loop_names [OF this assms(2)] show ?thesis by simp
qed

definition sample_client :: client where
  "sample_client = \<lparr>ENDPOINTS_PATH = ''/run'', ENDPOINTS_ROOT = ''initctl'', socket_succeeds = True,
     connect_succeeds = (\<lambda>_. True), write_succeeds = True\<rparr>"

theorem new_endpoint_named_like_command_witness:
  "(\<exists>message. initctl_main sample_client [''create-endpoint'', ''stop'', ''start''] = Written ''/run/initctl'' message)
    \<and> ''stop'' \<in> set command_names"
proof -
  have ids: "initctl_command_id ''create-endpoint'' = 0" "initctl_command_id ''stop'' = 2"
    "initctl_command_id ''start'' = 1"
    by (simp_all add: command_id_names c_string_def NUL_def command_names_def)
  have "\<exists>message. initctl_main sample_client (''create-endpoint'' # ''stop'' # [''start''])
      = Written ''/run/initctl'' message"
    by (simp add: initctl_main_def ids Let_def CAPSET_ALL_def CAPABILITY_SYSTEM_SUSPEND_def
        initctl_endpoint_create_def write_message_def initctl_open_def sample_client_def SOCKADDR_UN_MAXLEN_def)
  then show ?thesis
    using new_endpoint_named_like_command [of sample_client "''stop''" "[''start'']"]
    by (auto simp: c_string_def NUL_def)
qed

section \<open>The protocol\<close>






text \<open>The operations the commands of daemons ask for.\<close>

definition daemon_operation :: "nat \<Rightarrow> ptr \<Rightarrow> 'z procs_scheme \<Rightarrow> 'z procs_scheme result" where
  "daemon_operation n = (if n = 1 then daemon_start else if n = 2 then daemon_stop
     else if n = 3 then daemon_reload else daemon_end)"

lemma daemon_operations:
  "n = 1 \<Longrightarrow> daemon_operation n = daemon_start" "n = 2 \<Longrightarrow> daemon_operation n = daemon_stop"
  "n = 3 \<Longrightarrow> daemon_operation n = daemon_reload" "n = 4 \<Longrightarrow> daemon_operation n = daemon_end"
  by (simp_all add: daemon_operation_def)

lemma initctl_daemon_message:
  assumes "initctl_main cl [command_names ! n, name] = Written path message" "n \<in> {1, 2, 3, 4}"
  shows "message = char_of n # name @ [NUL]"
proof -
  have plain: "getopt_args spec [command_names ! n, name] = ([], [command_names ! n, name])" for spec
    using assms(2) by (auto simp: command_names_def)
  have "c_string (command_names ! n)" using assms(2) by (auto simp: command_names_def c_string_def NUL_def)
  then have "initctl_command_id (command_names ! n) = n"
    using assms(2) by (auto simp: command_id_names) (simp_all add: command_names_def)
  then have "initctl_daemon cl (ENDPOINTS_ROOT cl) n name = Written path message"
    using assms plain by (auto simp: initctl_main_def)
  then show ?thesis
    by (auto simp: initctl_daemon_def write_message_def split: option.splits if_splits)
qed

text \<open>
  C16: From the command line to the daemon: the message the client writes for a command on a daemon
  makes the server look the daemon up by its name and do the operation of the command, once, when the
  connection has the right for it. Then the parser goes on behind the message.
\<close>

theorem client_message_acts:
  assumes "initctl_main cl [command_names ! n, name] = Written path message" "n \<in> {1, 2, 3, 4}"
    and "c_string name" "CHR ''/'' \<notin> set name" "length name \<le> NAME_MAX"
    and "parser_state parser = PARSER_STATE_COMMAND" "within (capabilities parser) CAPSET_ALL"
    "CAPSET_HAS (capabilities parser) (push_bit n 1)"
  shows "parser_feed (message @ stale) 0 (length message) parser s =
    rbind (configuration_find name s) (\<lambda>daemon.
    rbind (case daemon of None \<Rightarrow> Inr s | Some p \<Rightarrow> daemon_operation n p s) (\<lambda>s.
    parser_feed (message @ stale) (length message) (2 * (length name + 1)) parser s))"
proof -
  have m: "message @ stale = char_of n # name @ NUL # stale" "length message = length name + 2"
    using initctl_daemon_message [OF assms(1,2)] by simp_all
  note parsed = daemon_message_parsed [where n = n and buf = "message @ stale" and name = name
      and parser = parser, OF assms(6-8) _ _ _ _ assms(3-5) m(1)]
  note parsing = command_value_def command_state_def parser_step_def
  from assms(2) consider "n = 1" | "n = 2" | "n = 3" | "n = 4" by auto
  then show ?thesis
  proof cases
    case 1
    then show ?thesis unfolding m(2) daemon_operations(1) [OF 1]
      by (subst parsed [where expects = PARSER_STATE_DAEMON_START_NAME and action = daemon_start])
        (simp_all add: parsing)
  next
    case 2
    then show ?thesis unfolding m(2) daemon_operations(2) [OF 2]
      by (subst parsed [where expects = PARSER_STATE_DAEMON_STOP_NAME and action = daemon_stop])
        (simp_all add: parsing)
  next
    case 3
    then show ?thesis unfolding m(2) daemon_operations(3) [OF 3]
      by (subst parsed [where expects = PARSER_STATE_DAEMON_RELOAD_NAME and action = daemon_reload])
        (simp_all add: parsing)
  next
    case 4
    then show ?thesis unfolding m(2) daemon_operations(4) [OF 4]
      by (subst parsed [where expects = PARSER_STATE_DAEMON_END_NAME and action = daemon_end])
        (simp_all add: parsing)
  qed
qed

theorem client_message_acts_witness:
  "\<exists>message. initctl_main sample_client [''stop'', ''web''] = Written ''/run/initctl'' message
    \<and> parser_feed (message @ [NUL]) 0 (length message) (fresh_parser CAPSET_ALL) sample =
      rbind (configuration_find ''web'' sample) (\<lambda>daemon.
      rbind (case daemon of None \<Rightarrow> Inr sample | Some p \<Rightarrow> daemon_stop p sample) (\<lambda>s.
      parser_feed (message @ [NUL]) (length message) 8 (fresh_parser CAPSET_ALL) s))"
proof -
  have "initctl_command_id ''stop'' = 2"
    by (simp add: command_id_names c_string_def NUL_def command_names_def)
  then have run: "\<exists>message. initctl_main sample_client [''stop'', ''web''] = Written ''/run/initctl'' message"
    by (simp add: initctl_main_def initctl_daemon_def write_message_def initctl_open_def sample_client_def
        SOCKADDR_UN_MAXLEN_def)
  have has: "CAPSET_HAS (capabilities (fresh_parser CAPSET_ALL)) (push_bit 2 1)"
    unfolding CAPSET_HAS_bit CAPSET_ALL_mask fresh_parser_def by (simp add: bit_simps)
  have stop: "[command_names ! 2, ''web''] = [''stop'', ''web'']" by (simp add: command_names_def)
  have parsed: "parser_feed (message @ [NUL]) 0 (length message) (fresh_parser CAPSET_ALL) sample =
      rbind (configuration_find ''web'' sample) (\<lambda>daemon.
      rbind (case daemon of None \<Rightarrow> Inr sample | Some p \<Rightarrow> daemon_operation 2 p sample) (\<lambda>s.
      parser_feed (message @ [NUL]) (length message) (2 * (length ''web'' + 1)) (fresh_parser CAPSET_ALL) s))"
    if "initctl_main sample_client [''stop'', ''web''] = Written ''/run/initctl'' message" for message
    by (rule client_message_acts [where n = 2 and name = "''web''", unfolded stop, OF that _ _ _ _ _ _ has])
      (simp_all add: c_string_def NUL_def NAME_MAX_def fresh_parser_def)
  from run obtain message where
    m: "initctl_main sample_client [''stop'', ''web''] = Written ''/run/initctl'' message" by blast
  have "2 * (length ''web'' + 1) = 8" by simp
  with m parsed [OF m] show ?thesis unfolding daemon_operations(2) [OF refl] by metis
qed

text \<open>What the byte of a command that ends the system does to the server.\<close>

lemma system_byte_queues:
  assumes "parser_state parser = PARSER_STATE_COMMAND" "within (capabilities parser) CAPSET_ALL"
    "CAPSET_HAS (capabilities parser) (push_bit n 1)" "command_value n = Some v"
  shows "parser_feed (char_of n # stale) 0 1 parser s = Inr (parser, sigqueue_sigterm v s)"
proof -
  have "n < 32" using assms(4) by (auto simp: command_value_def split: if_splits)
  have "parser_feed_command parser (push_bit n 1) s = Inr (parser, sigqueue_sigterm v s)"
    unfolding parser_feed_command_cases [OF assms(2)] using assms(3,4) by simp
  then have "parser_step (char_of n # stale) 0 1 parser s = Inr (parser, 1, 0, sigqueue_sigterm v s)"
    using command_step [of 0 "char_of n # stale" n parser 1 s] assms(1) \<open>n < 32\<close> by simp
  then show ?thesis by (simp add: parser_feed_step parser_feed.simps)
qed

text \<open>
  The byte the client writes to power off, halt or reboot queues the signal for it when none
  is pending, and the main loop then ends with exactly this value: its next wait delivers it.
\<close>

lemma system_message_reboots:
  assumes "parser_state parser = PARSER_STATE_COMMAND" "within (capabilities parser) CAPSET_ALL"
    "CAPSET_HAS (capabilities parser) (push_bit n 1)" "n \<in> {5, 6, 7}"
    and "pending_sigterm s = None" "handlers s SIGTERM = Some SIGTERM_HANDLER" "SIGTERM \<notin> masked"
  shows "\<exists>s' v. parser_feed (char_of n # stale) 0 1 parser s = Inr (parser, s') \<and> command_value n = Some v
    \<and> sigreboot (deliver masked SIGTERM s') = v \<and> v \<noteq> 0"
proof -
  obtain v where v: "command_value n = Some v" "v \<in> {RB_POWER_OFF, RB_HALT_SYSTEM, RB_AUTOBOOT}"
    using assms(4) by (auto simp: command_value_def)
  have "sigreboot (deliver masked SIGTERM (sigqueue_sigterm v s)) = v"
    using assms(5-7) v(2) by (auto simp: sigqueue_sigterm_def deliver_def sigterm_handler_def)
  moreover have "v \<noteq> 0"
    using v(2) by (auto simp: RB_POWER_OFF_def RB_HALT_SYSTEM_def RB_AUTOBOOT_def)
  ultimately show ?thesis using system_byte_queues [OF assms(1-3) v(1)] v(1) by blast
qed

lemma system_message_reboots_instance:
  "\<exists>s'. parser_feed [char_of (7 :: nat)] 0 1 (fresh_parser CAPSET_ALL) sample = Inr (fresh_parser CAPSET_ALL, s')
    \<and> sigreboot (deliver {} SIGTERM s') = RB_AUTOBOOT"
proof -
  have "CAPSET_HAS (capabilities (fresh_parser CAPSET_ALL)) (push_bit 7 1)"
    unfolding CAPSET_HAS_bit CAPSET_ALL_mask fresh_parser_def by (simp add: bit_simps)
  moreover have "pending_sigterm sample = None" "handlers sample SIGTERM = Some SIGTERM_HANDLER"
    by (simp_all add: sample_def SIGTERM_def SIGCHLD_def SIGHUP_def)
  ultimately show ?thesis
    using system_message_reboots [of "fresh_parser CAPSET_ALL" 7 sample "{}" "[]"]
    by (auto simp: fresh_parser_def command_value_def)
qed

section \<open>The child of a daemon\<close>

text \<open>
  C27: When the program of a daemon runs, it has the standard descriptors, the mask, the directory, the
  credentials, the session and the priority of its configuration, no signal is blocked, and no
  descriptor the setup opened is left besides the three.
\<close>

theorem daemon_runs_as_configured:
  assumes "daemon_child_setup b name conf c = Some (path, argv, envp, c')"
    and "c_fds c 0 \<noteq> None" "c_fds c 1 \<noteq> None" "c_fds c 2 \<noteq> None"
  shows "credentials b conf c c' \<and> conf_path conf = Some path
    \<and> argv = (case conf_arguments conf of None \<Rightarrow> [name] | Some args \<Rightarrow> args)
    \<and> envp = (case conf_environment conf of None \<Rightarrow> [] | Some env \<Rightarrow> env)
    \<and> (\<exists>input output. input = (case conf_in conf of None \<Rightarrow> CONFIG_DAEMON_DEV_NULL b | Some p \<Rightarrow> p)
        \<and> output = (case conf_out conf of None \<Rightarrow> CONFIG_DAEMON_DEV_NULL b | Some p \<Rightarrow> p)
        \<and> c_fds c' = (keeps (c_fds c))(0 \<mapsto> (input, False, False), 1 \<mapsto> (output, True, False),
            2 \<mapsto> (case conf_err conf of None \<Rightarrow> output | Some p \<Rightarrow> p, True, False)))"
proof (rule setup_split [OF assms(1)], goal_cases)
  case (1 infd outfd errfd c1 c2 c3 c4 c5 c6)
  note std = standard_descriptors [OF 1(1-6) assms(2-4)]
  have "credentials b conf c c'" using 1(7) std(5) by (simp add: credentials_def)
  with 1(8,12-14) std(1) show ?case by simp
qed

definition sample_build :: child_build where
  "sample_build = \<lparr>CONFIG_DAEMON_DEV_NULL = ''/dev/null'', CONFIG_DAEMON_DEFAULT_WORKDIR = ''/''\<rparr>"

text \<open>A child of the program right after the fork, with the three standard descriptors open.\<close>

definition sample_child :: child where
  "sample_child = \<lparr>c_fds = [0 \<mapsto> (''/dev/console'', False, False), 1 \<mapsto> (''/dev/console'', True, False),
     2 \<mapsto> (''/dev/console'', True, False)], c_umask = 0, c_cwd = ''/'', c_blocked = {SIGTERM}, c_euid = 0,
     c_egid = 0, c_session_leader = False, c_nice = 0, child_answers = []\<rparr>"

definition sample_conf :: daemon_conf where
  "sample_conf = daemon_conf_init\<lparr>conf_path := Some ''/bin/db''\<rparr>"

lemma lowest_fd_first:
  assumes "n < OPEN_MAX" "f n = None" "\<And>m. m < n \<Longrightarrow> f m \<noteq> None"
  shows "lowest_fd f = n"
proof -
  have "[0..<OPEN_MAX] = [0..<n] @ n # [Suc n..<OPEN_MAX]"
    using assms(1) upt_add_eq_append [of 0 n "OPEN_MAX - n"] by (simp add: upt_conv_Cons)
  moreover have "takeWhile (\<lambda>m. f m \<noteq> None) ([0..<n] @ n # [Suc n..<OPEN_MAX]) = [0..<n]"
    using assms(2,3) by (subst takeWhile_append2) auto
  ultimately show ?thesis by (simp add: lowest_fd_def)
qed

theorem daemon_runs_as_configured_witness:
  "\<exists>c'. credentials sample_build sample_conf sample_child c'
    \<and> c_fds c' = (keeps (c_fds sample_child))(0 \<mapsto> (''/dev/null'', False, False),
        1 \<mapsto> (''/dev/null'', True, False), 2 \<mapsto> (''/dev/null'', True, False))"
proof -
  have three: "lowest_fd (c_fds sample_child) = 3"
    by (rule lowest_fd_first) (auto simp: sample_child_def OPEN_MAX_def less_Suc_eq numeral_eq_Suc)
  have four: "lowest_fd ((c_fds sample_child)(3 \<mapsto> (f, w, x))) = 4" for f w x
    by (rule lowest_fd_first) (auto simp: sample_child_def OPEN_MAX_def less_Suc_eq numeral_eq_Suc)
  define runs where "runs = daemon_child_setup sample_build ''db'' sample_conf sample_child"
  have answers: "child_answer c = (True, c)" if "child_answers c = []" for c
    using that by (simp add: child_answer_def)
  have "runs \<noteq> None"
    using three four
    by (simp add: runs_def daemon_child_setup_def sample_conf_def daemon_conf_init_def sample_build_def
        open_cloexec_def answers sample_child_def OPEN_MAX_def dup2_def chdir_def set_umask_def
        daemon_child_sigprocmask_def setuid_def setgid_def setsid_def setpriority_def execve_def Let_def)
  then obtain path argv envp c' where
    "daemon_child_setup sample_build ''db'' sample_conf sample_child = Some (path, argv, envp, c')"
    unfolding runs_def by auto
  from daemon_runs_as_configured [OF this] show ?thesis
    by (auto simp: sample_child_def sample_conf_def daemon_conf_init_def sample_build_def)
qed

text \<open>
  C35: A daemon whose configuration has a user and a group of its own never runs: the child gives up
  its rights before it changes the group, and before it raises the priority.
\<close>

theorem user_before_group_fails:
  assumes "c_fds c 0 \<noteq> None" "c_fds c 1 \<noteq> None" "c_fds c 2 \<noteq> None" "conf_uid conf \<noteq> 0"
    and "conf_gid conf \<noteq> c_egid c \<or> max (- 20) (min 19 (conf_priority conf)) < c_nice c"
  shows "daemon_child_setup b name conf c = None"
proof (rule ccontr)
  assume "daemon_child_setup b name conf c \<noteq> None"
  then obtain path argv envp c' where
    run: "daemon_child_setup b name conf c = Some (path, argv, envp, c')" by (cases "daemon_child_setup b name conf c") auto
  show False
  proof (rule setup_split [OF run], goal_cases)
    case (1 infd outfd errfd c1 c2 c3 c4 c5 c6)
    note std = standard_descriptors [OF 1(1-6) assms(1-3)]
    show ?case using 1(10,11) std(2,4) assms(4,5) by auto
  qed
qed

theorem user_before_group_fails_witness:
  "daemon_child_setup sample_build ''db'' (sample_conf\<lparr>conf_uid := 33, conf_gid := 33\<rparr>) sample_child = None"
  by (rule user_before_group_fails) (simp_all add: sample_child_def)

text \<open>
  C37: A daemon that is started while its configuration is loaded inherits the open file: the stream is
  closed after the start only, and its descriptor survives \<^verbatim>\<open>execve(2)\<close>.
\<close>

theorem configuration_file_inherited:
  assumes "configuration_fopenat dir path c = (Some fd, c1)"
    and "daemon_child_setup b name conf c1 = Some (program, argv, envp, c2)"
    and "c_fds c 0 \<noteq> None" "c_fds c 1 \<noteq> None" "c_fds c 2 \<noteq> None"
  shows "c_fds c2 fd = Some (dir @ ''/'' @ path, False, False)"
proof -
  have opened: "c_fds c fd = None" "c_fds c1 = (c_fds c)(fd \<mapsto> (dir @ ''/'' @ path, False, False))"
    using configuration_fopenat_fds(2) [OF assms(1)] by auto
  then have above: "fd \<noteq> 0" "fd \<noteq> 1" "fd \<noteq> 2" using assms(3-5) by (metis option.distinct(1))+
  have std1: "c_fds c1 0 \<noteq> None" "c_fds c1 1 \<noteq> None" "c_fds c1 2 \<noteq> None"
    using assms(3-5) above by (simp_all add: opened(2) del: not_None_eq)
  show ?thesis
  proof (rule setup_split [OF assms(2)], goal_cases)
    case (1 infd outfd errfd d1 d2 d3 d4 d5 d6)
    from standard_descriptors(1) [OF 1(1-6) std1] 1(8) above
    show ?case by (simp add: opened(2) keeps_def)
  qed
qed

lemma sample_opened:
  "configuration_fopenat ''/etc/cyberd'' ''db'' sample_child = (Some 3, sample_child\<lparr>c_fds :=
     (c_fds sample_child)(3 \<mapsto> (''/etc/cyberd/db'', False, False))\<rparr>)"
proof -
  have "lowest_fd (c_fds sample_child) = 3"
    by (rule lowest_fd_first) (auto simp: sample_child_def OPEN_MAX_def numeral_eq_Suc less_Suc_eq)
  moreover have "child_answers sample_child = []" by (simp add: sample_child_def)
  ultimately show ?thesis
    by (simp add: configuration_fopenat_def child_answer_def OPEN_MAX_def)
qed

theorem configuration_file_inherited_witness:
  "\<exists>path argv envp c2. daemon_child_setup sample_build ''db'' sample_conf (snd (configuration_fopenat ''/etc/cyberd'' ''db'' sample_child))
      = Some (path, argv, envp, c2)
    \<and> c_fds c2 3 = Some (''/etc/cyberd'' @ ''/'' @ ''db'', False, False)"
proof -
  define c1 where "c1 = sample_child\<lparr>c_fds := (c_fds sample_child)(3 \<mapsto> (''/etc/cyberd/db'', False, False))\<rparr>"
  define runs where "runs = daemon_child_setup sample_build ''db'' sample_conf c1"
  have four: "lowest_fd (c_fds c1) = 4"
    by (rule lowest_fd_first) (auto simp: c1_def sample_child_def OPEN_MAX_def numeral_eq_Suc less_Suc_eq)
  have five: "lowest_fd ((c_fds c1)(4 \<mapsto> (f, w, x))) = 5" for f w x
    by (rule lowest_fd_first) (auto simp: c1_def sample_child_def OPEN_MAX_def numeral_eq_Suc less_Suc_eq)
  have answers: "child_answer c = (True, c)" if "child_answers c = []" for c
    using that by (simp add: child_answer_def)
  have "runs \<noteq> None"
    using four five
    by (simp add: runs_def daemon_child_setup_def sample_conf_def daemon_conf_init_def sample_build_def
        open_cloexec_def answers sample_child_def OPEN_MAX_def dup2_def chdir_def set_umask_def c1_def
        daemon_child_sigprocmask_def setuid_def setgid_def setsid_def setpriority_def execve_def Let_def)
  then obtain path argv envp c2 where
    run: "daemon_child_setup sample_build ''db'' sample_conf c1 = Some (path, argv, envp, c2)"
    unfolding runs_def by auto
  have "c_fds c2 3 = Some (''/etc/cyberd'' @ ''/'' @ ''db'', False, False)"
    by (rule configuration_file_inherited [OF sample_opened [folded c1_def] run]) (simp_all add: sample_child_def)
  then show ?thesis using run by (simp add: sample_opened flip: c1_def)
qed

text \<open>
  C38: The run commands are executed with the three signals blocked that the process has blocked before:
  they cannot be terminated by \<^verbatim>\<open>SIGTERM\<close>, and neither can what they start, unless it
  unblocks them. The child of a daemon does.
\<close>

theorem run_commands_blocked:
  assumes "c_blocked c = procmask (snd (signals_setup s))"
    and "rc_child path environ c = Some (program, argv, envp, c')"
  shows "{SIGTERM, SIGCHLD, SIGHUP} \<subseteq> c_blocked c' \<and> program = path \<and> argv = [''rc''] \<and> envp = environ"
  using assms execve_Some [of "Some path" "[''rc'']" environ c program argv envp c']
  by (auto simp: rc_child_def signals_setup_def)

theorem run_commands_blocked_witness:
  "\<exists>c'. rc_child ''/etc/rc'' [] (sample_child\<lparr>c_blocked := {SIGTERM, SIGCHLD, SIGHUP}\<rparr>) = Some (''/etc/rc'', [''rc''], [], c')
    \<and> SIGTERM \<in> c_blocked c'"
proof -
  define c where "c = sample_child\<lparr>c_blocked := {SIGTERM, SIGCHLD, SIGHUP}\<rparr>"
  have "c_blocked c = procmask (snd (signals_setup sample))" by (simp add: c_def signals_setup_def)
  moreover have "child_answer c = (True, c)" by (simp add: c_def sample_child_def child_answer_def)
  then have "rc_child ''/etc/rc'' [] c = Some (''/etc/rc'', [''rc''], [], c\<lparr>c_fds := keeps (c_fds c)\<rparr>)"
    by (simp add: rc_child_def execve_def)
  ultimately show ?thesis
    using run_commands_blocked [of c sample "''/etc/rc''" "[]"] by (auto simp flip: c_def)
qed

end
