(* ===== verification/Lifecycle.thy ===== *)
theory Lifecycle
  imports Reap
begin

text \<open>
  What the program promises about the daemons, as a machine of its own: each daemon is stopped, runs
  as a process, or is being stopped, and the kernel holds the processes that were not waited for.
  The events are the things somebody outside can see: processes that start and end, and signals.
\<close>

section \<open>The machine\<close>

datatype phase = Stopped | Running int | Stopping int

record supervision =
  members :: "ptr \<rightharpoonup> string \<times> phase"
  alive :: "int set"

datatype event =
    Creates ptr string
  | Forks ptr int
  | Finishes ptr int int
  | Reloads ptr int int
  | Kills ptr int
  | Reaps ptr int
  | Reaps_orphan int
  | Frees ptr
  | Kills_all

fun phase_process :: "phase \<Rightarrow> int option" where
  "phase_process Stopped = None"
| "phase_process (Running pid) = Some pid"
| "phase_process (Stopping pid) = Some pid"

definition process :: "supervision \<Rightarrow> ptr \<rightharpoonup> int" where
  "process a p = Option.bind (members a p) (\<lambda>(name, phase). phase_process phase)"

text \<open>
  A process only starts for a stopped daemon, with a pid that no living child has; a daemon that is
  being stopped is not reloaded, and no daemon runs again before its process was waited for. A daemon
  can be freed in every phase: its process then is an orphan.
\<close>

inductive lifecycle :: "supervision \<Rightarrow> event \<Rightarrow> supervision \<Rightarrow> bool" where
  creates: "members a p = None \<Longrightarrow>
    lifecycle a (Creates p name) (a\<lparr>members := (members a)(p \<mapsto> (name, Stopped))\<rparr>)"
| forks: "members a p = Some (name, Stopped) \<Longrightarrow> 0 < pid \<Longrightarrow> pid \<notin> alive a \<Longrightarrow>
    lifecycle a (Forks p pid)
      (a\<lparr>members := (members a)(p \<mapsto> (name, Running pid)), alive := insert pid (alive a)\<rparr>)"
| finishes: "members a p = Some (name, Running pid) \<Longrightarrow>
    lifecycle a (Finishes p pid signo) (a\<lparr>members := (members a)(p \<mapsto> (name, Stopping pid))\<rparr>)"
| reloads: "members a p = Some (name, Running pid) \<Longrightarrow> lifecycle a (Reloads p pid signo) a"
| kills: "process a p = Some pid \<Longrightarrow> lifecycle a (Kills p pid) a"
| reaps: "members a p = Some (name, phase) \<Longrightarrow> phase_process phase = Some pid \<Longrightarrow> pid \<in> alive a \<Longrightarrow>
    lifecycle a (Reaps p pid)
      (a\<lparr>members := (members a)(p \<mapsto> (name, Stopped)), alive := alive a - {pid}\<rparr>)"
| reaps_orphan: "pid \<in> alive a \<Longrightarrow> \<forall>p. process a p \<noteq> Some pid \<Longrightarrow>
    lifecycle a (Reaps_orphan pid) (a\<lparr>alive := alive a - {pid}\<rparr>)"
| frees: "p \<in> dom (members a) \<Longrightarrow> lifecycle a (Frees p) (a\<lparr>members := (members a)(p := None)\<rparr>)"
| kills_all: "lifecycle a Kills_all a"

inductive_cases forks_cases: "lifecycle a (Forks p pid) b"
inductive_cases signal_cases:
  "lifecycle a (Finishes p pid signo) b" "lifecycle a (Reloads p pid signo) b" "lifecycle a (Kills p pid) b"

inductive lifecycles :: "supervision \<Rightarrow> event list \<Rightarrow> supervision \<Rightarrow> bool" where
  none: "lifecycles a [] a"
| more: "lifecycle a e b \<Longrightarrow> lifecycles b es c \<Longrightarrow> lifecycles a (e # es) c"

inductive_simps lifecycles_Nil [simp]: "lifecycles a [] c"
inductive_simps lifecycles_Cons: "lifecycles a (e # es) c"

lemma lifecycles_append:
  "lifecycles a (es @ fs) c \<longleftrightarrow> (\<exists>b. lifecycles a es b \<and> lifecycles b fs c)"
  by (induction es arbitrary: a) (auto simp: lifecycles_Cons)

lemma lifecycles_single: "lifecycle a e b \<Longrightarrow> lifecycles a [e] b"
  by (simp add: lifecycles_Cons)

text \<open>The signals an event sends, and what the events tell about the living children.\<close>

fun signals_of :: "event \<Rightarrow> (int \<times> int) list" where
  "signals_of (Finishes p pid signo) = [(pid, signo)]"
| "signals_of (Reloads p pid signo) = [(pid, signo)]"
| "signals_of (Kills p pid) = [(pid, SIGKILL)]"
| "signals_of Kills_all = [(- 1, SIGKILL)]"
| "signals_of _ = []"

fun alive_after :: "int set \<Rightarrow> event list \<Rightarrow> int set" where
  "alive_after pids [] = pids"
| "alive_after pids (Forks p pid # es) = alive_after (insert pid pids) es"
| "alive_after pids (Reaps p pid # es) = alive_after (pids - {pid}) es"
| "alive_after pids (Reaps_orphan pid # es) = alive_after (pids - {pid}) es"
| "alive_after pids (e # es) = alive_after pids es"

section \<open>Its invariant\<close>

text \<open>Every process of a daemon is a living child, and no two daemons share one.\<close>

definition owned :: "(ptr \<rightharpoonup> int) \<Rightarrow> int set \<Rightarrow> bool" where
  "owned f pids \<longleftrightarrow> (\<forall>p pid. f p = Some pid \<longrightarrow> pid \<in> pids) \<and> inj_on f (dom f) \<and> (\<forall>pid \<in> pids. 0 < pid)"

definition supervised :: "supervision \<Rightarrow> bool" where
  "supervised a \<longleftrightarrow> owned (process a) (alive a)"

lemma process_member: "members a p = Some (name, phase) \<Longrightarrow> process a p = phase_process phase"
  by (simp add: process_def)

lemma process_running:
  "members a p = Some (name, Running pid) \<Longrightarrow> process a p = Some pid"
  by (simp add: process_def)

lemma process_update [simp]:
  "process (a\<lparr>members := (members a)(p \<mapsto> (name, phase))\<rparr>) = (process a)(p := phase_process phase)"
  "process (a\<lparr>members := (members a)(p := None)\<rparr>) = (process a)(p := None)"
  "process (a\<lparr>members := m, alive := x\<rparr>) = process (a\<lparr>members := m\<rparr>)"
  "process (a\<lparr>alive := x\<rparr>) = process a"
  by (simp_all add: process_def fun_eq_iff)

lemma owned_remove: "owned f pids \<Longrightarrow> owned (f(p := None)) pids"
  by (auto simp: owned_def inj_on_def)

lemma owned_end: "owned f pids \<Longrightarrow> f p = Some pid \<Longrightarrow> owned (f(p := None)) (pids - {pid})"
  by (auto simp: owned_def inj_on_def) (metis domI)

lemma owned_orphan: "owned f pids \<Longrightarrow> \<forall>p. f p \<noteq> Some pid \<Longrightarrow> owned f (pids - {pid})"
  by (auto simp: owned_def)

lemma owned_start: "owned f pids \<Longrightarrow> pid \<notin> pids \<Longrightarrow> 0 < pid \<Longrightarrow> owned (f(p \<mapsto> pid)) (insert pid pids)"
  by (auto simp: owned_def inj_on_def dom_def)

lemma owned_same: "owned f pids \<Longrightarrow> f p = Some pid \<Longrightarrow> owned (f(p \<mapsto> pid)) pids"
  by (simp add: fun_upd_idem)

lemma lifecycle_supervised: "lifecycle a e b \<Longrightarrow> supervised a \<Longrightarrow> supervised b"
proof (induction rule: lifecycle.induct)
  case (finishes a p name pid signo)
  moreover from this have "process a p = Some pid" by (simp add: process_member)
  ultimately show ?case by (simp add: supervised_def owned_same)
next
  case (reaps a p name phase pid)
  moreover from this have "process a p = Some pid" by (simp add: process_member)
  ultimately show ?case by (simp add: supervised_def owned_end)
qed (simp_all add: supervised_def owned_remove owned_orphan owned_start)

lemma lifecycles_supervised: "lifecycles a es b \<Longrightarrow> supervised a \<Longrightarrow> supervised b"
  by (induction rule: lifecycles.induct) (auto intro: lifecycle_supervised)

lemma lifecycles_alive: "lifecycles a es b \<Longrightarrow> alive b = alive_after (alive a) es"
proof (induction rule: lifecycles.induct)
  case (more a e b es c)
  then show ?case by (cases rule: lifecycle.cases) auto
qed simp

text \<open>
  A signal goes to the process of a daemon: to a child that was started and not waited for, so its pid
  cannot have been given to another process.
\<close>

lemma signalled_alive:
  assumes "lifecycle a e b" "supervised a" "(pid, signo) \<in> set (signals_of e)" "e \<noteq> Kills_all"
  shows "\<exists>p. process a p = Some pid" "pid \<in> alive a"
proof -
  show "\<exists>p. process a p = Some pid"
    using assms(1,3,4) by (cases rule: lifecycle.cases) (auto intro: process_running)
  then show "pid \<in> alive a" using assms(2) by (auto simp: supervised_def owned_def)
qed

lemma trace_signals_alive:
  assumes "lifecycles a (es @ e # fs) b" "supervised a" "(pid, signo) \<in> set (signals_of e)" "e \<noteq> Kills_all"
  shows "pid \<in> alive_after (alive a) es" "0 < pid"
proof -
  from assms(1) obtain a1 a2 where mid: "lifecycles a es a1" "lifecycle a1 e a2"
    by (auto simp: lifecycles_append lifecycles_Cons)
  have a1: "supervised a1" by (rule lifecycles_supervised [OF mid(1) assms(2)])
  have "pid \<in> alive a1" by (rule signalled_alive(2) [OF mid(2) a1 assms(3,4)])
  then show "pid \<in> alive_after (alive a) es" "0 < pid"
    using lifecycles_alive [OF mid(1)] a1 by (auto simp: supervised_def owned_def)
qed

text \<open>A daemon starts when it is stopped only.\<close>

lemma trace_forks_stopped:
  assumes "lifecycles a (es @ Forks p pid # fs) b" "supervised a"
  shows "pid \<notin> alive_after (alive a) es" "\<exists>a1. lifecycles a es a1 \<and> process a1 p = None"
proof -
  from assms(1) obtain a1 a2 where mid: "lifecycles a es a1" "lifecycle a1 (Forks p pid) a2"
    by (auto simp: lifecycles_append lifecycles_Cons)
  then have "pid \<notin> alive a1" "process a1 p = None" by (auto elim!: forks_cases simp: process_member)
  then show "pid \<notin> alive_after (alive a) es" "\<exists>a1. lifecycles a es a1 \<and> process a1 p = None"
    using mid(1) lifecycles_alive [OF mid(1)] by auto
qed

end
