(* ===== verification/Lifecycle_Refinement.thy ===== *)
theory Lifecycle_Refinement
  imports Lifecycle Init
begin

unbundle bit_operations_syntax

text \<open>
  The program implements the machine of the daemons: the state of every daemon and the children of
  the process only change by its events, and the signals are the ones of its events.
\<close>

section \<open>The abstraction\<close>

definition phase_of :: "daemon \<Rightarrow> phase" where
  "phase_of d = (case d_state d of
     DAEMON_STARTED \<Rightarrow> Running (d_pid d)
   | DAEMON_STOPPED \<Rightarrow> Stopped
   | DAEMON_STOPPING \<Rightarrow> Stopping (d_pid d))"

definition supervision :: "'z procs_scheme \<Rightarrow> supervision" where
  "supervision s = \<lparr>members = map_option (\<lambda>d. (d_name d, phase_of d)) \<circ> heap s, alive = set (children s)\<rparr>"

lemma supervision_simps [simp]:
  "members (supervision s) p = map_option (\<lambda>d. (d_name d, phase_of d)) (heap s p)"
  "alive (supervision s) = set (children s)"
  by (simp_all add: supervision_def)

lemma supervision_eqI:
  assumes "\<And>p. map_option (\<lambda>d. (d_name d, phase_of d)) (heap s p) = m p" "set (children s) = pids"
  shows "supervision s = \<lparr>members = m, alive = pids\<rparr>"
  using assms by (auto simp: supervision_def fun_eq_iff)

lemma phase_process_of [simp]:
  "phase_process (phase_of d) = (if d_state d = DAEMON_STOPPED then None else Some (d_pid d))"
  by (cases "d_state d") (simp_all add: phase_of_def)

lemma process_supervision:
  "process (supervision s) p = Some pid \<longleftrightarrow> (\<exists>d. heap s p = Some d \<and> d_state d \<noteq> DAEMON_STOPPED \<and> d_pid d = pid)"
  by (auto simp: process_def bind_eq_Some_conv split: if_splits)

lemma procs_ok_supervised:
  assumes "procs_ok s"
  shows "supervised (supervision s)"
proof -
  have "p = q" if "process (supervision s) p = Some pid" "process (supervision s) q = Some pid" for p q pid
  proof -
    have "spawned_daemons s pid = Some p" "spawned_daemons s pid = Some q"
      using that by (auto simp: spawned_iff [OF assms] process_supervision active_def pid_of_def)
    then show ?thesis by simp
  qed
  then have "inj_on (process (supervision s)) (dom (process (supervision s)))"
    by (auto simp: inj_on_def)
  moreover have "pid \<in> set (children s)" if "process (supervision s) p = Some pid" for p pid
    using that spawned_pid(2) [OF assms] by (auto simp: process_supervision)
  moreover have "\<forall>pid \<in> set (children s). 0 < pid" using assms by (simp add: procs_but_def)
  ultimately show ?thesis by (auto simp: supervised_def owned_def)
qed

text \<open>
  \<open>follows s s'\<close>: from a state where the invariant of the processes holds, the program goes to another
  one along events of the machine and sends the signals of these events.
\<close>

definition follows :: "'z procs_scheme \<Rightarrow> 'z procs_scheme \<Rightarrow> bool" where
  "follows s s' \<longleftrightarrow> (procs_ok s \<longrightarrow> procs_ok s' \<and> (\<exists>es. lifecycles (supervision s) es (supervision s')
     \<and> sent s' = sent s @ concat (map signals_of es)))"

lemma follows_trans: "follows s1 s2 \<Longrightarrow> follows s2 s3 \<Longrightarrow> follows s1 s3"
  unfolding follows_def by (metis append_assoc concat_append lifecycles_append map_append)

lemma follows_same:
  assumes "procs_ok s \<Longrightarrow> procs_ok s'" "supervision s' = supervision s" "sent s' = sent s"
  shows "follows s s'"
  unfolding follows_def using assms by (auto intro!: exI [of _ "[]"])

lemma procs_but_cong:
  assumes "heap s' = heap s" "spawns s' = spawns s" "children s' = children s"
  shows "procs_but gone s' = procs_but gone s"
  unfolding procs_but_def assms ..

lemma follows_frame:
  assumes "heap s' = heap s" "spawns s' = spawns s" "children s' = children s" "sent s' = sent s"
  shows "follows s s'"
  by (rule follows_same) (use assms procs_but_cong [of s' s] in \<open>simp_all add: supervision_def\<close>)

lemma follows_refl [simp]: "follows s s"
  by (rule follows_frame) simp_all

lemma follows_event:
  assumes "lifecycle (supervision s) e (supervision s')" "procs_ok s \<Longrightarrow> procs_ok s'"
    "sent s' = sent s @ signals_of e"
  shows "follows s s'"
  unfolding follows_def using assms by (auto intro!: exI [of _ "[e]"] lifecycles_single)

lemma supervision_upd:
  "supervision (s\<lparr>heap := (heap s)(p \<mapsto> d)\<rparr>)
     = supervision s\<lparr>members := (members (supervision s))(p \<mapsto> (d_name d, phase_of d))\<rparr>"
  by (auto simp: supervision_def fun_eq_iff)

section \<open>The operations on a daemon\<close>

lemma daemon_start_follows:
  assumes "daemon_start p s = Inr s'"
  shows "follows s s'"
proof (cases "procs_ok s")
  case True
  from assms obtain d where d: "heap s p = Some d" by (auto simp: daemon_start_def result_iff)
  show ?thesis
  proof (cases rule: daemon_start_ok [OF True d])
    case 1
    with assms show ?thesis by simp
  next
    case 2
    with assms show ?thesis by (auto intro!: follows_frame)
  next
    case (3 s1)
    then have s1: "s1 = s'" using assms by simp
    from 3(4) obtain pid root fs where s': "s' = s\<lparr>forks := fs, children := pid # children s,
        heap := (heap s)(p \<mapsto> d\<lparr>d_pid := pid, d_state := DAEMON_STARTED\<rparr>), spawns := root\<rparr>"
      "pid \<notin> set (children s)" unfolding s1 spawn_done_def by blast
    have "pid \<in> set (children s')" using s' by simp
    then have pid: "0 < pid" using 3(3) unfolding s1 by (auto simp: procs_but_def)
    have "supervision s' = supervision s\<lparr>members := (members (supervision s))(p \<mapsto> (d_name d, Running pid)),
        alive := insert pid (alive (supervision s))\<rparr>"
      using s' by (auto simp: supervision_def fun_eq_iff phase_of_def)
    moreover have "members (supervision s) p = Some (d_name d, Stopped)" using d 3(1) by (simp add: phase_of_def)
    then have "lifecycle (supervision s) (Forks p pid)
        (supervision s\<lparr>members := (members (supervision s))(p \<mapsto> (d_name d, Running pid)),
           alive := insert pid (alive (supervision s))\<rparr>)"
      by (rule lifecycle.forks) (use pid s'(2) in simp_all)
    ultimately have "lifecycle (supervision s) (Forks p pid) (supervision s')" by simp
    then show ?thesis by (rule follows_event) (use 3(3) s' in \<open>simp_all add: s1\<close>)
  qed
qed (simp add: follows_def)

lemma daemon_stop_follows:
  assumes "daemon_stop p s = Inr s'"
  shows "follows s s'"
proof (cases "procs_ok s")
  case True
  from assms obtain d where d: "heap s p = Some d" by (auto simp: daemon_stop_def result_iff)
  from daemon_stop.action_ok [OF True, of p] assms d have ok: "procs_ok s'" by auto
  show ?thesis
  proof (cases "d_state d")
    case DAEMON_STARTED
    define signo where "signo = conf_sigfinish (d_conf d)"
    have s': "s' = s\<lparr>sent := sent s @ [(d_pid d, signo)], heap := (heap s)(p \<mapsto> d\<lparr>d_state := DAEMON_STOPPING\<rparr>)\<rparr>"
      using assms d DAEMON_STARTED by (simp add: daemon_stop_def kill_def signo_def)
    then have "supervision s' = supervision s\<lparr>members := (members (supervision s))(p \<mapsto> (d_name d, Stopping (d_pid d)))\<rparr>"
      by (auto simp: supervision_def fun_eq_iff phase_of_def)
    moreover have "members (supervision s) p = Some (d_name d, Running (d_pid d))"
      using d DAEMON_STARTED by (simp add: phase_of_def)
    ultimately have "lifecycle (supervision s) (Finishes p (d_pid d) signo) (supervision s')"
      using lifecycle.finishes by metis
    then show ?thesis by (rule follows_event) (simp_all add: ok, simp add: s')
  qed (use assms d in \<open>simp_all add: daemon_stop_def\<close>)
qed (simp add: follows_def)

lemma supervision_sent [simp]: "supervision (s\<lparr>sent := x\<rparr>) = supervision s"
  by (simp add: supervision_def)

lemma daemon_reload_follows:
  assumes "daemon_reload p s = Inr s'"
  shows "follows s s'"
proof -
  from assms obtain d where d: "heap s p = Some d" by (auto simp: daemon_reload_def result_iff)
  show ?thesis
  proof (cases "d_state d")
    case DAEMON_STARTED
    then have s': "s' = s\<lparr>sent := sent s @ [(d_pid d, conf_sigreload (d_conf d))]\<rparr>"
      using assms d by (simp add: daemon_reload_def kill_def)
    have "members (supervision s) p = Some (d_name d, Running (d_pid d))"
      using d DAEMON_STARTED by (simp add: phase_of_def)
    then have "lifecycle (supervision s) (Reloads p (d_pid d) (conf_sigreload (d_conf d))) (supervision s')"
      by (simp add: s' lifecycle.reloads)
    then show ?thesis by (rule follows_event) (simp_all add: s')
  qed (use assms d in \<open>simp_all add: daemon_reload_def\<close>)
qed

lemma daemon_end_follows:
  assumes "daemon_end p s = Inr s'"
  shows "follows s s'"
proof -
  from assms obtain d where d: "heap s p = Some d" by (auto simp: daemon_end_def result_iff)
  show ?thesis
  proof (cases "d_state d = DAEMON_STOPPED")
    case False
    then have s': "s' = s\<lparr>sent := sent s @ [(d_pid d, SIGKILL)]\<rparr>"
      using assms d by (cases "d_state d") (simp_all add: daemon_end_def kill_def)
    have "process (supervision s) p = Some (d_pid d)"
      using d False by (simp add: process_supervision)
    then have "lifecycle (supervision s) (Kills p (d_pid d)) (supervision s')"
      by (simp add: s' lifecycle.kills)
    then show ?thesis by (rule follows_event) (simp_all add: s')
  next
    case True
    with assms d show ?thesis by (simp add: daemon_end_def)
  qed
qed

lemma daemon_create_follows:
  assumes "daemon_create name s = (r, s')"
  shows "follows s s'"
proof (cases "procs_ok s")
  case True
  note created = daemon_create_ok [OF True assms]
  show ?thesis
  proof (cases r)
    case None
    with created show ?thesis by (intro follows_frame) simp_all
  next
    case (Some p)
    with created(7) have p: "heap s p = None" "heap s' = (heap s)(p \<mapsto>
      \<lparr>d_state = DAEMON_STOPPED, d_name = name, d_pid = 0, d_conf = daemon_conf_init\<rparr>)" by auto
    then have "supervision s' = supervision s\<lparr>members := (members (supervision s))(p \<mapsto> (name, Stopped))\<rparr>"
      using created(4) by (auto simp: supervision_def fun_eq_iff phase_of_def)
    moreover have "members (supervision s) p = None" using p by simp
    ultimately have "lifecycle (supervision s) (Creates p name) (supervision s')"
      using lifecycle.creates by metis
    then show ?thesis by (rule follows_event) (use created in simp_all)
  qed
qed (simp add: follows_def)

lemma daemon_destroy_follows:
  assumes "daemon_destroy p s = Inr s'"
  shows "follows s s'"
proof (cases "procs_ok s")
  case True
  from assms obtain d where d: "heap s p = Some d" by (auto simp: daemon_destroy_def result_iff)
  from daemon_destroy_ok [OF True d] assms obtain root where
    s': "s' = s\<lparr>spawns := root, heap := (heap s)(p := None)\<rparr>" "procs_ok s'" by auto
  then have "supervision s' = supervision s\<lparr>members := (members (supervision s))(p := None)\<rparr>"
    by (auto simp: supervision_def fun_eq_iff)
  moreover have "p \<in> dom (members (supervision s))" using d by auto
  ultimately have "lifecycle (supervision s) (Frees p) (supervision s')"
    using lifecycle.frees by metis
  then show ?thesis by (rule follows_event) (use s' in simp_all)
qed (simp add: follows_def)

text \<open>A new configuration is no event.\<close>

lemma phase_of_conf [simp]: "phase_of (d\<lparr>d_conf := conf\<rparr>) = phase_of d"
  by (cases "d_state d") (simp_all add: phase_of_def)

lemma new_conf_follows:
  assumes "heap s p = Some d"
  shows "follows s (s\<lparr>heap := (heap s)(p \<mapsto> d\<lparr>d_conf := conf\<rparr>)\<rparr>)"
proof (rule follows_same)
  show "procs_ok (s\<lparr>heap := (heap s)(p \<mapsto> d\<lparr>d_conf := conf\<rparr>)\<rparr>)" if "procs_ok s"
    by (rule procs_ok_upd [OF that assms]) simp_all
  show "supervision (s\<lparr>heap := (heap s)(p \<mapsto> d\<lparr>d_conf := conf\<rparr>)\<rparr>) = supervision s"
    using assms by (auto simp: supervision_def fun_eq_iff)
qed simp

lemma spawns_stop_element_follows:
  assumes "spawns_stop_element p s = Inr s'"
  shows "follows s s'"
  using assms
  by (auto simp: spawns_stop_element_def result_iff Let_def
      intro: follows_trans [OF new_conf_follows daemon_stop_follows])

section \<open>Reaping\<close>

lemma child_gone_lifecycle:
  assumes "procs_ok s" "child_gone pid s s1" "pid \<in> set (children s)"
  shows "\<exists>e. lifecycle (supervision s) e (supervision s1) \<and> signals_of e = []"
proof -
  from assms(2) obtain root where s1: "s1 = s\<lparr>children := remove1 pid (children s), spawns := root,
      heap := (case spawned_daemons s pid of None \<Rightarrow> heap s
               | Some p \<Rightarrow> (heap s)(p \<mapsto> (the (heap s p))\<lparr>d_state := DAEMON_STOPPED\<rparr>))\<rparr>"
    unfolding child_gone_def by blast
  have "distinct (children s)" using assms(1) by (simp add: procs_but_def)
  then have alive: "alive (supervision s1) = alive (supervision s) - {pid}" by (simp add: s1)
  show ?thesis
  proof (cases "spawned_daemons s pid")
    case None
    then have "supervision s1 = supervision s\<lparr>alive := alive (supervision s) - {pid}\<rparr>"
      using alive by (simp add: supervision_def s1)
    moreover have "spawned_daemons s pid = Some p" if "process (supervision s) p = Some pid" for p
      using that by (auto simp: spawned_iff [OF assms(1)] process_supervision active_def pid_of_def)
    then have "\<forall>p. process (supervision s) p \<noteq> Some pid" using None by auto
    ultimately have "lifecycle (supervision s) (Reaps_orphan pid) (supervision s1)"
      using lifecycle.reaps_orphan assms(3) by (metis supervision_simps(2))
    then show ?thesis by (intro exI [of _ "Reaps_orphan pid"]) simp
  next
    case (Some p)
    then obtain d where d: "heap s p = Some d" "d_state d \<noteq> DAEMON_STOPPED" "d_pid d = pid"
      using spawned_iff [OF assms(1)] by (auto simp: active_def pid_of_def)
    have "supervision s1 = supervision s\<lparr>members := (members (supervision s))(p \<mapsto> (d_name d, Stopped)),
        alive := alive (supervision s) - {pid}\<rparr>"
      using alive Some d(1) by (auto simp: supervision_def s1 fun_eq_iff phase_of_def)
    moreover have "lifecycle (supervision s) (Reaps p pid)
        (supervision s\<lparr>members := (members (supervision s))(p \<mapsto> (d_name d, Stopped)),
           alive := alive (supervision s) - {pid}\<rparr>)"
      by (rule lifecycle.reaps [of _ _ _ "phase_of d"]) (use d assms(3) in simp_all)
    ultimately show ?thesis by (intro exI [of _ "Reaps p pid"]) simp
  qed
qed

lemma reap_child_follows:
  assumes "waitid info s = Some s0" "reap_child info s0 = Inr s'"
  shows "follows s s'"
proof (cases "procs_ok s")
  case True
  have pid: "si_pid info \<in> set (children s)" "s0 = s\<lparr>children := remove1 (si_pid info) (children s)\<rparr>"
    using assms(1) by (auto simp: waitid_def split: if_splits)
  have "terminated info"
  proof (rule ccontr)
    assume "\<not> terminated info"
    from reap_other_code_aborts [OF True pid(1) this, of "[]"] assms show False by simp
  qed
  from reap_child_gone [OF True assms(1) this] obtain s1 where
    s1: "child_gone (si_pid info) s s1" "procs_ok s1" "reap_child info s0 =
      (case spawned_daemons s (si_pid info) of None \<Rightarrow> Inr s1
       | Some p \<Rightarrow> if restarts info (d_conf (the (heap s p))) then daemon_start p s1 else Inr s1)" by blast
  from child_gone_lifecycle [OF True s1(1) pid(1)] obtain e where
    "lifecycle (supervision s) e (supervision s1)" "signals_of e = []" by blast
  from this(1) have "follows s s1"
    by (rule follows_event) (use s1(2) child_gone_steady(2) [OF True s1(1)] \<open>signals_of e = []\<close> in simp_all)
  moreover have "follows s1 s'"
    using assms(2) s1(3) by (auto split: option.splits if_splits intro: daemon_start_follows)
  ultimately show ?thesis by (rule follows_trans)
qed (simp add: follows_def)

lemma reap_children_follows: "reap_children infos s = Inr (r, s') \<Longrightarrow> follows s s'"
proof (induction infos arbitrary: s)
  case (Cons info infos)
  then show ?case
    by (auto simp: result_iff split: option.splits intro: follows_trans [OF reap_child_follows])
qed simp

section \<open>The store\<close>

lemma rfold_follows:
  assumes "\<And>x s s'. f x s = Inr s' \<Longrightarrow> follows s s'" "rfold f xs s = Inr s'"
  shows "follows s s'"
  using assms(2)
  by (induction xs arbitrary: s) (auto simp: result_iff intro: follows_trans [OF assms(1)])

lemma configuration_load_daemon_follows:
  assumes "configuration_load_daemon lc below name file s = Inr s'"
  shows "follows s s'"
proof -
  obtain r s1 where created: "daemon_create name s = (r, s1)" by fastforce
  note step = daemon_create_follows [OF created]
  show ?thesis
  proof (cases r)
    case None
    with assms created step show ?thesis by (simp add: configuration_load_daemon_def)
  next
    case (Some p)
    with assms created obtain d status conf where d: "heap s1 p = Some d"
      "daemon_conf_parse lc below (d_conf d) file = Inr (status, conf)"
      by (auto simp: configuration_load_daemon_def result_iff)
    define s2 where "s2 = s1\<lparr>heap := (heap s1)(p \<mapsto> d\<lparr>d_conf := conf\<rparr>)\<rparr>"
    have "follows s1 s2" unfolding s2_def by (rule new_conf_follows [OF d(1)])
    then have s2: "follows s s2" using step by (rule follows_trans [rotated])
    show ?thesis
    proof (cases "status = 0")
      case False
      then have "daemon_destroy p s2 = Inr s'"
        using assms created Some d by (simp add: configuration_load_daemon_def s2_def)
      then show ?thesis by (rule follows_trans [OF s2 daemon_destroy_follows])
    next
      case True
      then have "rbind (tree_insert (daemons_compare (heap s2)) (daemons s2) p) (\<lambda>root.
          if start_load conf then daemon_start p (s2\<lparr>daemons := root\<rparr>) else Inr (s2\<lparr>daemons := root\<rparr>)) = Inr s'"
        unfolding s2_def using assms created Some d by (simp add: configuration_load_daemon_def Let_def)
      then obtain root where root: "(if start_load conf then daemon_start p (s2\<lparr>daemons := root\<rparr>)
          else Inr (s2\<lparr>daemons := root\<rparr>)) = Inr s'"
        unfolding rbind_eq_Inr by blast
      have "follows s2 (s2\<lparr>daemons := root\<rparr>)" by (rule follows_frame) simp_all
      then have "follows s (s2\<lparr>daemons := root\<rparr>)" by (rule follows_trans [OF s2])
      then show ?thesis using root
        by (auto split: if_splits intro: follows_trans [OF _ daemon_start_follows])
    qed
  qed
qed

lemma configuration_reload_daemon_follows:
  assumes "configuration_reload_daemon lc below name file old s = Inr (old', s')"
  shows "follows s s'"
proof -
  from assms obtain old1 daemon where removed: "daemons_remove_element (heap s) old name = Inr (old1, daemon)"
    by (auto simp: configuration_reload_daemon_def result_iff)
  show ?thesis
  proof (cases daemon)
    case None
    with assms removed show ?thesis
      by (auto simp: configuration_reload_daemon_def result_iff intro: configuration_load_daemon_follows)
  next
    case (Some p)
    with assms removed have "rbind (daemon_conf_parse lc below daemon_conf_init file) (\<lambda>(status, conf).
        rbind (deref (heap s) p) (\<lambda>d.
        rbind (if status = 0 then
                 let s = s\<lparr>heap := (heap s)(p \<mapsto> d\<lparr>d_conf := conf\<rparr>)\<rparr>
                 in if start_reload conf then daemon_start p s else Inr s
               else Inr s) (\<lambda>s2.
        rbind (tree_insert (daemons_compare (heap s2)) (daemons s2) p) (\<lambda>root.
        Inr (old1, s2\<lparr>daemons := root\<rparr>))))) = Inr (old', s')"
      by (simp add: configuration_reload_daemon_def)
    then obtain status :: int and conf d s2 root where d: "heap s p = Some d"
      "(if status = 0 then
          let s = s\<lparr>heap := (heap s)(p \<mapsto> d\<lparr>d_conf := conf\<rparr>)\<rparr>
          in if start_reload conf then daemon_start p s else Inr s
        else Inr s) = Inr s2" "s2\<lparr>daemons := root\<rparr> = s'"
      unfolding rbind_eq_Inr deref_eq_Inr split_paired_Ex prod.case sum.inject prod.inject by blast
    have "follows s s2"
      using d(2) new_conf_follows [OF d(1), of conf]
      by (auto simp: Let_def split: if_splits intro: follows_trans [OF _ daemon_start_follows])
    moreover have "follows s2 s'" unfolding d(3) [symmetric] by (rule follows_frame) simp_all
    ultimately show ?thesis by (rule follows_trans)
  qed
qed

lemma load_entries_follows: "load_entries lc below entries s = Inr s' \<Longrightarrow> follows s s'"
  by (induction lc below entries s rule: load_entries.induct)
    (auto simp: result_iff split: if_splits option.splits
      intro: follows_trans [OF configuration_load_daemon_follows])

lemma reload_entries_follows: "reload_entries lc below entries os = Inr (old', s') \<Longrightarrow> follows (snd os) s'"
proof (induction lc below entries os rule: reload_entries.induct)
  case (2 lc below name lines entries os)
  then show ?case
    by (fastforce simp: result_iff split: if_splits option.splits
        intro: follows_trans [OF configuration_reload_daemon_follows])
qed simp

lemma configuration_load_follows:
  assumes "configuration_load lc below fs path s = Inr s'"
  shows "follows s s'"
proof -
  have "follows s (s\<lparr>configuration_path := path\<rparr>)" by (rule follows_frame) simp_all
  then show ?thesis
    using assms by (auto simp: configuration_load_def Let_def split: option.splits
        intro: follows_trans [OF _ load_entries_follows])
qed

lemma configuration_reload_follows:
  assumes "configuration_reload lc below fs s = Inr s'"
  shows "follows s s'"
proof (cases "fs (configuration_path s)")
  case None
  with assms show ?thesis by (simp add: configuration_reload_def)
next
  case (Some entries)
  with assms obtain old s1 where reloaded:
    "reload_entries lc below entries (daemons s, s\<lparr>daemons := NULL\<rparr>) = Inr (old, s1)"
    "rfold daemons_destroy_element (tree_preorder old) s1 = Inr s'"
    by (auto simp: configuration_reload_def result_iff preorder_mutate_rfold)
  have "follows s (s\<lparr>daemons := NULL\<rparr>)" by (rule follows_frame) simp_all
  moreover have "follows (s\<lparr>daemons := NULL\<rparr>) s1" using reload_entries_follows [OF reloaded(1)] by simp
  moreover have "follows s1 s'"
    by (rule rfold_follows [OF _ reloaded(2)]) (simp add: daemons_destroy_element_def daemon_destroy_follows)
  ultimately show ?thesis by (blast intro: follows_trans)
qed

section \<open>The switch\<close>

text \<open>Most operations of the switch leave the daemons and their processes alone.\<close>

definition aside :: "'z procs_scheme \<Rightarrow> 'z procs_scheme \<Rightarrow> bool" where
  "aside s s' \<longleftrightarrow> heap s' = heap s \<and> spawns s' = spawns s \<and> children s' = children s \<and> sent s' = sent s"

lemma aside_follows: "aside s s' \<Longrightarrow> follows s s'"
  by (rule follows_frame) (simp_all add: aside_def)

lemma aside_trans: "aside s1 s2 \<Longrightarrow> aside s2 s3 \<Longrightarrow> aside s1 s3"
  by (simp add: aside_def)

lemma aside_refl [simp]: "aside s s"
  by (simp add: aside_def)

named_theorems asides \<open>operations that leave the processes alone\<close>

lemma aside_kernel [asides]:
  "node_malloc s = (q, s1) \<Longrightarrow> aside s s1"
  "new_fd s = (fd, s1) \<Longrightarrow> aside s s1"
  "succeeds s = (ok, s1) \<Longrightarrow> aside s s1"
  "bind_fd fd path s = (ok, s1) \<Longrightarrow> aside s s1"
  "read_fd s = (got, s1) \<Longrightarrow> aside s s1"
  by (auto simp: aside_def node_malloc_def new_fd_def succeeds_def bind_fd_def read_fd_def Let_def
      split: list.splits if_splits prod.splits)

lemma aside_close [simp]: "aside s (close_fd fd s1) \<longleftrightarrow> aside s s1" "aside s (unlink path s1) \<longleftrightarrow> aside s s1"
  by (simp_all add: aside_def close_fd_def unlink_def)

lemma aside_nodes [simp]: "aside s (s1\<lparr>nodes := x\<rparr>) \<longleftrightarrow> aside s s1"
  by (simp add: aside_def)

lemma socket_endpoint_node_create_aside [asides]:
  assumes "socket_endpoint_node_create name caps s = (r, s')"
  shows "aside s s'"
  using assms unfolding socket_endpoint_node_create_def Let_def
  by (auto split: prod.splits option.splits if_splits dest!: asides
      simp: aside_def close_fd_def unlink_def)

lemma socket_connection_node_create_aside [asides]:
  assumes "socket_connection_node_create fd caps s = (r, s')"
  shows "aside s s'"
  using assms by (auto simp: socket_connection_node_create_def split: prod.splits option.splits dest!: asides)

lemma socket_switch_insert_aside [asides]: "socket_switch_insert p s = Inr s' \<Longrightarrow> aside s s'"
  by (auto simp: socket_switch_insert_def result_iff aside_def)

lemma socket_switch_destroy_element_aside [asides]:
  assumes "socket_switch_destroy_element p s = Inr s'"
  shows "aside s s'"
proof (cases "nodes s p")
  case (Some n)
  with assms show ?thesis
    by (cases n) (auto simp: socket_switch_destroy_element_def socket_endpoint_node_destroy_def
        socket_connection_node_destroy_def Let_def split: option.splits)
qed (use assms in \<open>simp add: socket_switch_destroy_element_def node_deref_def\<close>)

lemma socket_switch_remove_aside [asides]:
  assumes "socket_switch_remove p s = Inr s'"
  shows "aside s s'"
proof -
  from assms obtain root active where
    "socket_switch_destroy_element p (s\<lparr>snodes := root, activeset := active\<rparr>) = Inr s'"
    by (auto simp: socket_switch_remove_def result_iff split: if_splits)
  then have "aside (s\<lparr>snodes := root, activeset := active\<rparr>) s'" by (rule socket_switch_destroy_element_aside)
  then show ?thesis by (simp add: aside_def)
qed

lemma create_endpoint_aside [asides]:
  assumes "create_endpoint name caps s = Inr s'"
  shows "aside s s'"
proof -
  obtain r s1 where created: "socket_endpoint_node_create name caps s = (r, s1)" by fastforce
  have "aside s1 s'" using assms created
    by (cases r) (simp_all add: create_endpoint_def socket_switch_insert_aside)
  then show ?thesis using socket_endpoint_node_create_aside [OF created] by (rule aside_trans [rotated])
qed

section \<open>The parser\<close>

text \<open>The operation a message with a name asks for, as the parser uses it.\<close>

locale follows_action =
  fixes action :: "ptr \<Rightarrow> 'z net_scheme \<Rightarrow> 'z net_scheme result"
  assumes action_follows: "action p s = Inr s' \<Longrightarrow> follows s s'"
begin

lemma daemon_name_follows:
  assumes "parser_feed_daemon_name buf i cnt parser state out action s = Inr (parser', i', cnt', s')"
  shows "follows s s'"
proof -
  from assms obtain filled where f: "name_fill buf i cnt out = Inr filled"
    by (auto simp: parser_feed_daemon_name_def result_iff)
  show ?thesis
  proof (cases "\<exists>i1 cnt1 out1. filled = Some (i1, cnt1, out1) \<and> last out1 = NUL")
    case True
    then obtain i1 cnt1 out1 where "filled = Some (i1, cnt1, out1)" "last out1 = NUL" by blast
    with assms f obtain name daemon where
      "(case daemon of None \<Rightarrow> Inr s | Some p \<Rightarrow> action p s) = Inr s'"
      by (auto simp: parser_feed_daemon_name_def rbind_eq_Inr)
    then show ?thesis by (cases daemon) (simp_all add: action_follows)
  next
    case False
    with assms f have "s' = s"
      by (cases filled) (auto simp: parser_feed_daemon_name_def split: if_splits)
    then show ?thesis by simp
  qed
qed

end

interpretation start_action: follows_action daemon_start
  by unfold_locales (rule daemon_start_follows)

interpretation stop_action: follows_action daemon_stop
  by unfold_locales (rule daemon_stop_follows)

interpretation reload_action: follows_action daemon_reload
  by unfold_locales (rule daemon_reload_follows)

interpretation end_action: follows_action daemon_end
  by unfold_locales (rule daemon_end_follows)

lemma parser_feed_command_aside [asides]:
  "parser_feed_command parser capability s = Inr (parser', s') \<Longrightarrow> aside s s'"
  by (auto simp: parser_feed_command_def queue_reboot_def sigqueue_sigterm_def aside_def
      split: if_splits option.splits)

lemma endpoint_name_aside [asides]:
  assumes "parser_feed_endpoint_create_name buf i cnt parser caps out s = Inr (parser', i', cnt', s')"
  shows "aside s s'"
proof -
  from assms obtain filled where f: "name_fill buf i cnt out = Inr filled"
    by (auto simp: parser_feed_endpoint_create_name_def result_iff)
  show ?thesis
  proof (cases "\<exists>i1 cnt1 out1. filled = Some (i1, cnt1, out1) \<and> last out1 = NUL")
    case True
    then obtain i1 cnt1 out1 where r: "filled = Some (i1, cnt1, out1)" "last out1 = NUL" by blast
    define grant where "grant \<longleftrightarrow> capabilities parser AND caps \<noteq> 0 \<and> hd out1 \<noteq> NUL \<and> hd out1 \<noteq> CHR ''.''"
    have "(if grant then rbind (buf_string out1 0) (\<lambda>name. create_endpoint name (capabilities parser AND caps) s)
       else Inr s) = Inr s'"
      using assms f r by (auto simp: parser_feed_endpoint_create_name_def rbind_eq_Inr Let_def grant_def)
    then show ?thesis by (auto simp: result_iff create_endpoint_aside split: if_splits)
  next
    case False
    with assms f have "s' = s"
      by (cases filled) (auto simp: parser_feed_endpoint_create_name_def split: if_splits)
    then show ?thesis by simp
  qed
qed

lemma parser_step_follows:
  assumes "parser_step buf i cnt parser s = Inr (parser', i', cnt', s')"
  shows "follows s s'"
proof (cases "parser_state parser")
  case PARSER_STATE_COMMAND
  with assms show ?thesis
    by (auto simp: parser_step_def result_iff split: if_splits
        intro: aside_follows dest!: parser_feed_command_aside)
next
  case (PARSER_STATE_ENDPOINT_CREATE_CAPABILITIES word got)
  with assms show ?thesis by (auto simp: parser_step_def result_iff Let_def)
next
  case (PARSER_STATE_ENDPOINT_CREATE_NAME caps out)
  with assms show ?thesis by (auto simp: parser_step_def intro: aside_follows dest!: endpoint_name_aside)
next
  case (PARSER_STATE_DAEMON_START_NAME out)
  with assms show ?thesis by (auto simp: parser_step_def intro: start_action.daemon_name_follows)
next
  case (PARSER_STATE_DAEMON_STOP_NAME out)
  with assms show ?thesis by (auto simp: parser_step_def intro: stop_action.daemon_name_follows)
next
  case (PARSER_STATE_DAEMON_RELOAD_NAME out)
  with assms show ?thesis by (auto simp: parser_step_def intro: reload_action.daemon_name_follows)
next
  case (PARSER_STATE_DAEMON_END_NAME out)
  with assms show ?thesis by (auto simp: parser_step_def intro: end_action.daemon_name_follows)
next
  case PARSER_STATE_INVALID
  with assms show ?thesis by (simp add: parser_step_def)
qed

lemma parser_feed_follows: "parser_feed buf i cnt parser s = Inr (parser', s') \<Longrightarrow> follows s s'"
proof (induction buf i cnt parser s rule: parser_feed.induct)
  case (1 buf i cnt parser s)
  show ?case
  proof (cases "cnt = 0")
    case True
    with 1(2) show ?thesis by (simp add: parser_feed.simps)
  next
    case False
    with 1(2) obtain parser1 i1 cnt1 s1 where
      step: "parser_step buf i cnt parser s = Inr (parser1, i1, cnt1, s1)"
        "parser_feed buf i1 cnt1 parser1 s1 = Inr (parser', s')"
      by (subst (asm) parser_feed.simps) (auto simp: result_iff)
    from 1(1) [OF False step(1) refl refl refl step(2)] show ?thesis
      by (rule follows_trans [OF parser_step_follows [OF step(1)]])
  qed
qed

section \<open>The loop\<close>

lemma node_operate_follows:
  assumes "node_operate p s = Inr s'"
  shows "follows s s'"
proof -
  from assms obtain n where n: "nodes s p = Some n"
    by (cases "nodes s p") (auto simp: node_operate_def node_deref_def)
  show ?thesis
  proof (cases n)
    case (Endpoint_node fd caps)
    with assms n have "aside s s'"
      by (auto simp: node_operate_def socket_endpoint_node_operate_def aside_def close_fd_def
          split: prod.splits option.splits if_splits dest!: asides)
    then show ?thesis by (rule aside_follows)
  next
    case (Connection_node fd parser)
    obtain got buffer s1 where read: "read_fd s = ((got, buffer), s1)" by (metis prod.exhaust)
    then have s1: "follows s s1" by (intro aside_follows aside_kernel(5))
    have operate: "socket_connection_node_operate p s = Inr s'"
      using assms n Connection_node by (simp add: node_operate_def)
    show ?thesis
    proof (cases "got = None \<or> got = Some []")
      case True
      then have "socket_switch_remove p s1 = Inr s'"
        using operate n Connection_node read by (auto simp: socket_connection_node_operate_def)
      then show ?thesis using s1 by (blast intro: follows_trans aside_follows socket_switch_remove_aside)
    next
      case False
      then obtain bytes where "got = Some bytes" "bytes \<noteq> []" by auto
      then obtain parser' s2 where feed: "parser_feed buffer 0 (length bytes) parser s1 = Inr (parser', s2)"
        "s' = s2\<lparr>nodes := (nodes s2)(p \<mapsto> Connection_node fd parser')\<rparr>"
        using operate n Connection_node read
        by (auto simp: socket_connection_node_operate_def result_iff)
      have "aside s2 s'" by (simp add: feed(2))
      with s1 feed(1) show ?thesis by (blast intro: follows_trans aside_follows parser_feed_follows)
    qed
  qed
qed

lemma operate_fds_follows: "operate_fds fds nfds s = Inr s' \<Longrightarrow> follows s s'"
proof (induction fds arbitrary: nfds s)
  case (Cons fd fds)
  show ?case
  proof (cases "nfds \<noteq> 0 \<and> fd \<in> readset s")
    case True
    with Cons.prems obtain p s1 where "node_operate p s = Inr s1" "operate_fds fds (nfds - 1) s1 = Inr s'"
      by (auto simp: result_iff split: option.splits)
    then show ?thesis using Cons.IH by (blast intro: follows_trans node_operate_follows)
  next
    case False
    with Cons show ?thesis by (auto split: if_splits)
  qed
qed simp

section \<open>The main loop and the teardown\<close>

lemma deliver_all_aside: "aside s (deliver_all blocked signos s)"
proof -
  have "aside s (fold (deliver blocked) signos s)"
    by (induction signos arbitrary: s) (simp, simp add: aside_def deliver_store)
  then show ?thesis by (simp add: deliver_all_def)
qed

lemma handle_signals_follows:
  assumes "handle_signals lc below infos fs s = Inr s'"
  shows "follows s s'"
proof -
  from assms obtain s1 where
    s1: "(if sighup s then rbind (configuration_reload lc below fs s) (\<lambda>s. Inr (s\<lparr>sighup := False\<rparr>)) else Inr s) = Inr s1"
    and s': "(if sigchld s1 then rbind (reap_children infos s1) (\<lambda>(_, s). Inr (s\<lparr>sigchld := False\<rparr>)) else Inr s1) = Inr s'"
    unfolding handle_signals_def rbind_eq_Inr by blast
  have flag: "follows s (s\<lparr>sighup := x\<rparr>)" "follows s (s\<lparr>sigchld := x\<rparr>)" for x and s :: "'a net_scheme"
    by (rule follows_frame; simp)+
  have "follows s s1" using s1
    by (auto simp: result_iff split: if_splits intro: follows_trans [OF configuration_reload_follows flag(1)])
  moreover have "follows s1 s'" using s'
    by (auto simp: result_iff split: if_splits intro: follows_trans [OF reap_children_follows flag(2)])
  ultimately show ?thesis by (rule follows_trans)
qed

lemma main_iteration_follows:
  assumes "main_iteration lc below sigmask w s = Inr s'"
  shows "follows s s'"
proof -
  from assms obtain nfds s1 where prepared: "socket_switch_prepare s = Inr (nfds, s1)"
    by (auto simp: main_iteration_def result_iff)
  then have s1: "follows s s1"
    by (auto simp: socket_switch_prepare_def Let_def result_iff intro!: follows_frame split: option.splits)
  show ?thesis
  proof (cases w)
    case (Ready fds)
    define ready where "ready = {fd \<in> readset s1. fd \<in> fds \<and> fd < nfds}"
    have "follows s1 (s1\<lparr>readset := ready\<rparr>)" by (rule follows_frame) simp_all
    moreover have "socket_switch_operate (int (card ready)) (s1\<lparr>readset := ready\<rparr>) = Inr s'"
      using assms prepared Ready by (simp add: main_iteration_def Let_def ready_def)
    ultimately show ?thesis
      using s1 unfolding socket_switch_operate_def by (blast intro: follows_trans operate_fds_follows)
  next
    case (Interrupted signos infos fs)
    then have "handle_signals lc below infos fs (deliver_all sigmask signos s1) = Inr s'"
      using assms prepared by (simp add: main_iteration_def)
    then show ?thesis
      using s1 by (blast intro: follows_trans handle_signals_follows aside_follows deliver_all_aside)
  next
    case Select_error
    with assms prepared s1 show ?thesis by (simp add: main_iteration_def)
  qed
qed

lemma main_loop_follows: "main_loop lc below sigmask ws s = Inr (stop, s') \<Longrightarrow> follows s s'"
proof (induction ws arbitrary: s)
  case (Cons w ws)
  then show ?case
    by (auto simp: result_iff split: if_splits
        intro: main_iteration_follows follows_trans [OF main_iteration_follows])
qed simp

lemma spawns_stop_follows: "spawns_stop s = Inr s' \<Longrightarrow> follows s s'"
  by (auto simp: spawns_stop_def preorder_mutate_rfold intro: rfold_follows spawns_stop_element_follows)

lemma kill_all_follows: "follows s (kill (- 1) SIGKILL s)"
  by (rule follows_event [of _ Kills_all]) (simp_all add: kill_def lifecycle.kills_all)

lemma teardown_wait_follows: "teardown_wait sigmask ws s = Inr (Some (left, s')) \<Longrightarrow> follows s s'"
proof (induction sigmask ws s rule: teardown_wait.induct)
  case (2 sigmask signos infos ws s)
  from 2(2) obtain status s1 where reaped: "reap_children infos (deliver_all sigmask signos s) = Inr (status, s1)"
    by (auto simp: result_iff)
  have s1: "follows s s1"
    by (rule follows_trans [OF aside_follows [OF deliver_all_aside] reap_children_follows [OF reaped]])
  show ?case
  proof (cases "status = 0 \<and> \<not> sigalrm s1 \<and> \<not> spawns_empty s1")
    case True
    then have "follows s1 s'" using 2 reaped by simp
    with s1 show ?thesis by (rule follows_trans)
  next
    case False
    then have "s' = s1" using 2(2) reaped by (auto simp: Let_def split: if_splits)
    with s1 show ?thesis by simp
  qed
qed simp

lemma stop_everything_follows:
  assumes "stop_everything b ws rest s = Inr (Some s')"
  shows "follows s s'"
proof -
  from assms obtain s1 s2 where s1: "spawns_stop s = Inr s1" and s2: "socket_switch_teardown s1 = Inr s2"
    by (auto simp: stop_everything_def result_iff)
  obtain sigmask s3 where s3: "signals_alarm (CONFIG_REBOOT_TIMEOUT b) s2 = (sigmask, s3)" by fastforce
  from assms s1 s2 s3 obtain left s4 where s4: "teardown_wait sigmask ws s3 = Inr (Some (left, s4))"
    and s': "(if left then rbind (reap_children rest (kill (- 1) SIGKILL s4)) (\<lambda>(_, s). Inr s) else Inr s4) = Inr s'"
    by (auto simp: stop_everything_def result_iff split: option.splits)
  have "follows s1 s2"
    using s2 by (auto simp: socket_switch_teardown_def preorder_mutate_rfold
        intro: rfold_follows aside_follows [OF socket_switch_destroy_element_aside])
  moreover have "follows s2 s3"
    by (rule follows_frame) (use s3 in \<open>auto simp: signals_alarm_def Let_def\<close>)
  moreover have "follows s4 s'"
    using s' by (auto simp: result_iff split: if_splits
        intro: follows_trans [OF kill_all_follows reap_children_follows])
  ultimately show ?thesis
    using spawns_stop_follows [OF s1] teardown_wait_follows [OF s4] by (blast intro: follows_trans)
qed

text \<open>From a turn of the loop to the end of the last child.\<close>

lemma rest_of_run_follows:
  assumes "main_loop lc below sigmask wakeups s = Inr (stop, s1)" "stop_everything b ws rest s1 = Inr (Some s2)"
  shows "follows s s2"
  by (rule follows_trans [OF main_loop_follows [OF assms(1)] stop_everything_follows [OF assms(2)]])

end
