(* ===== verification/Lifecycle_Properties.thy ===== *)
theory Lifecycle_Properties
  imports Lifecycle_Refinement Conf_Properties Samples
begin

text \<open>
  What the main loop and the teardown promise to the processes of the daemons, read off the machine
  they refine.
\<close>

section \<open>The program refines the machine\<close>





section \<open>Signals\<close>



section \<open>A request ends the loop\<close>

text \<open>
  C7: When a \<^verbatim>\<open>SIGTERM\<close> arrives that asks for one of the three ways to end, the loop ends with
  this wakeup, after it handled the other signals, and one of the three values is recorded,
  whatever else happens at the same time.
\<close>

theorem sigterm_ends_loop:
  assumes "running s" "wakeup_ok lc below (configuration_path s) (Interrupted signos infos fs)"
    "SIGTERM \<in> set signos" "SIGTERM \<notin> sigmask" "handlers s SIGTERM = Some SIGTERM_HANDLER" "request_pending s"
  shows "\<exists>s'. main_loop lc below sigmask (Interrupted signos infos fs # ws) s = Inr (True, s')
    \<and> running s' \<and> sigreboot s' \<in> {RB_AUTOBOOT, RB_HALT_SYSTEM, RB_POWER_OFF}"
  using assms by (rule request_ends_loop)

theorem sigterm_ends_loop_witness:
  "\<exists>s'. main_loop sample_libc (Inr NUL) {}
      (Interrupted [SIGHUP, SIGTERM] [] (\<lambda>_. None) # [Ready {3}]) sample = Inr (True, s')
    \<and> running s' \<and> sigreboot s' \<in> {RB_AUTOBOOT, RB_HALT_SYSTEM, RB_POWER_OFF}"
  by (rule sigterm_ends_loop [OF sample_ok])
    (simp_all add: wakeup_ok_def sample_def request_pending_def SIGTERM_def SIGCHLD_def SIGHUP_def)

end
