(* ===== verification/Reboot_Properties.thy ===== *)
theory Reboot_Properties
  imports Client_Properties Conf_Properties
begin

unbundle bit_operations_syntax

text \<open>
  From the command line of the client to the call of \<^verbatim>\<open>reboot(2)\<close>: the composition of the
  client, the switch, the parser of a connection, the signals, the main loop and the teardown.
\<close>

section \<open>The client\<close>






section \<open>The connection that has the message\<close>

lemma operate_nothing [simp]: "operate_fds fds 0 s = Inr s"
  by (cases fds) simp_all

lemma operate_skips: "fd \<notin> readset s \<Longrightarrow> nfds \<noteq> 0 \<Longrightarrow> operate_fds (fd # fds) nfds s = operate_fds fds nfds s"
  by simp






section \<open>From the command line to the reboot\<close>





end
