(* ===== verification/Tree_Test.thy ===== *)
theory Tree_Test
  imports Avl_Tree C_Library
begin

text \<open>
  The test program of the balanced tree, \<^verbatim>\<open>test/cyberd-tree.c\<close>: it inserts every integer of 16
  bits in ascending order, looks at the height, the least and the greatest element, and removes
  them all again. Its expectation of the height rests on the shape ascending insertions give.
\<close>

section \<open>The program\<close>

definition TEST_TREE_INTEGER_POOL_MIN :: int where
  "TEST_TREE_INTEGER_POOL_MIN = - 32768"

definition TEST_TREE_INTEGER_POOL_MAX :: int where
  "TEST_TREE_INTEGER_POOL_MAX = 32767"

definition TEST_TREE_INTEGER_POOL_COUNT :: nat where
  "TEST_TREE_INTEGER_POOL_COUNT = nat (1 + TEST_TREE_INTEGER_POOL_MAX - TEST_TREE_INTEGER_POOL_MIN)"

text \<open>
  The elements are integers in place of pointers. Their difference is a \<^verbatim>\<open>long\<close>, returned as an
  \<^verbatim>\<open>int\<close>.
\<close>

definition test_tree_compare :: "int compare" where
  "test_tree_compare lhs rhs =
     (if LONG_MIN \<le> lhs - rhs \<and> lhs - rhs \<le> LONG_MAX then Inr (signed_take_bit 31 (lhs - rhs))
      else Inl Signed_overflow)"

definition test_tree_integer_pool :: "int list" where
  "test_tree_integer_pool =
     map (\<lambda>i. int i + TEST_TREE_INTEGER_POOL_MIN) [0..<TEST_TREE_INTEGER_POOL_COUNT]"

text \<open>The loop \<^verbatim>\<open>while (max->right != NULL) max = max->right\<close>, and the element where it ends.\<close>

fun tree_node_rightmost :: "'a tree_node \<Rightarrow> 'a result" where
  "tree_node_rightmost NULL = Inl Null_deref"
| "tree_node_rightmost (Node x l NULL h) = Inr x"
| "tree_node_rightmost (Node x l (Node y a b h2) h) = tree_node_rightmost (Node y a b h2)"

definition test_tree_insertions :: "int list \<Rightarrow> int tree_node \<Rightarrow> int tree_node result" where
  "test_tree_insertions pool root = rfold (\<lambda>i root. tree_insert test_tree_compare root i) pool root"

definition test_tree_removal :: "int list \<Rightarrow> int tree_node \<Rightarrow> int tree_node result" where
  "test_tree_removal pool root =
     rfold (\<lambda>i root. rbind (tree_remove test_tree_compare root i) (\<lambda>(root, _). Inr root)) pool root"

definition EXIT_SUCCESS :: int where "EXIT_SUCCESS = 0"
definition EXIT_FAILURE :: int where "EXIT_FAILURE = 1"

text \<open>The exit status; a null pointer as the last element is the integer zero.\<close>

definition test_tree_main :: "int result" where
  "test_tree_main =
     rbind (test_tree_insertions test_tree_integer_pool NULL) (\<lambda>root.
     if root = NULL then Inl Null_deref
     else if tree_node_height root \<noteq> 16 + 1 then Inr EXIT_FAILURE
     else
       rbind (tree_node_leftmost root) (\<lambda>least.
       if least \<noteq> TEST_TREE_INTEGER_POOL_MIN then Inr EXIT_FAILURE
       else
         rbind (tree_node_rightmost root) (\<lambda>greatest.
         if greatest \<noteq> TEST_TREE_INTEGER_POOL_MAX then Inr EXIT_FAILURE
         else if greatest \<noteq> (case tree_last root of None \<Rightarrow> 0 | Some x \<Rightarrow> x) then Inr EXIT_FAILURE
         else rbind (test_tree_removal test_tree_integer_pool root) (\<lambda>root. Inr EXIT_SUCCESS))))"

section \<open>Ascending insertions\<close>

text \<open>
  A full tree has all its leaves on one level. Ascending insertions keep every left child full, and
  the right child as high or one higher.
\<close>

fun full :: "'a tree_node \<Rightarrow> bool" where
  "full NULL = True"
| "full (Node x l r h) \<longleftrightarrow> full l \<and> full r \<and> tree_depth l = tree_depth r"

fun filling :: "'a tree_node \<Rightarrow> bool" where
  "filling NULL = True"
| "filling (Node x l r h) \<longleftrightarrow> full l \<and> filling r \<and> tree_depth r \<in> {tree_depth l, tree_depth l + 1}"

lemma nat_depth_Suc:
  "nat (tree_depth t + 1) = Suc (nat (tree_depth t))" "nat (2 + tree_depth t) = Suc (Suc (nat (tree_depth t)))"
  using tree_depth_nonneg [of t] by simp_all

lemma full_size: "full t \<Longrightarrow> length (tree_inorder t) + 1 = 2 ^ nat (tree_depth t)"
  by (induction t) (simp_all add: nat_depth_Suc)

lemma filling_size:
  "filling t \<Longrightarrow> length (tree_inorder t) < 2 ^ nat (tree_depth t)
    \<and> (t \<noteq> NULL \<longrightarrow> 2 ^ (nat (tree_depth t) - 1) \<le> length (tree_inorder t))"
proof (induction t)
  case (Node x l r h)
  have l: "length (tree_inorder l) + 1 = 2 ^ nat (tree_depth l)" using full_size [of l] Node.prems by simp
  have r: "length (tree_inorder r) < 2 ^ nat (tree_depth r)" using Node by simp
  consider "tree_depth r = tree_depth l" | "tree_depth r = tree_depth l + 1" using Node.prems by auto
  then show ?case
  proof cases
    case 1
    then show ?thesis using l r by (simp add: nat_depth_Suc)
  next
    case 2
    then have "r \<noteq> NULL" using tree_depth_nonneg [of l] by auto
    then have "2 ^ (nat (tree_depth r) - 1) \<le> length (tree_inorder r)" using Node by simp
    then show ?thesis using 2 l r by (simp add: nat_depth_Suc)
  qed
qed simp

text \<open>What the insertion of a greatest element does to such a tree.\<close>

definition fills :: "('a \<Rightarrow> 'k::linorder) \<Rightarrow> 'a \<Rightarrow> 'a tree_node \<Rightarrow> 'a tree_node \<Rightarrow> bool" where
  "fills key e t t' \<longleftrightarrow> avl t' \<and> filling t' \<and> tree_inorder t' = tree_inorder t @ [e] \<and>
     (tree_depth t' = tree_depth t \<or>
      tree_depth t' = tree_depth t + 1 \<and>
        (t = NULL \<or> (\<exists>y a b h. t' = Node y a b h \<and> key y < key e \<and> tree_depth b = tree_depth a + 1)))"

context compare_order
begin

lemma insert_greatest_right:
  assumes t: "avl (Node x l r h)" "filling (Node x l r h)" and r': "fills key e r r'"
    and e: "e \<in> carrier" "key x < key e" "set_tree_node r' \<subseteq> carrier"
  shows "\<exists>t'. rbind
       (if tree_node_balance (Node x l r' h) = 2 then
          rbind (tree_node_element r') (\<lambda>y. rbind (compare e y) (\<lambda>c.
            if c > 0 then tree_node_rotate_left (Node x l r' h)
            else tree_node_rotate_right_left (Node x l r' h)))
        else Inr (Node x l r' h)) tree_node_update_height = Inr t' \<and> fills key e (Node x l r h) t'"
proof (cases "tree_depth r' = tree_depth l + 2")
  case True
  have avls: "avl l" "avl r'" using t r' by (simp_all add: fills_def)
  have "tree_depth r = tree_depth l + 1" using t(2) r' True by (auto simp: fills_def)
  moreover have "r \<noteq> NULL" using calculation tree_depth_nonneg [of l] by auto
  ultimately obtain y a b h2 where
    y: "r' = Node y a b h2" "key y < key e" "tree_depth b = tree_depth a + 1"
    using r' True by (auto simp: fills_def)
  from compare_greater [OF e(1) _ y(2)] e(3) y(1) obtain c where c: "compare e y = Inr c" "0 < c" by auto
  have depths: "tree_depth a = tree_depth l" "tree_depth b = tree_depth l + 1" using True y by simp_all
  have "tree_node_balance (Node x l r' h) = 2" using avls True by simp
  then show ?thesis
    using t r' y c depths avls \<open>tree_depth r = tree_depth l + 1\<close> by (auto simp: fills_def Let_def)
next
  case False
  have avls: "avl l" "avl r'" using t r' by (simp_all add: fills_def)
  then have "tree_node_balance (Node x l r' h) \<noteq> 2" using False by simp
  moreover have "tree_depth r' \<in> {tree_depth l, tree_depth l + 1}"
    using t(2) r' False by (auto simp: fills_def)
  ultimately show ?thesis using t r' avls e(2) by (auto simp: fills_def)
qed

lemma insert_greatest:
  assumes "avl t" "filling t" "e \<in> carrier" "\<forall>y \<in> set_tree_node t. y \<in> carrier \<and> key y < key e"
  shows "\<exists>t'. tree_insert compare t e = Inr t' \<and> fills key e t t'"
  using assms(1,2,4) unfolding tree_insert_def tree_node_create_def
proof (induction t)
  case NULL
  then show ?case by (simp add: fills_def)
next
  case (Node x l r h)
  then have x: "x \<in> carrier" "key x < key e" by simp_all
  from compare_greater [OF assms(3) x] obtain c where c: "compare e x = Inr c" "0 < c" by auto
  from Node obtain r' where r': "tree_node_insert compare r (Node e NULL NULL 1) = Inr r'" "fills key e r r'"
    by auto
  have "set_tree_node r' = insert e (set_tree_node r)"
    using r'(2) by (simp add: fills_def flip: set_tree_inorder)
  then have "set_tree_node r' \<subseteq> carrier" using Node.prems assms(3) by auto
  from insert_greatest_right [OF Node.prems(1,2) r'(2) assms(3) x(2) this] c r'(1)
  show ?case by (simp del: tree_node_rotate_left.simps tree_node_rotate_right_left.simps tree_node_balance.simps)
qed

lemma ascending_inserts:
  assumes "avl t" "filling t" "set es \<subseteq> carrier" "set_tree_node t \<subseteq> carrier"
    "sorted_wrt (<) (map key (tree_inorder t @ es))"
  shows "\<exists>t'. rfold (\<lambda>e t. tree_insert compare t e) es t = Inr t' \<and> avl t' \<and> filling t'
    \<and> tree_inorder t' = tree_inorder t @ es"
  using assms
proof (induction es arbitrary: t)
  case (Cons e es)
  have "\<forall>y \<in> set_tree_node t. y \<in> carrier \<and> key y < key e"
    using Cons.prems(4,5) by (auto simp: sorted_wrt_append simp flip: set_tree_inorder)
  with insert_greatest [OF Cons.prems(1,2), of e] Cons.prems(3) obtain t1 where
    t1: "tree_insert compare t e = Inr t1" "fills key e t t1" by auto
  then have "set_tree_node t1 = insert e (set_tree_node t)" by (simp add: fills_def flip: set_tree_inorder)
  then show ?case using t1 Cons.IH [of t1] Cons.prems by (simp add: fills_def)
qed simp

text \<open>Ascending insertions give the least height there is for the number of the elements.\<close>

lemma ascending_height:
  assumes "set es \<subseteq> carrier" "sorted_wrt (<) (map key es)" "es \<noteq> []"
  shows "\<exists>t. rfold (\<lambda>e t. tree_insert compare t e) es NULL = Inr t \<and> tree_ok key carrier t
    \<and> tree_inorder t = es \<and> 2 ^ (nat (tree_node_height t) - 1) \<le> length es
    \<and> length es < 2 ^ nat (tree_node_height t)"
proof -
  from ascending_inserts [of NULL es] assms(1,2) obtain t where
    t: "rfold (\<lambda>e t. tree_insert compare t e) es NULL = Inr t" "avl t" "filling t" "tree_inorder t = es"
    by auto
  moreover have "ordered_by key carrier t" using assms(1,2) t(4) by (simp add: ordered_by_def flip: set_tree_inorder)
  moreover have "t \<noteq> NULL" using t(4) assms(3) by auto
  ultimately show ?thesis using filling_size [of t] by (auto simp: tree_ok_def)
qed

end

section \<open>The test passes\<close>

lemma tree_node_rightmost_last: "t \<noteq> NULL \<Longrightarrow> tree_node_rightmost t = Inr (last (tree_inorder t))"
  by (induction t rule: tree_node_rightmost.induct) auto

interpretation tested: compare_order test_tree_compare "\<lambda>i. i"
  "{TEST_TREE_INTEGER_POOL_MIN..TEST_TREE_INTEGER_POOL_MAX}"
proof unfold_locales
  fix x y
  assume "x \<in> {TEST_TREE_INTEGER_POOL_MIN..TEST_TREE_INTEGER_POOL_MAX}"
    "y \<in> {TEST_TREE_INTEGER_POOL_MIN..TEST_TREE_INTEGER_POOL_MAX}"
  then have "- 65536 \<le> x - y" "x - y < 65536"
    by (simp_all add: TEST_TREE_INTEGER_POOL_MIN_def TEST_TREE_INTEGER_POOL_MAX_def)
  then have diff: "test_tree_compare x y = Inr (x - y)"
    by (simp add: test_tree_compare_def LONG_MIN_def LONG_MAX_def signed_take_bit_int_eq_self)
  show "x < y \<Longrightarrow> \<exists>c < 0. test_tree_compare x y = Inr c" "x = y \<Longrightarrow> test_tree_compare x y = Inr 0"
    "y < x \<Longrightarrow> \<exists>c > 0. test_tree_compare x y = Inr c"
    using diff by auto
qed

lemma pool_length: "length test_tree_integer_pool = 2 ^ 16"
  by (simp only: test_tree_integer_pool_def length_map length_upt TEST_TREE_INTEGER_POOL_COUNT_def
      TEST_TREE_INTEGER_POOL_MIN_def TEST_TREE_INTEGER_POOL_MAX_def) simp

lemma pool_nth:
  "i < 2 ^ 16 \<Longrightarrow> test_tree_integer_pool ! i = int i + TEST_TREE_INTEGER_POOL_MIN"
  using pool_length unfolding test_tree_integer_pool_def by simp

lemma pool_ascending: "sorted_wrt (<) test_tree_integer_pool"
  by (simp add: sorted_wrt_iff_nth_less pool_length pool_nth)

lemma pool_ends:
  "hd test_tree_integer_pool = TEST_TREE_INTEGER_POOL_MIN"
  "last test_tree_integer_pool = TEST_TREE_INTEGER_POOL_MAX" "test_tree_integer_pool \<noteq> []"
proof -
  show ne: "test_tree_integer_pool \<noteq> []" using pool_length by auto
  show "hd test_tree_integer_pool = TEST_TREE_INTEGER_POOL_MIN"
    using pool_nth [of 0] by (simp add: hd_conv_nth [OF ne])
  show "last test_tree_integer_pool = TEST_TREE_INTEGER_POOL_MAX"
    using pool_nth [of "2 ^ 16 - 1"]
    by (simp add: last_conv_nth [OF ne] pool_length TEST_TREE_INTEGER_POOL_MIN_def
        TEST_TREE_INTEGER_POOL_MAX_def)
qed

lemma pool_range: "set test_tree_integer_pool \<subseteq> {TEST_TREE_INTEGER_POOL_MIN..TEST_TREE_INTEGER_POOL_MAX}"
  by (auto simp: in_set_conv_nth pool_length pool_nth TEST_TREE_INTEGER_POOL_MIN_def
      TEST_TREE_INTEGER_POOL_MAX_def)

lemma removal_returns:
  assumes "tree_ok (\<lambda>i. i) {TEST_TREE_INTEGER_POOL_MIN..TEST_TREE_INTEGER_POOL_MAX} t"
    "set es \<subseteq> {TEST_TREE_INTEGER_POOL_MIN..TEST_TREE_INTEGER_POOL_MAX}"
  shows "\<exists>t'. test_tree_removal es t = Inr t'
    \<and> tree_ok (\<lambda>i. i) {TEST_TREE_INTEGER_POOL_MIN..TEST_TREE_INTEGER_POOL_MAX} t'
    \<and> tree_map (\<lambda>i. i) t' = tree_map (\<lambda>i. i) t |` (- set es)"
  using assms unfolding test_tree_removal_def
proof (induction es arbitrary: t)
  case (Cons e es)
  then obtain t1 where
    t1: "tree_remove test_tree_compare t e = Inr (t1, tree_map (\<lambda>i. i) t e)"
      "tree_ok (\<lambda>i. i) {TEST_TREE_INTEGER_POOL_MIN..TEST_TREE_INTEGER_POOL_MAX} t1"
      "tree_map (\<lambda>i. i) t1 = (tree_map (\<lambda>i. i) t)(e := None)"
    using tested.tree_remove_lookup [OF Cons.prems(1), of e] by auto
  from Cons.IH [OF t1(2)] Cons.prems(2) t1 show ?case by (auto simp: restrict_map_def fun_eq_iff)
qed (simp add: restrict_map_def)

text \<open>
  C39: The test program of the tree succeeds: the height after the insertions is the one it expects,
  the least and the greatest element are, and every element can be removed; no assertion fails.
\<close>

theorem tree_test_passes: "test_tree_main = Inr EXIT_SUCCESS"
proof -
  from tested.ascending_height [OF pool_range _ pool_ends(3)] pool_ascending obtain t where
    t: "test_tree_insertions test_tree_integer_pool NULL = Inr t"
      "tree_ok (\<lambda>i. i) {TEST_TREE_INTEGER_POOL_MIN..TEST_TREE_INTEGER_POOL_MAX} t"
      "tree_inorder t = test_tree_integer_pool"
      "2 ^ (nat (tree_node_height t) - 1) \<le> (2 ^ 16 :: nat)" "(2 ^ 16 :: nat) < 2 ^ nat (tree_node_height t)"
    by (auto simp: test_tree_insertions_def pool_length)
  have ne: "t \<noteq> NULL" using t(3) pool_ends(3) by auto
  have "nat (tree_node_height t) - 1 \<le> 16" "16 < nat (tree_node_height t)"
    using t(4,5) by (simp_all only: power_increasing_iff power_strict_increasing_iff one_less_numeral_iff semiring_norm)
  then have "tree_node_height t = 17" by simp
  moreover from removal_returns [OF t(2) pool_range] obtain t' where
    "test_tree_removal test_tree_integer_pool t = Inr t'" by blast
  ultimately show ?thesis
    using t(1,3) ne leftmost_hd [OF ne] tree_node_rightmost_last [OF ne] tree_last_inorder [of t]
    by (simp add: test_tree_main_def pool_ends)
qed

end
