(* ===== verification/Spec2Isabelle.thy ===== *)
theory Spec2Isabelle
  imports Conf_Properties Process_Properties Configuration_Properties Net_Properties Client_Properties
    Lifecycle_Properties Reboot_Properties Tree_Test
begin

text \<open>
  Cyberd is an init system in C: the first process of a machine, which runs daemons from
  configuration files, starts them again when they end, takes commands over local sockets, and at
  the end stops everything and calls \<^verbatim>\<open>reboot(2)\<close>. This library models the program
  \<^verbatim>\<open>cyberd\<close> (\<^verbatim>\<open>src/cyberd/\<close>) and its client \<^verbatim>\<open>cyberctl\<close> (\<^verbatim>\<open>src/cyberctl.c\<close>).

  \<^bold>\<open>How the parts interact.\<close> \<^verbatim>\<open>main.c\<close> sets up the signals, the socket switch, the run
  commands and the store of configurations, and then loops around \<^verbatim>\<open>pselect(2)\<close>: a ready
  descriptor goes to the switch, whose nodes accept connections and parse messages; a message looks
  a daemon up in the store and starts, stops, reloads or ends it, creates an endpoint, or queues a
  \<^verbatim>\<open>SIGTERM\<close> that asks for a reboot; \<^verbatim>\<open>SIGHUP\<close> reloads the store from its directory;
  \<^verbatim>\<open>SIGCHLD\<close> reaps children, found in the storage of the processes by their pid. The three
  storages (daemons by name, daemons by pid, nodes by descriptor) are the balanced tree of
  \<^verbatim>\<open>tree.c\<close> with three comparison functions.

  \<^bold>\<open>The state\<close> is one record that grows with the components: \<open>procs\<close> (the heap of daemons, the
  tree \<open>spawns\<close>, the children the kernel holds, the signals sent), \<open>store\<close> (the tree of the
  daemons and the path), \<open>control\<close> (the flags of the handlers, masks, the pending signal), \<open>net\<close>
  (the nodes, their tree and descriptor sets, the open descriptors and bound paths). Operations are
  functions to \<open>fault + result\<close>: a null or dangling pointer, an access out of bounds, a shift beyond
  the width and a call of \<^verbatim>\<open>abort(3)\<close> are values. What the environment decides is a script in the
  state (pids of the next forks, addresses of the next allocations, descriptors, answers of the system
  calls, bytes read) or an argument (wakeups of \<^verbatim>\<open>pselect(2)\<close>, children reported by
  \<^verbatim>\<open>waitid(2)\<close>, directories and their files, the databases of users and groups).

  \<^bold>\<open>The theories\<close>, in the order of their imports:
    \<^item> \<open>Prelude\<close>: faults, results, checked byte buffers. \<open>C_Library\<close>: the functions of the C
      library the sources call on characters, strings and numbers.
    \<^item> \<open>Avl_Tree\<close>: \<^verbatim>\<open>tree.c\<close> and \<^verbatim>\<open>tree.h\<close>; the locale \<open>compare_order\<close> is what the tree asks
      of a comparison function, and \<open>keyed_storage\<close> what it gives back. \<open>Tree_Test\<close>:
      \<^verbatim>\<open>test/cyberd-tree.c\<close>, the program that tests the tree.
    \<^item> \<open>Daemon_Conf\<close>, \<open>Arguments\<close>, \<open>Conf_Line\<close>, \<open>Conf_File\<close>: \<^verbatim>\<open>daemon_conf.c\<close>, that is the
      parsers of the values, the expansion of arguments in place, one line in its buffer, and the
      whole file with its tables.
    \<^item> \<open>Daemon\<close>: \<^verbatim>\<open>daemon.c\<close> in the parent and \<^verbatim>\<open>spawns.c\<close>; \<open>Daemon_Child\<close>: the child between
      \<^verbatim>\<open>fork(2)\<close> and \<^verbatim>\<open>execve(2)\<close> with its descriptors and credentials, the child of the run
      commands, and the descriptor \<^verbatim>\<open>configuration_fopenat\<close> opens.
    \<^item> \<open>Configuration\<close>: \<^verbatim>\<open>configuration.c\<close>. \<open>Signals\<close>: \<^verbatim>\<open>signals.c\<close> and the delivery of
      signals by the kernel.
    \<^item> \<open>Sockets\<close>, \<open>Switch_Loop\<close>: \<^verbatim>\<open>socket_switch.c\<close>, \<^verbatim>\<open>socket_node.c\<close>,
      \<^verbatim>\<open>socket_endpoint_node.c\<close>. \<open>Connection\<close>: \<^verbatim>\<open>socket_connection_node.c\<close> and
      \<^verbatim>\<open>capabilities.h\<close>.
    \<^item> \<open>Reap\<close>, \<open>Init\<close>: \<^verbatim>\<open>main.c\<close>. \<open>Cyberctl\<close>: \<^verbatim>\<open>cyberctl.c\<close>.
    \<^item> \<open>Net_Invariant\<close>, \<open>Net_Operations\<close>, \<open>Parser_Invariant\<close>, \<open>Switch_Invariant\<close>,
      \<open>Main_Invariant\<close>: the invariant of the switch, of a parser with its capabilities, of the whole
      program, and that every operation keeps it.
    \<^item> \<open>Lifecycle\<close>: an abstract machine of the daemons, a labelled step relation whose events are
      starts, ends and signals; \<open>Lifecycle_Refinement\<close>: every operation follows it.
    \<^item> \<open>Samples\<close> and the theories that end in \<open>Properties\<close>: the properties, each applied to a
      concrete state, message or file. \<open>Reboot_Properties\<close> composes the client with the program,
      from a command line to the call of \<^verbatim>\<open>reboot(2)\<close>. This theory holds the properties of the
      whole program.

  \<^bold>\<open>What the lemmas show.\<close> The tree is a finite map that stays balanced and ordered, and insertions in
  ascending order give it the least height there is, so that its test passes; the parsers of
  the configuration return for every file, the expansion of arguments is the splitting into words and
  undoes quoting, a file of well formed lines means what \<^verbatim>\<open>daemon.conf(5)\<close> says, and exactly the
  lines that make the parser read below its buffer are found. The operations on daemons never fault,
  signal children only, and keep \<open>procs_ok\<close>: the storage of the processes holds exactly the daemons
  that are not stopped, under distinct pids. A load and a reload give exactly the daemons of the
  files. The parser of a connection stays within the capabilities of its endpoint, but for two faults
  of its arithmetic. From the start of the system to \<^verbatim>\<open>reboot(2)\<close> nothing else fails, and a
  request ends the loop. Main loop and teardown refine the machine of \<open>Lifecycle\<close>, from which it
  follows that no signal reaches a process that was waited for and no daemon has two processes.

  \<^bold>\<open>Bounds.\<close> No definition uses fuel. The loops of the source over buffers are recursive functions
  with a measure (the bytes left in the buffer, the index that falls); the parser of a connection
  checks each access against the length of its buffer, so it returns or ends in a fault. The loops
  that may wait forever are recursions over the list of what the kernel reports, with the result
  \<open>None\<close>, or a flag, while the program still waits; that they end is proved from what was reported.
  Words have the widths of an LP64 platform that is little endian.

  \<^bold>\<open>Assumptions.\<close> The invariant of the switch asks that new descriptors are below
  \<^verbatim>\<open>FD_SETSIZE\<close>, as the source does not check it. \<^verbatim>\<open>fork(2)\<close> gives a pid no child that was not
  waited for has; \<^verbatim>\<open>waitid(2)\<close> reports terminated children only, as it is asked to. A file of the
  directory is parsed under the predicate \<open>entries_ok\<close>, which leaves out the lines that are read out
  of bounds. \<^verbatim>\<open>getopt(3)\<close> stops at the first operand, as POSIX has it.

  \<^bold>\<open>Not modelled:\<close> the messages of \<^verbatim>\<open>syslog(3)\<close> and of the usage, \<^verbatim>\<open>openlog\<close> and the session of
  the process itself, \<^verbatim>\<open>sync(2)\<close>, all without effect on the state above; the failing assertion of an
  allocation in the tree; an error of \<^verbatim>\<open>readdir(3)\<close>, which ends the list of entries like the end of
  the directory does; the flags a handler is set with; the build files and the manual pages. Comments,
  includes and log messages make up most of the lines that no definition covers.
\<close>

section \<open>The program as a whole\<close>

text \<open>
  C3: Every turn of the main loop keeps the invariant of the whole program, whatever descriptors
  become ready, whatever signals arrive and whatever the directory holds by then, as long as its
  files can be parsed; when the loop ends a reboot was asked for. The two faults of the parser of
  connections are the only ones.
\<close>

theorem main_loop_invariant:
  assumes "running s" "\<forall>w \<in> set ws. wakeup_ok lc below (configuration_path s) w"
  shows "main_loop lc below sigmask ws s \<in> {Inl Out_of_bounds, Inl Shift_overflow}
    \<or> (\<exists>stop s'. main_loop lc below sigmask ws s = Inr (stop, s') \<and> running s'
          \<and> (stop \<longrightarrow> sigreboot s' \<noteq> 0))"
  using assms by (rule main_loop_ok)

theorem main_loop_invariant_witness:
  "main_loop sample_libc (Inr NUL) {} [Ready {3}, Interrupted [SIGHUP, SIGCHLD] [] (\<lambda>_. Some unreadable)] sample
      \<in> {Inl Out_of_bounds, Inl Shift_overflow}
    \<or> (\<exists>stop s'. main_loop sample_libc (Inr NUL) {}
          [Ready {3}, Interrupted [SIGHUP, SIGCHLD] [] (\<lambda>_. Some unreadable)] sample = Inr (stop, s') \<and> running s'
          \<and> (stop \<longrightarrow> sigreboot s' \<noteq> 0))"
  by (rule main_loop_invariant [OF sample_ok]) (simp add: wakeup_ok_def unreadable_ok)








end
